(* ===== verification/Prelude.thy ===== *)
theory Prelude
  imports Complex_Main "HOL-Library.Word" "HOL-Library.Product_Lexorder"
begin

section \<open>Shared types, tables and arithmetic\<close>

text \<open>
  What every component of the library uses: the names of the model's scalar types, tables
  as lists of rows with a key (lookup, update in place, removal), rounding of seconds to
  microseconds as \<open>datetime.timedelta\<close> does it, and the result type of a call that may
  raise.

  A \<open>datetime\<close> is its number of microseconds since the epoch (the resolution of Python's
  type and of Postgres' \<open>timestamptz\<close>); a \<open>uuid.UUID\<close> is its 128-bit value, which is also
  how Postgres orders the \<open>uuid\<close> type; a Python \<open>float\<close> is a rational, that is, the model
  does not round; a Python \<open>str\<close> is a list of code points below 256.
\<close>

type_synonym uuid = "128 word"
type_synonym timestamp = int
type_synonym duration = int
type_synonym byte = "8 word"

named_theorems table_simps "equations that carry lookups through table updates"

subsection \<open>Tables\<close>

definition find_by :: "('r \<Rightarrow> 'k) \<Rightarrow> 'k \<Rightarrow> 'r list \<Rightarrow> 'r option" where
  "find_by key k rows = List.find (\<lambda>r. key r = k) rows"

definition update_by :: "('r \<Rightarrow> 'k) \<Rightarrow> 'k \<Rightarrow> ('r \<Rightarrow> 'r) \<Rightarrow> 'r list \<Rightarrow> 'r list" where
  "update_by key k f rows = map (\<lambda>r. if key r = k then f r else r) rows"

lemma find_by_simps [simp]:
  "find_by key k [] = None"
  "find_by key k (r # rows) = (if key r = k then Some r else find_by key k rows)"
  by (simp_all add: find_by_def)

lemma find_by_SomeD: "find_by key k rows = Some r \<Longrightarrow> r \<in> set rows \<and> key r = k"
  by (induction rows) (auto split: if_splits)

lemma find_by_None_iff: "find_by key k rows = None \<longleftrightarrow> k \<notin> key ` set rows"
  by (induction rows) auto

lemma find_by_distinct:
  "distinct (map key rows) \<Longrightarrow> r \<in> set rows \<Longrightarrow> key r = k \<Longrightarrow> find_by key k rows = Some r"
  by (induction rows) (auto simp: image_iff)

lemma find_by_append [table_simps]:
  "find_by key k (xs @ ys) = (case find_by key k xs of None \<Rightarrow> find_by key k ys | Some r \<Rightarrow> Some r)"
  by (induction xs) auto

lemma find_by_update_by [table_simps]:
  "(\<And>r. key r = k \<Longrightarrow> key (f r) = k) \<Longrightarrow>
   find_by key j (update_by key k f rows) =
     (if j = k then map_option f (find_by key k rows) else find_by key j rows)"
  by (induction rows) (auto simp: update_by_def)

lemma map_key_update_by [simp]:
  "(\<And>r. key r = k \<Longrightarrow> key (f r) = k) \<Longrightarrow> map key (update_by key k f rows) = map key rows"
  by (induction rows) (auto simp: update_by_def)

lemma map_other_update_by:
  "(\<And>r. g (f r) = g r) \<Longrightarrow> map g (update_by key k f rows) = map g rows"
  by (induction rows) (auto simp: update_by_def)

lemma set_update_byD:
  "r \<in> set (update_by key k f rows) \<Longrightarrow>
     (r \<in> set rows \<and> key r \<noteq> k) \<or> (\<exists>r0 \<in> set rows. key r0 = k \<and> r = f r0)"
  by (auto simp: update_by_def)

lemma length_update_by [simp]: "length (update_by key k f rows) = length rows"
  by (simp add: update_by_def)

lemma find_by_filter_neq [table_simps]:
  "find_by key j (filter (\<lambda>r. key r \<noteq> k) rows) = (if j = k then None else find_by key j rows)"
  by (induction rows) auto

lemma find_by_filter_keep:
  "(\<And>r. r \<in> set rows \<Longrightarrow> key r = k \<Longrightarrow> P r) \<Longrightarrow> find_by key k (filter P rows) = find_by key k rows"
  by (induction rows) auto

lemma distinct_map_filterI: "distinct (map key rows) \<Longrightarrow> distinct (map key (filter P rows))"
  by (induction rows) auto

subsection \<open>Outcomes\<close>

text \<open>
  A call that may raise is a value of \<open>'e + 'a\<close>, \<open>Inl\<close> for the exception. \<open>res_bind\<close>
  is the sequencing of two such calls.
\<close>

definition res_bind :: "'e + 'a \<Rightarrow> ('a \<Rightarrow> 'e + 'b) \<Rightarrow> 'e + 'b" where
  "res_bind r k = case_sum Inl k r"

lemma res_bind_simps [simp]:
  "res_bind (Inl e) k = Inl e"
  "res_bind (Inr x) k = k x"
  by (simp_all add: res_bind_def)

lemma res_bind_Inr_iff: "res_bind r k = Inr y \<longleftrightarrow> (\<exists>x. r = Inr x \<and> k x = Inr y)"
  by (cases r) auto

subsection \<open>Seconds to microseconds\<close>

text \<open>
  \<open>timedelta(seconds=s)\<close> rounds to the nearest microsecond, ties to even.
\<close>

definition round_half_even :: "rat \<Rightarrow> int" where
  "round_half_even x =
     (let f = \<lfloor>x\<rfloor>; d = x - of_int f in
      if d < 1 / 2 then f else if 1 / 2 < d then f + 1 else if even f then f else f + 1)"

definition timedelta_seconds :: "rat \<Rightarrow> duration" where
  "timedelta_seconds s = round_half_even (s * 1000000)"

lemma round_half_even_le: "x \<le> of_int n \<Longrightarrow> round_half_even x \<le> n"
proof -
  assume x: "x \<le> of_int n"
  then have f: "\<lfloor>x\<rfloor> \<le> n" by (simp add: floor_le_iff)
  show ?thesis
  proof (cases "\<lfloor>x\<rfloor> = n")
    case True
    with x have "x - of_int \<lfloor>x\<rfloor> = 0"
      by (metis of_int_floor_le order_antisym right_minus_eq)
    then show ?thesis using True by (simp add: round_half_even_def)
  next
    case False
    with f show ?thesis by (auto simp: round_half_even_def Let_def)
  qed
qed

lemma round_half_even_ge: "of_int n \<le> x \<Longrightarrow> n \<le> round_half_even x"
proof -
  assume "of_int n \<le> x"
  then have "n \<le> \<lfloor>x\<rfloor>" by (simp add: le_floor_iff)
  then show ?thesis by (auto simp: round_half_even_def Let_def)
qed

lemma timedelta_seconds_nonneg: "0 \<le> s \<Longrightarrow> 0 \<le> timedelta_seconds s"
  by (simp add: timedelta_seconds_def round_half_even_ge)

lemma timedelta_seconds_le: "s \<le> of_int n \<Longrightarrow> timedelta_seconds s \<le> n * 1000000"
proof -
  assume "s \<le> of_int n"
  then have "s * 1000000 \<le> of_int (n * 1000000)" by simp
  then show ?thesis by (simp only: timedelta_seconds_def round_half_even_le)
qed

lemma timedelta_seconds_int [simp]: "timedelta_seconds (of_int n) = n * 1000000"
  by (rule order_antisym)
     (simp_all only: timedelta_seconds_def round_half_even_le round_half_even_ge of_int_mult
        of_int_numeral order_refl)

subsection \<open>Invariants of a step relation\<close>

text \<open>
  What every component with a step relation promises: its steps keep an invariant. Then it holds
  in every state they reach.
\<close>

locale step_invariant =
  fixes step :: "'s \<Rightarrow> 's \<Rightarrow> bool"
    and inv :: "'s \<Rightarrow> bool"
  assumes step_inv: "step s t \<Longrightarrow> inv s \<Longrightarrow> inv t"
begin

lemma reachable_inv: "step\<^sup>*\<^sup>* s t \<Longrightarrow> inv s \<Longrightarrow> inv t"
  by (induction rule: rtranclp_induct) (auto intro: step_inv)

lemma inv_throughout: "step\<^sup>*\<^sup>* s t \<Longrightarrow> step t u \<Longrightarrow> inv s \<Longrightarrow> inv u"
  by (auto intro: step_inv reachable_inv)

end

end
