(* ===== verification/Domain.thy ===== *)
theory Domain
  imports Prelude
begin

section \<open>Domain entities, errors and settings\<close>

text \<open>
  The data of \<open>relay/domain/*/entities.py\<close>, \<open>relay/domain/errors.py\<close> and
  \<open>relay/infra/settings.py\<close>: each \<open>StrEnum\<close> is a datatype with its wire value and the
  parse the repositories use (\<open>DeliveryState(model.state)\<close>), each frozen dataclass is a
  record, the exception hierarchy is one datatype. The methods of the entities are here too.
\<close>

subsection \<open>Enumerations\<close>

datatype delivery_state = PENDING | DELIVERED | RETRYING | DEAD

fun delivery_state_value :: "delivery_state \<Rightarrow> string" where
  "delivery_state_value PENDING = ''pending''"
| "delivery_state_value DELIVERED = ''delivered''"
| "delivery_state_value RETRYING = ''retrying''"
| "delivery_state_value DEAD = ''dead''"

datatype attempt_error_class = HTTP_ERROR | TIMEOUT | CONNECTION_ERROR | SSRF_BLOCKED

fun error_class_value :: "attempt_error_class \<Rightarrow> string" where
  "error_class_value HTTP_ERROR = ''http_error''"
| "error_class_value TIMEOUT = ''timeout''"
| "error_class_value CONNECTION_ERROR = ''connection_error''"
| "error_class_value SSRF_BLOCKED = ''ssrf_blocked''"

datatype endpoint_status = ACTIVE | DISABLED

fun endpoint_status_value :: "endpoint_status \<Rightarrow> string" where
  "endpoint_status_value ACTIVE = ''active''"
| "endpoint_status_value DISABLED = ''disabled''"

datatype breaker_state = CLOSED | OPEN | HALF_OPEN

fun breaker_state_value :: "breaker_state \<Rightarrow> string" where
  "breaker_state_value CLOSED = ''closed''"
| "breaker_state_value OPEN = ''open''"
| "breaker_state_value HALF_OPEN = ''half_open''"

datatype outbox_status = OUTBOX_PENDING | OUTBOX_PROCESSED

subsection \<open>JSON values\<close>

text \<open>
  An event payload is \<open>dict[str, object]\<close>, what \<open>json.loads\<close> builds. Python compares such
  values with \<open>==\<close>: numbers by value across \<open>int\<close> and \<open>float\<close>, \<open>True\<close> as \<open>1\<close> and
  \<open>False\<close> as \<open>0\<close>, lists element by element, dicts as maps whatever the order of their keys.
\<close>

datatype json =
    JNull
  | JBool bool
  | JInt int
  | JFloat rat
  | JStr string
  | JArr "json list"
  | JObj "(string \<times> json) list"

fun json_number :: "json \<Rightarrow> rat option" where
  "json_number (JBool b) = Some (if b then 1 else 0)"
| "json_number (JInt n) = Some (of_int n)"
| "json_number (JFloat r) = Some r"
| "json_number _ = None"

fun py_eq :: "json \<Rightarrow> json \<Rightarrow> bool"
  and py_eq_list :: "json list \<Rightarrow> json list \<Rightarrow> bool"
  and py_eq_fields :: "(string \<times> json) list \<Rightarrow> (string \<times> json) list \<Rightarrow> bool" where
  "py_eq JNull b = (b = JNull)"
| "py_eq (JStr s) b = (b = JStr s)"
| "py_eq (JBool x) b = (json_number b = Some (if x then 1 else 0))"
| "py_eq (JInt n) b = (json_number b = Some (of_int n))"
| "py_eq (JFloat r) b = (json_number b = Some r)"
| "py_eq (JArr xs) b = (case b of JArr ys \<Rightarrow> py_eq_list xs ys | _ \<Rightarrow> False)"
| "py_eq (JObj fs) b =
     (case b of JObj gs \<Rightarrow> length fs = length gs \<and> py_eq_fields fs gs | _ \<Rightarrow> False)"
| "py_eq_list [] ys = (ys = [])"
| "py_eq_list (x # xs) ys = (case ys of [] \<Rightarrow> False | y # ys' \<Rightarrow> py_eq x y \<and> py_eq_list xs ys')"
| "py_eq_fields [] gs = True"
| "py_eq_fields ((k, v) # fs) gs =
     (case map_of gs k of None \<Rightarrow> False | Some w \<Rightarrow> py_eq v w \<and> py_eq_fields fs gs)"

text \<open>A dict never holds a key twice; \<open>json_wf\<close> says so at every level.\<close>

fun json_wf :: "json \<Rightarrow> bool" where
  "json_wf (JArr xs) = list_all json_wf xs"
| "json_wf (JObj fs) = (distinct (map fst fs) \<and> list_all (\<lambda>(k, v). json_wf v) fs)"
| "json_wf _ = True"

subsection \<open>Entities\<close>

record tenant =
  t_id :: uuid
  t_name :: string
  t_created_at :: timestamp
  t_deleted_at :: "timestamp option"
  t_is_sandbox :: bool

definition is_deleted :: "tenant \<Rightarrow> bool" where
  "is_deleted t \<longleftrightarrow> t_deleted_at t \<noteq> None"

record api_key =
  k_id :: uuid
  k_tenant_id :: uuid
  k_key_hash :: string
  k_key_prefix :: string
  k_scopes :: "string list"
  k_created_at :: timestamp
  k_revoked_at :: "timestamp option"
  k_expires_at :: "timestamp option"

definition WILDCARD_SCOPE :: string where
  "WILDCARD_SCOPE = ''*''"

definition is_revoked :: "api_key \<Rightarrow> bool" where
  "is_revoked k \<longleftrightarrow> k_revoked_at k \<noteq> None"

definition is_expired :: "api_key \<Rightarrow> timestamp \<Rightarrow> bool" where
  "is_expired k now = (case k_expires_at k of None \<Rightarrow> False | Some t \<Rightarrow> t \<le> now)"

definition has_scope :: "api_key \<Rightarrow> string \<Rightarrow> bool" where
  "has_scope k required \<longleftrightarrow> WILDCARD_SCOPE \<in> set (k_scopes k) \<or> required \<in> set (k_scopes k)"

record endpoint =
  ep_id :: uuid
  ep_tenant_id :: uuid
  ep_url :: string
  ep_secret :: string
  ep_event_types :: "string list"
  ep_created_at :: timestamp
  ep_status :: endpoint_status
  ep_breaker_state :: breaker_state
  ep_opened_at :: "timestamp option"
  ep_consecutive_failures :: nat

definition is_active :: "endpoint \<Rightarrow> bool" where
  "is_active e \<longleftrightarrow> ep_status e = ACTIVE"

definition is_subscribed_to :: "endpoint \<Rightarrow> string \<Rightarrow> bool" where
  "is_subscribed_to e event_type \<longleftrightarrow> event_type \<in> set (ep_event_types e)"

record event =
  ev_id :: uuid
  ev_tenant_id :: uuid
  ev_type :: string
  ev_payload :: json
  ev_idempotency_key :: string
  ev_created_at :: timestamp
  ev_correlation_id :: "string option"

record outbox_entry =
  ob_id :: uuid
  ob_event_id :: uuid
  ob_status :: outbox_status
  ob_attempts :: nat
  ob_created_at :: timestamp
  ob_locked_at :: "timestamp option"

record delivery =
  d_id :: uuid
  d_event_id :: uuid
  d_endpoint_id :: uuid
  d_state :: delivery_state
  d_attempt_count :: nat
  d_created_at :: timestamp
  d_next_retry_at :: "timestamp option"

record delivery_attempt =
  a_id :: uuid
  a_delivery_id :: uuid
  a_attempt_no :: nat
  a_latency_ms :: int
  a_created_at :: timestamp
  a_response_status :: "int option"
  a_error_class :: "attempt_error_class option"
  a_request_snippet :: "string option"
  a_response_snippet :: "string option"
  a_request_headers :: "(string \<times> string) list option"

subsection \<open>Errors\<close>

text \<open>
  Every exception the modelled code raises or lets through: the \<open>DomainError\<close> hierarchy with
  its three \<open>ConflictError\<close> and one \<open>ValidationError\<close> subclasses, FastAPI's
  \<open>HTTPException\<close>, and the Python and database errors that no handler of the services
  catches.
\<close>

datatype error =
    NotFoundError uuid
  | IdempotencyKeyConflict uuid string
  | DifferingBodyConflict uuid string
  | DeliveryNotDeadError uuid delivery_state
  | ValidationError string
  | CursorDecodeError string
  | RateLimitExceeded rat
  | PayloadTooLarge nat nat
  | SandboxQuotaExceeded string nat
  | SsrfBlocked
  | HTTPException nat string
  | RequestValidationError string
  | IntegrityError
  | ValueError string
  | TypeError string
  | RuntimeError string
  | KeyError string
  | AssertionError string
  | ResponseError string
  | OSError string

subsection \<open>Settings\<close>

record settings =
  outbox_poll_interval_seconds :: rat
  outbox_claim_batch_size :: nat
  scheduler_tick_interval_seconds :: rat
  reaper_tick_interval_seconds :: rat
  reaper_min_idle_ms :: nat
  signature_tolerance_seconds :: int
  breaker_failure_threshold :: nat
  breaker_cooldown_seconds :: rat
  ssrf_allowed_ports :: "nat list"
  delivery_max_attempts :: nat
  dispatcher_concurrency :: nat
  dispatcher_per_endpoint_concurrency :: nat
  rate_limit_requests_per_second :: rat
  rate_limit_burst :: nat
  outbound_user_agent :: string
  event_payload_max_bytes :: nat
  sandbox_ttl_minutes :: nat
  sandbox_max_endpoints :: nat
  sandbox_max_events :: nat
  sandbox_rate_limit_requests_per_second :: rat
  sandbox_rate_limit_burst :: nat
  sandbox_creation_rate_limit_requests_per_second :: rat
  sandbox_creation_rate_limit_burst :: nat

definition default_settings :: settings where
  "default_settings =
     \<lparr>outbox_poll_interval_seconds = 1, outbox_claim_batch_size = 50,
      scheduler_tick_interval_seconds = 1, reaper_tick_interval_seconds = 30, reaper_min_idle_ms = 30000,
      signature_tolerance_seconds = 300, breaker_failure_threshold = 5,
      breaker_cooldown_seconds = 60, ssrf_allowed_ports = [80, 443],
      delivery_max_attempts = 8, dispatcher_concurrency = 10,
      dispatcher_per_endpoint_concurrency = 3, rate_limit_requests_per_second = 5,
      rate_limit_burst = 20,
      outbound_user_agent = ''Relay-Webhooks/1.0 (+https://relay.bookr.tech/docs)'',
      event_payload_max_bytes = 65536, sandbox_ttl_minutes = 60, sandbox_max_endpoints = 3,
      sandbox_max_events = 20, sandbox_rate_limit_requests_per_second = 1,
      sandbox_rate_limit_burst = 3, sandbox_creation_rate_limit_requests_per_second = 1 / 20,
      sandbox_creation_rate_limit_burst = 3\<rparr>"

subsection \<open>Facts of the data\<close>

lemma delivery_state_value_inject [simp]:
  "delivery_state_value a = delivery_state_value b \<longleftrightarrow> a = b"
  by (cases a; cases b) simp_all

lemma has_scope_mono: "has_scope k r \<Longrightarrow> set (k_scopes k) \<subseteq> set (k_scopes k') \<Longrightarrow> has_scope k' r"
  by (auto simp: has_scope_def)

lemma is_expired_later: "is_expired k t \<Longrightarrow> t \<le> t' \<Longrightarrow> is_expired k t'"
  by (auto simp: is_expired_def split: option.splits)

lemma py_eq_list_refl: "(\<And>x. x \<in> set xs \<Longrightarrow> py_eq x x) \<Longrightarrow> py_eq_list xs xs"
  by (induction xs) auto

lemma py_eq_fields_refl:
  "\<forall>p \<in> set fs. map_of gs (fst p) = Some (snd p) \<and> py_eq (snd p) (snd p) \<Longrightarrow> py_eq_fields fs gs"
  by (induction fs) auto

text \<open>A payload without duplicate keys is equal to itself, so a replay of a request is one.\<close>

lemma py_eq_refl: "json_wf j \<Longrightarrow> py_eq j j"
proof (induction j)
  case (JArr xs)
  then show ?case by (auto simp: list_all_iff intro!: py_eq_list_refl)
next
  case (JObj fs)
  then have "\<forall>p \<in> set fs. map_of fs (fst p) = Some (snd p) \<and> py_eq (snd p) (snd p)"
    by (fastforce simp: list_all_iff snds.simps)
  then have "py_eq_fields fs fs" by (rule py_eq_fields_refl)
  then show ?case by simp
qed simp_all

end
