(* ===== verification/Breaker.thy ===== *)
theory Breaker
  imports Domain
begin

section \<open>The circuit breaker\<close>

text \<open>
  \<open>relay/domain/endpoints/breaker.py\<close>: the decision to skip an attempt while the breaker is
  open, and the transition after one attempt. \<open>breaker_after\<close> is the sequence of the two as
  the delivery service performs it on an endpoint's three columns for an attempt that is sent
  (the half-open flip first). The lemmas relate the columns to the number of failures at the
  end of the endpoint's history.
\<close>

record breaker_transition =
  bt_state :: breaker_state
  bt_consecutive_failures :: nat
  bt_opened_at :: "timestamp option"

definition should_skip_for_open_breaker ::
  "breaker_state \<Rightarrow> timestamp option \<Rightarrow> timestamp \<Rightarrow> duration \<Rightarrow> bool" where
  "should_skip_for_open_breaker state opened_at now cooldown =
     (if state \<noteq> OPEN then False
      else case opened_at of
             None \<Rightarrow> False
           | Some t \<Rightarrow> now - t < cooldown)"

definition next_breaker_state ::
  "breaker_state \<Rightarrow> nat \<Rightarrow> timestamp \<Rightarrow> bool \<Rightarrow> nat \<Rightarrow> breaker_transition" where
  "next_breaker_state current_state consecutive_failures now success failure_threshold =
     (if success
      then \<lparr>bt_state = CLOSED, bt_consecutive_failures = 0, bt_opened_at = None\<rparr>
      else let failures = consecutive_failures + 1 in
        if current_state = HALF_OPEN
        then \<lparr>bt_state = OPEN, bt_consecutive_failures = failures, bt_opened_at = Some now\<rparr>
        else if failure_threshold \<le> failures
        then \<lparr>bt_state = OPEN, bt_consecutive_failures = failures, bt_opened_at = Some now\<rparr>
        else \<lparr>bt_state = CLOSED, bt_consecutive_failures = failures, bt_opened_at = None\<rparr>)"

text \<open>The state an attempt that is sent is judged against: an open breaker probes half-open.\<close>

definition probe_state :: "breaker_state \<Rightarrow> breaker_state" where
  "probe_state st = (if st = OPEN then HALF_OPEN else st)"

definition breaker_after :: "nat \<Rightarrow> breaker_transition \<Rightarrow> timestamp \<Rightarrow> bool \<Rightarrow> breaker_transition" where
  "breaker_after threshold b now success =
     next_breaker_state (probe_state (bt_state b)) (bt_consecutive_failures b) now success threshold"

definition breaker_init :: breaker_transition where
  "breaker_init = \<lparr>bt_state = CLOSED, bt_consecutive_failures = 0, bt_opened_at = None\<rparr>"

fun breaker_history :: "nat \<Rightarrow> breaker_transition \<Rightarrow> (timestamp \<times> bool) list \<Rightarrow> breaker_transition" where
  "breaker_history threshold b [] = b"
| "breaker_history threshold b ((now, success) # h) =
     breaker_history threshold (breaker_after threshold b now success) h"

subsection \<open>Abstract specification: the run of failures at the end of the history\<close>

definition trailing_failures :: "(timestamp \<times> bool) list \<Rightarrow> nat" where
  "trailing_failures h = length (takeWhile (\<lambda>(t, ok). \<not> ok) (rev h))"

definition last_time :: "(timestamp \<times> bool) list \<Rightarrow> timestamp option" where
  "last_time h = (if h = [] then None else Some (fst (last h)))"

definition breaker_spec :: "nat \<Rightarrow> (timestamp \<times> bool) list \<Rightarrow> breaker_transition" where
  "breaker_spec threshold h =
     (let n = trailing_failures h; opened = (0 < n \<and> threshold \<le> n) in
      \<lparr>bt_state = (if opened then OPEN else CLOSED), bt_consecutive_failures = n,
       bt_opened_at = (if opened then last_time h else None)\<rparr>)"

text \<open>What every stored breaker satisfies (the threshold is at least one).\<close>

definition breaker_ok :: "nat \<Rightarrow> breaker_transition \<Rightarrow> bool" where
  "breaker_ok threshold b \<longleftrightarrow>
     (case bt_state b of
        CLOSED \<Rightarrow> bt_consecutive_failures b < threshold \<and> bt_opened_at b = None
      | OPEN \<Rightarrow> threshold \<le> bt_consecutive_failures b \<and> bt_opened_at b \<noteq> None
      | HALF_OPEN \<Rightarrow> False)"

lemmas breaker_defs = should_skip_for_open_breaker_def next_breaker_state_def probe_state_def
  breaker_after_def Let_def

lemma trailing_failures_snoc [simp]:
  "trailing_failures [] = 0"
  "trailing_failures (h @ [(t, ok)]) = (if ok then 0 else Suc (trailing_failures h))"
  by (simp_all add: trailing_failures_def)

lemma breaker_history_snoc:
  "breaker_history thr b (h @ [(t, ok)]) = breaker_after thr (breaker_history thr b h) t ok"
  by (induction h arbitrary: b) auto

lemma probe_state_neq_OPEN [simp]: "probe_state st \<noteq> OPEN"
  by (simp add: probe_state_def)

lemma next_breaker_state_cases:
  "bt_state (next_breaker_state st n now ok thr) =
     (if ok then CLOSED else if st = HALF_OPEN \<or> thr \<le> Suc n then OPEN else CLOSED)"
  "bt_consecutive_failures (next_breaker_state st n now ok thr) = (if ok then 0 else Suc n)"
  "bt_opened_at (next_breaker_state st n now ok thr) =
     (if bt_state (next_breaker_state st n now ok thr) = OPEN then Some now else None)"
  by (auto simp: breaker_defs)

lemma next_breaker_state_not_half_open:
  "bt_state (next_breaker_state st n now ok thr) \<noteq> HALF_OPEN"
  by (simp add: next_breaker_state_cases(1))

lemma breaker_after_ok: "0 < thr \<Longrightarrow> breaker_ok thr b \<Longrightarrow> breaker_ok thr (breaker_after thr b now ok)"
  by (auto simp: breaker_ok_def breaker_defs split: breaker_state.splits if_splits)

lemma breaker_init_ok: "0 < thr \<Longrightarrow> breaker_ok thr breaker_init"
  by (simp add: breaker_ok_def breaker_init_def)

lemma should_skip_iff:
  "should_skip_for_open_breaker st op now c \<longleftrightarrow>
     st = OPEN \<and> (\<exists>t. op = Some t \<and> now < t + c)"
  by (auto simp: should_skip_for_open_breaker_def split: option.splits)

lemma should_skip_antimono:
  "should_skip_for_open_breaker st op now c \<Longrightarrow> now' \<le> now \<Longrightarrow>
   should_skip_for_open_breaker st op now' c"
  by (auto simp: should_skip_iff)

lemma breaker_history_refines:
  assumes "0 < thr"
  shows "breaker_history thr breaker_init h = breaker_spec thr h"
proof (induction h rule: rev_induct)
  case Nil
  with assms show ?case by (simp add: breaker_spec_def breaker_init_def)
next
  case (snoc x h)
  obtain t ok where x: "x = (t, ok)" by (cases x)
  let ?n = "trailing_failures h"
  have "breaker_after thr (breaker_spec thr h) t ok = breaker_spec thr (h @ [(t, ok)])"
    using assms by (auto simp: breaker_spec_def breaker_defs last_time_def)
  with snoc show ?case by (simp add: x breaker_history_snoc)
qed

subsection \<open>Properties\<close>

text \<open>
  C17. The breaker implements its contract: starting closed, after any history of sent attempts
  the stored columns are exactly the specification's. The counter is the number of failures
  since the last success, the breaker is open when that number has reached the threshold and
  closed otherwise, and \<open>opened_at\<close> is the time of the last failure.
\<close>

theorem breaker_implements_spec:
  assumes "0 < threshold"
  shows "breaker_history threshold breaker_init h = breaker_spec threshold h"
  using assms by (rule breaker_history_refines)

theorem breaker_implements_spec_witness:
  "(0::nat) < 2 \<and>
   breaker_history 2 breaker_init [(1, False), (2, True), (3, False), (9, False), (70, False)] =
     \<lparr>bt_state = OPEN, bt_consecutive_failures = 3, bt_opened_at = Some 70\<rparr>"
  using breaker_implements_spec [of 2 "[(1, False), (2, True), (3, False), (9, False), (70, False)]"]
  by (simp add: breaker_spec_def trailing_failures_def last_time_def)

text \<open>
  An open breaker skips exactly until its cooldown has elapsed, and no other state ever
  skips: with a recorded opening time the attempt is skipped if and only if the breaker is open
  and the current time is before the end of the cooldown, so from that instant on every attempt
  is let through.
\<close>

theorem breaker_skips_exactly_during_cooldown:
  "(should_skip_for_open_breaker state (Some t) now cooldown \<longleftrightarrow> state = OPEN \<and> now < t + cooldown) \<and>
   \<not> should_skip_for_open_breaker state None now cooldown"
  by (simp_all add: should_skip_iff)

end
