(* ===== verification/Backoff.thy ===== *)
theory Backoff
  imports Domain
begin

section \<open>Retry backoff\<close>

text \<open>
  \<open>relay/domain/deliveries/backoff.py\<close>. \<open>random.uniform(0, bound)\<close> is
  \<open>0 + (bound - 0) * draw\<close> for the generator's next draw in \<open>[0, 1)\<close>, which is an argument.
\<close>

definition DEFAULT_BASE_SECONDS :: rat where "DEFAULT_BASE_SECONDS = 1"
definition DEFAULT_CAP_SECONDS :: rat where "DEFAULT_CAP_SECONDS = 60"

definition uniform :: "rat \<Rightarrow> rat \<Rightarrow> rat \<Rightarrow> rat" where
  "uniform a b draw = a + (b - a) * draw"

definition backoff_bound :: "nat \<Rightarrow> rat \<Rightarrow> rat \<Rightarrow> rat" where
  "backoff_bound attempt base_seconds cap_seconds = min cap_seconds (base_seconds * 2 ^ attempt)"

definition compute_backoff_seconds :: "int \<Rightarrow> rat \<Rightarrow> rat \<Rightarrow> rat \<Rightarrow> error + rat" where
  "compute_backoff_seconds attempt base_seconds cap_seconds draw =
     (if attempt < 0 then Inl (ValueError ''attempt must be >= 0'')
      else Inr (uniform 0 (backoff_bound (nat attempt) base_seconds cap_seconds) draw))"

lemma uniform_bounds:
  assumes "0 \<le> b" "0 \<le> draw" "draw \<le> 1"
  shows "0 \<le> uniform 0 b draw" "uniform 0 b draw \<le> b"
  using assms by (simp_all add: uniform_def mult_left_le)

lemma uniform_less: "0 < b \<Longrightarrow> draw < 1 \<Longrightarrow> uniform 0 b draw < b"
  using mult_strict_left_mono [of draw 1 b] by (simp add: uniform_def)

lemma backoff_bound_pos: "0 < base \<Longrightarrow> 0 < cap \<Longrightarrow> 0 < backoff_bound n base cap"
  by (simp add: backoff_bound_def)

lemma backoff_bound_le_cap: "backoff_bound n base cap \<le> cap"
  by (simp add: backoff_bound_def)

lemma backoff_bound_mono: "0 \<le> base \<Longrightarrow> m \<le> n \<Longrightarrow> backoff_bound m base cap \<le> backoff_bound n base cap"
  by (auto simp: backoff_bound_def min_le_iff_disj intro!: mult_left_mono power_increasing)

lemma compute_backoff_cases:
  "0 \<le> attempt \<Longrightarrow> compute_backoff_seconds attempt base cap draw =
     Inr (uniform 0 (backoff_bound (nat attempt) base cap) draw)"
  by (simp add: compute_backoff_seconds_def)

text \<open>The delay the delivery service adds to the clock, in microseconds.\<close>

definition backoff_delay :: "nat \<Rightarrow> rat \<Rightarrow> duration" where
  "backoff_delay retries draw =
     (case compute_backoff_seconds (int retries) DEFAULT_BASE_SECONDS DEFAULT_CAP_SECONDS draw of
        Inl e \<Rightarrow> 0
      | Inr s \<Rightarrow> timedelta_seconds s)"

lemma backoff_delay_bounds:
  assumes "0 \<le> draw" "draw \<le> 1"
  shows "0 \<le> backoff_delay n draw" "backoff_delay n draw \<le> 60000000"
proof -
  let ?b = "backoff_bound n 1 60"
  have b: "0 \<le> ?b" "?b \<le> of_int 60" by (simp_all add: backoff_bound_def)
  have u: "0 \<le> uniform 0 ?b draw" "uniform 0 ?b draw \<le> of_int 60"
    using uniform_bounds [OF b(1) assms] b(2) by auto
  have eq: "backoff_delay n draw = timedelta_seconds (uniform 0 ?b draw)"
    by (simp add: backoff_delay_def compute_backoff_cases DEFAULT_BASE_SECONDS_def DEFAULT_CAP_SECONDS_def)
  show "0 \<le> backoff_delay n draw" by (simp add: eq timedelta_seconds_nonneg u)
  show "backoff_delay n draw \<le> 60000000"
    using timedelta_seconds_le [OF u(2)] by (simp add: eq)
qed

subsection \<open>Properties\<close>

text \<open>
  The backoff is full jitter under a capped exponential: a negative attempt raises, and
  otherwise the delay is at least zero, below \<open>min (cap, base * 2 ^ attempt)\<close>, and every delay
  in that range is reached by some draw, so the jitter is full.
\<close>

theorem backoff_is_full_jitter:
  assumes "0 < base" and "0 < cap"
  shows "(\<exists>draw. 0 \<le> draw \<and> draw < 1 \<and> compute_backoff_seconds attempt base cap draw = Inr s) \<longleftrightarrow>
         0 \<le> attempt \<and> 0 \<le> s \<and> s < min cap (base * 2 ^ nat attempt)"
proof (cases "attempt < 0")
  case True
  then show ?thesis by (simp add: compute_backoff_seconds_def)
next
  case False
  define b where "b = min cap (base * 2 ^ nat attempt)"
  have b: "0 < b" using assms by (simp add: b_def)
  have eq: "compute_backoff_seconds attempt base cap draw = Inr s \<longleftrightarrow> b * draw = s" for draw
    using False by (simp add: compute_backoff_seconds_def uniform_def backoff_bound_def b_def)
  have "(\<exists>draw. 0 \<le> draw \<and> draw < 1 \<and> b * draw = s) \<longleftrightarrow> 0 \<le> s \<and> s < b"
  proof
    assume "\<exists>draw. 0 \<le> draw \<and> draw < 1 \<and> b * draw = s"
    then show "0 \<le> s \<and> s < b" using b by (auto simp: mult_less_cancel_left1)
  next
    assume "0 \<le> s \<and> s < b"
    then show "\<exists>draw. 0 \<le> draw \<and> draw < 1 \<and> b * draw = s"
      using b by (intro exI [of _ "s / b"]) auto
  qed
  with False show ?thesis by (simp add: eq b_def [symmetric])
qed

theorem backoff_is_full_jitter_witness:
  "(\<exists>draw. 0 \<le> draw \<and> draw < 1 \<and> compute_backoff_seconds 3 1 60 draw = Inr (15 / 2)) \<and>
   \<not> (\<exists>draw. 0 \<le> draw \<and> draw < 1 \<and> compute_backoff_seconds 3 1 60 draw = Inr 8)"
  using backoff_is_full_jitter [of 1 60 3 "15 / 2"] backoff_is_full_jitter [of 1 60 3 8] by simp

end
