(* ===== verification/RateLimit.thy ===== *)
theory RateLimit
  imports Domain
begin

section \<open>The token-bucket rate limiter\<close>

text \<open>
  \<open>relay/infra/rate_limit.py\<close>: the Lua script \<open>_TOKEN_BUCKET_SCRIPT\<close>, which Redis runs as
  one atomic step, and \<open>allow\<close>, which calls it. A bucket is the hash at one key with the time
  its \<open>EXPIRE\<close> runs out on the Redis server's clock (\<open>server_now\<close>); \<open>now\<close> is the caller's
  clock, which the script is given. Times are seconds as rationals. \<open>bucket_read\<close> is
  \<open>HMGET\<close> on a key that may have expired.
\<close>

record bucket =
  tokens :: rat
  updated_at :: rat
  expires :: rat

record rate_limit_decision =
  rl_allowed :: bool
  rl_retry_after_seconds :: rat
  rl_remaining_tokens :: rat

definition bucket_read :: "bucket option \<Rightarrow> rat \<Rightarrow> bucket option" where
  "bucket_read b server_now =
     (case b of None \<Rightarrow> None | Some k \<Rightarrow> if expires k \<le> server_now then None else Some k)"

definition script_ttl :: "rat \<Rightarrow> rat \<Rightarrow> rat" where
  "script_ttl rate burst = of_int \<lceil>burst / rate\<rceil> + 1"

definition refill :: "rat \<Rightarrow> rat \<Rightarrow> rat \<Rightarrow> (rat \<times> rat) option \<Rightarrow> rat" where
  "refill rate burst now stored =
     (let (t, u) = (case stored of None \<Rightarrow> (burst, now) | Some s \<Rightarrow> s);
          elapsed = (if now - u < 0 then 0 else now - u)
      in min burst (t + elapsed * rate))"

definition token_bucket_script ::
  "bucket option \<Rightarrow> rat \<Rightarrow> rat \<Rightarrow> rat \<Rightarrow> rat \<Rightarrow> rat \<Rightarrow> (bool \<times> rat \<times> rat) \<times> bucket" where
  "token_bucket_script b rate burst now cost server_now =
     (let t = refill rate burst now
                (map_option (\<lambda>k. (tokens k, updated_at k)) (bucket_read b server_now));
          allowed = (cost \<le> t);
          t' = (if allowed then t - cost else t);
          retry_after = (if allowed then 0 else (cost - t) / rate)
      in ((allowed, retry_after, t'),
          \<lparr>tokens = t', updated_at = now, expires = server_now + script_ttl rate burst\<rparr>))"

definition allow ::
  "bucket option \<Rightarrow> rat \<Rightarrow> nat \<Rightarrow> rat \<Rightarrow> rat \<Rightarrow> rat \<Rightarrow> rate_limit_decision \<times> bucket" where
  "allow b rate_per_second burst cost now server_now =
     (case token_bucket_script b rate_per_second (of_nat burst) now cost server_now of
        ((allowed, retry_after, remaining), b') \<Rightarrow>
          (\<lparr>rl_allowed = allowed, rl_retry_after_seconds = max 0 retry_after,
            rl_remaining_tokens = remaining\<rparr>, b'))"

text \<open>
  A tenant's requests in the order Redis runs them, each with the caller's and the server's
  clock and one token: the answers and the bucket they leave.
\<close>

fun allow_run :: "rat \<Rightarrow> nat \<Rightarrow> bucket option \<Rightarrow> (rat \<times> rat) list \<Rightarrow> bool list \<times> bucket option" where
  "allow_run rate burst b [] = ([], b)"
| "allow_run rate burst b ((now, server_now) # ts) =
     (let (d, b') = allow b rate burst 1 now server_now;
          (ds, b'') = allow_run rate burst (Some b') ts
      in (rl_allowed d # ds, b''))"

definition one_clock :: "rat \<Rightarrow> rat list \<Rightarrow> (rat \<times> rat) list" where
  "one_clock off ts = map (\<lambda>t. (t, t + off)) ts"

definition granted :: "bool list \<Rightarrow> nat" where
  "granted ds = length (filter id ds)"

lemmas rate_defs = allow_def token_bucket_script_def Let_def

subsection \<open>The bucket's level\<close>

text \<open>What the bucket holds at a time, an expired or absent one being full.\<close>

definition level :: "rat \<Rightarrow> nat \<Rightarrow> bucket option \<Rightarrow> rat \<Rightarrow> rat \<Rightarrow> rat" where
  "level rate burst b now server_now =
     refill rate (of_nat burst) now
       (map_option (\<lambda>k. (tokens k, updated_at k)) (bucket_read b server_now))"

text \<open>
  The invariant of a bucket whose callers' clocks agree and are \<open>off\<close> seconds behind the
  server's.
\<close>

definition bucket_ok :: "rat \<Rightarrow> nat \<Rightarrow> rat \<Rightarrow> bucket option \<Rightarrow> bool" where
  "bucket_ok rate burst off b \<longleftrightarrow>
     (case b of None \<Rightarrow> True
      | Some k \<Rightarrow> 0 \<le> tokens k \<and> tokens k \<le> of_nat burst \<and>
                 expires k = updated_at k + off + script_ttl rate (of_nat burst))"

definition seen_until :: "bucket option \<Rightarrow> rat \<Rightarrow> bool" where
  "seen_until b now \<longleftrightarrow> (case b of None \<Rightarrow> True | Some k \<Rightarrow> updated_at k \<le> now)"

lemma allow_level:
  "allow b rate burst cost now sn =
     (let t = level rate burst b now sn; ok = (cost \<le> t) in
      (\<lparr>rl_allowed = ok, rl_retry_after_seconds = max 0 (if ok then 0 else (cost - t) / rate),
        rl_remaining_tokens = (if ok then t - cost else t)\<rparr>,
       \<lparr>tokens = (if ok then t - cost else t), updated_at = now,
        expires = sn + script_ttl rate (of_nat burst)\<rparr>))"
  by (simp add: rate_defs level_def)

lemma ttl_refills:
  assumes "0 < rate" "script_ttl rate burst \<le> d" "0 \<le> t"
  shows "burst \<le> t + d * rate"
proof -
  have "burst / rate \<le> d"
    using le_of_int_ceiling [of "burst / rate"] assms(2) unfolding script_ttl_def by linarith
  then have "burst \<le> d * rate" using assms(1) by (simp add: pos_divide_le_eq)
  with assms(3) show ?thesis by simp
qed

lemma script_ttl_nonneg: "0 < rate \<Longrightarrow> 0 \<le> burst \<Longrightarrow> 0 \<le> script_ttl rate burst"
proof -
  assume "0 < rate" "0 \<le> burst"
  then have "0 \<le> burst / rate" by simp
  then have "0 \<le> \<lceil>burst / rate\<rceil>" by linarith
  then have "(0::rat) \<le> of_int \<lceil>burst / rate\<rceil>" by (simp only: of_int_0_le_iff)
  then show ?thesis by (simp add: script_ttl_def)
qed

text \<open>Expiry is invisible: by the time a key expires its bucket would be full again.\<close>

lemma level_ignores_expiry:
  assumes "0 < rate" "bucket_ok rate burst off (Some k)"
  shows "level rate burst (Some k) now (now + off) = refill rate (of_nat burst) now (Some (tokens k, updated_at k))"
proof (cases "expires k \<le> now + off")
  case True
  with assms have "script_ttl rate (of_nat burst) \<le> now - updated_at k"
    by (simp add: bucket_ok_def)
  then have full: "of_nat burst \<le> tokens k + (now - updated_at k) * rate"
    using assms by (intro ttl_refills) (auto simp: bucket_ok_def)
  have "0 \<le> script_ttl rate (of_nat burst)"
    using assms(1) by (simp add: script_ttl_nonneg)
  with True assms have "0 \<le> now - updated_at k" by (simp add: bucket_ok_def)
  with True full show ?thesis by (simp add: level_def bucket_read_def refill_def)
next
  case False
  then show ?thesis by (simp add: level_def bucket_read_def)
qed

lemma level_bounds:
  assumes "0 < rate" "bucket_ok rate burst off b"
  shows "0 \<le> level rate burst b now (now + off)" "level rate burst b now (now + off) \<le> of_nat burst"
  using assms by (auto simp: level_def bucket_read_def bucket_ok_def refill_def Let_def
      split: option.splits)

lemma level_grows:
  assumes "0 < rate" "bucket_ok rate burst off b" "seen_until b s" "s \<le> now"
  shows "level rate burst b now (now + off) = min (of_nat burst) (level rate burst b s (s + off) + (now - s) * rate)"
proof (cases b)
  case None
  have "0 \<le> (now - s) * rate" using assms by simp
  with None show ?thesis by (simp add: level_def bucket_read_def refill_def)
next
  case (Some k)
  have lv: "level rate burst b x (x + off) = min (of_nat burst) (tokens k + (x - updated_at k) * rate)"
    if "updated_at k \<le> x" for x
    using level_ignores_expiry [of rate burst off k x] assms(1,2) that by (simp add: Some refill_def)
  have "updated_at k \<le> s" using assms(3) by (simp add: Some seen_until_def)
  moreover have "tokens k + (now - updated_at k) * rate =
      tokens k + (s - updated_at k) * rate + (now - s) * rate" by (simp add: algebra_simps)
  moreover have "0 \<le> (now - s) * rate" using assms by simp
  ultimately show ?thesis using assms(4) by (simp add: lv)
qed

lemma allow_bucket_ok:
  assumes "0 < rate" "bucket_ok rate burst off b" "0 \<le> cost"
  shows "bucket_ok rate burst off (Some (snd (allow b rate burst cost now (now + off))))"
    and "seen_until (Some (snd (allow b rate burst cost now (now + off)))) now"
  using level_bounds [OF assms(1,2), of now] assms(3)
  by (auto simp: allow_level Let_def bucket_ok_def seen_until_def)

lemma level_after_allow:
  assumes "0 < rate" "bucket_ok rate burst off b" "0 \<le> cost"
  shows "level rate burst (Some (snd (allow b rate burst cost now (now + off)))) now (now + off) =
     (if cost \<le> level rate burst b now (now + off) then level rate burst b now (now + off) - cost else level rate burst b now (now + off))"
proof -
  note ok = allow_bucket_ok(1) [OF assms, of now]
  show ?thesis
    unfolding level_ignores_expiry [OF assms(1) ok]
    using level_bounds [OF assms(1,2), of now] assms(3)
    by (auto simp: allow_level Let_def refill_def)
qed


subsection \<open>Runs of requests\<close>

lemma allow_run_budget:
  assumes "0 < rate" "bucket_ok rate burst off b" "seen_until b s" "sorted (s # ts)"
  shows "of_nat (granted (fst (allow_run rate burst b (one_clock off ts))))
           \<le> level rate burst b s (s + off) + (last (s # ts) - s) * rate"
  using assms(2-)
proof (induction ts arbitrary: b s)
  case Nil
  then show ?case using level_bounds [OF assms(1)] by (simp add: granted_def one_clock_def)
next
  case (Cons now ts)
  let ?b' = "Some (snd (allow b rate burst 1 now (now + off)))"
  let ?ds = "fst (allow_run rate burst ?b' (one_clock off ts))"
  let ?hit = "1 \<le> level rate burst b now (now + off)"
  have IH: "of_nat (granted ?ds) \<le> level rate burst ?b' now (now + off) + (last (now # ts) - now) * rate"
    using Cons.prems allow_bucket_ok [OF assms(1) Cons.prems(1), of 1 now]
    by (intro Cons.IH) auto
  have lv: "level rate burst ?b' now (now + off) = level rate burst b now (now + off) - (if ?hit then 1 else 0)"
    by (simp add: level_after_allow [OF assms(1) Cons.prems(1)])
  have up: "level rate burst b now (now + off) \<le> level rate burst b s (s + off) + (now - s) * rate"
    using level_grows [OF assms(1) Cons.prems(1,2), of now] Cons.prems(3) by simp
  have run: "granted (fst (allow_run rate burst b (one_clock off (now # ts)))) = (if ?hit then 1 else 0) + granted ?ds"
    by (simp add: allow_level Let_def granted_def one_clock_def split: prod.splits)
  define m where "m = (last (now # ts) - now) * rate"
  define w where "w = (now - s) * rate"
  have total: "(last (s # now # ts) - s) * rate = m + w"
    by (simp add: m_def w_def algebra_simps)
  have "of_nat (granted (fst (allow_run rate burst b (one_clock off (now # ts))))) =
      (if ?hit then 1 else 0) + (of_nat (granted ?ds) :: rat)"
    unfolding run by simp
  also have "\<dots> \<le> level rate burst b now (now + off) + m"
    using IH unfolding lv m_def [symmetric] by simp
  also have "\<dots> \<le> level rate burst b s (s + off) + (m + w)"
    using up unfolding w_def by simp
  finally show ?case unfolding total .
qed

text \<open>After a rejection the level reaches the cost once the advertised wait is over.\<close>

lemma level_after_wait:
  assumes "0 < rate" and "bucket_ok rate burst off b" and "0 \<le> cost" and "cost \<le> of_nat burst"
    and "allow b rate burst cost now (now + off) = (d, b')" and "\<not> rl_allowed d"
    and "now + rl_retry_after_seconds d \<le> later"
  shows "cost \<le> level rate burst (Some b') later (later + off)"
    and "rl_retry_after_seconds d = (cost - level rate burst b now (now + off)) / rate"
    and "0 \<le> level rate burst b now (now + off)" and "level rate burst b now (now + off) < cost"
proof -
  let ?t = "level rate burst b now (now + off)"
  show t: "0 \<le> ?t" "?t < cost" and d: "rl_retry_after_seconds d = (cost - ?t) / rate"
    using level_bounds [OF assms(1,2)] assms(1,5,6) by (auto simp: allow_level Let_def)
  have b': "b' = snd (allow b rate burst cost now (now + off))" using assms(5) by simp
  note ok = allow_bucket_ok [OF assms(1-3), of now, folded b']
  have here: "level rate burst (Some b') now (now + off) = ?t"
    using t by (simp add: b' level_after_allow [OF assms(1-3)])
  have pos: "0 \<le> (cost - ?t) / rate" using t assms(1) by simp
  then have le: "now \<le> later" using assms(7) d by simp
  have "cost - ?t \<le> (later - now) * rate"
    using assms(1,7) d by (simp add: pos_divide_le_eq [symmetric])
  then show "cost \<le> level rate burst (Some b') later (later + off)"
    using level_grows [OF assms(1) ok le] here assms(4) by simp
qed

subsection \<open>Properties\<close>

text \<open>
  C18. The limiter enforces its budget: over any sequence of requests at non-decreasing times of
  callers whose clocks agree (at any fixed offset from the server's), whatever bucket the tenant
  had before, at most \<open>burst + rate * (elapsed time)\<close> of them are allowed. The statement
  includes the expiry of the Redis key, which never gives a token back.
\<close>

theorem rate_limit_budget:
  assumes "0 < rate" and "bucket_ok rate burst off b" and "seen_until b t0" and "sorted (t0 # ts)"
  shows "of_nat (granted (fst (allow_run rate burst b (one_clock off ts)))) \<le> of_nat burst + (last (t0 # ts) - t0) * rate"
  using allow_run_budget [OF assms] level_bounds(2) [OF assms(1,2), of t0] by linarith

theorem rate_limit_budget_witness:
  "of_nat (granted (fst (allow_run 1 3 None (one_clock 2 [0, 0, 0, 0, 1, 1])))) \<le> (4::rat) \<and>
   granted (fst (allow_run 1 3 None (one_clock 2 [0, 0, 0, 0, 1, 1]))) = 4"
proof -
  have "of_nat (granted (fst (allow_run 1 3 None (one_clock 2 [0, 0, 0, 0, 1, 1])))) \<le> (4::rat)"
    using rate_limit_budget [of 1 3 2 None 0 "[0, 0, 0, 0, 1, 1]"]
    by (simp add: bucket_ok_def seen_until_def)
  moreover have "granted (fst (allow_run 1 3 None (one_clock 2 [0, 0, 0, 0, 1, 1]))) = 4"
    by (simp add: one_clock_def allow_level Let_def level_def refill_def bucket_read_def granted_def
        script_ttl_def)
  ultimately show ?thesis by simp
qed

text \<open>
  A rejected caller is told the truth: after a rejection at \<open>now\<close>, the same request at any
  time from \<open>now + retry_after_seconds\<close> on is allowed if nobody else spent a token meanwhile,
  and the rejected request itself spent nothing. The wait is never longer than
  \<open>cost / rate\<close>.
\<close>

theorem retry_after_is_enough:
  assumes "0 < rate" and "bucket_ok rate burst off b" and "0 \<le> cost" and "cost \<le> of_nat burst"
    and "allow b rate burst cost now (now + off) = (d, b')" and "\<not> rl_allowed d"
    and "now + rl_retry_after_seconds d \<le> later"
  shows "rl_allowed (fst (allow (Some b') rate burst cost later (later + off))) \<and>
         rl_retry_after_seconds d \<le> cost / rate"
  using level_after_wait [OF assms] assms(1) by (simp add: allow_level Let_def divide_right_mono)

theorem retry_after_is_enough_witness:
  "rl_allowed (fst (allow (Some \<lparr>tokens = 1 / 2, updated_at = 10, expires = 14\<rparr>) 1 3 1 (21 / 2) (21 / 2)))"
proof -
  let ?d = "\<lparr>rl_allowed = False, rl_retry_after_seconds = 1 / 2, rl_remaining_tokens = 1 / 2\<rparr>"
  have "allow (Some \<lparr>tokens = 1 / 2, updated_at = 10, expires = 14\<rparr>) 1 3 1 10 (10 + 0) =
     (?d, \<lparr>tokens = 1 / 2, updated_at = 10, expires = 14\<rparr>)"
    by (simp add: allow_level Let_def level_def refill_def bucket_read_def script_ttl_def)
  from retry_after_is_enough [OF _ _ _ _ this, of "21 / 2"] show ?thesis
    by (simp add: bucket_ok_def script_ttl_def)
qed

text \<open>
  Two callers whose clocks are 10 seconds apart take turns; the server's clock stands still.
\<close>

fun skewed_calls :: "nat \<Rightarrow> (rat \<times> rat) list" where
  "skewed_calls 0 = []"
| "skewed_calls (Suc n) = (10, 0) # (0, 0) # skewed_calls n"

lemma length_skewed_calls [simp]: "length (skewed_calls n) = 2 * n"
  by (induction n) auto

lemma length_allow_run: "length (fst (allow_run r u b ts)) = length ts"
  by (induction ts arbitrary: b) (auto simp: Let_def split_beta)

lemma skewed_calls_all_granted:
  assumes "1 \<le> tokens k" "tokens k \<le> 3" "updated_at k = 0" "0 < expires k"
  shows "\<forall>d \<in> set (fst (allow_run 1 3 (Some k) (skewed_calls n))). d"
  using assms
proof (induction n arbitrary: k)
  case 0
  then show ?case by simp
next
  case (Suc n)
  define k1 where "k1 = snd (allow (Some k) 1 3 1 10 0)"
  define k2 where "k2 = snd (allow (Some k1) 1 3 1 0 0)"
  note comp = allow_level Let_def level_def refill_def bucket_read_def script_ttl_def
  have k1: "k1 = \<lparr>tokens = 2, updated_at = 10, expires = 4\<rparr>" "rl_allowed (fst (allow (Some k) 1 3 1 10 0))"
    using Suc.prems by (simp_all add: k1_def comp)
  have k2: "k2 = \<lparr>tokens = 1, updated_at = 0, expires = 4\<rparr>" "rl_allowed (fst (allow (Some k1) 1 3 1 0 0))"
    by (simp_all add: k2_def k1(1) comp)
  have "\<forall>d \<in> set (fst (allow_run 1 3 (Some k2) (skewed_calls n))). d"
    by (rule Suc.IH) (simp_all add: k2)
  then show ?case
    using k1(2) k2(2) by (simp add: Let_def split_beta k1_def [symmetric] k2_def [symmetric])
qed

text \<open>
  The budget needs callers whose clocks agree. The script stores \<open>updated_at = now\<close> even when
  the caller's clock is behind the stored time, so when two replicas 10 seconds apart take turns
  the refill of the same 10 seconds is paid out again on every turn: at one request per second
  with a burst of 3, all of any number of requests made in one instant of the server's clock are
  allowed.
\<close>

theorem clock_skew_defeats_rate_limit:
  "snd ` set (skewed_calls n) \<subseteq> {0} \<and>
   fst (allow_run 1 3 None ((0, 0) # skewed_calls n)) = replicate (2 * n + 1) True"
proof -
  define k where "k = snd (allow None 1 3 1 0 0)"
  have k: "k = \<lparr>tokens = 2, updated_at = 0, expires = 4\<rparr>" "rl_allowed (fst (allow None 1 3 1 0 0))"
    by (simp_all add: k_def allow_level Let_def level_def refill_def bucket_read_def script_ttl_def)
  let ?ds = "fst (allow_run 1 3 (Some k) (skewed_calls n))"
  have "\<forall>d \<in> set ?ds. d" by (rule skewed_calls_all_granted) (simp_all add: k)
  then have "?ds = replicate (2 * n) True"
    by (intro replicate_eqI) (auto simp: length_allow_run)
  moreover have "snd ` set (skewed_calls n) \<subseteq> {0}" by (induction n) auto
  ultimately show ?thesis using k(2)
    by (simp add: Let_def split_beta k_def [symmetric])
qed

end
