(* ===== verification/Crypto.thy ===== *)
theory Crypto
  imports Prelude
begin

unbundle bit_operations_syntax

section \<open>The standard-library pieces behind signing and key hashing\<close>

text \<open>
  What \<open>relay/infra/signing.py\<close> and \<open>relay/domain/api_keys/hashing.py\<close> use of Python's
  standard library: \<open>str.encode()\<close> (UTF-8), \<open>bytes.hex()\<close> and \<open>bytes.fromhex\<close>, decimal
  rendering of an \<open>int\<close>, \<open>str.partition\<close>, \<open>hashlib.sha256\<close> (FIPS 180-4) and
  \<open>hmac.new(..., sha256)\<close> (RFC 2104). All of it is executable.
\<close>

subsection \<open>Text and bytes\<close>

definition encode_char :: "char \<Rightarrow> byte list" where
  "encode_char c =
     (let n = of_char c :: nat in
      if n < 128 then [of_nat n] else [of_nat (192 + n div 64), of_nat (128 + n mod 64)])"

definition encode :: "string \<Rightarrow> byte list" where
  "encode s = concat (map encode_char s)"

definition hex_digit :: "nat \<Rightarrow> char" where
  "hex_digit n = (if n < 10 then char_of (48 + n) else char_of (87 + n))"

definition byte_hex :: "byte \<Rightarrow> string" where
  "byte_hex b = [hex_digit (unat b div 16), hex_digit (unat b mod 16)]"

definition hex :: "byte list \<Rightarrow> string" where
  "hex bs = concat (map byte_hex bs)"

definition hex_value :: "char \<Rightarrow> nat option" where
  "hex_value c =
     (let n = of_char c :: nat in
      if 48 \<le> n \<and> n \<le> 57 then Some (n - 48)
      else if 97 \<le> n \<and> n \<le> 102 then Some (n - 87)
      else if 65 \<le> n \<and> n \<le> 70 then Some (n - 55)
      else None)"

definition is_ascii_space :: "char \<Rightarrow> bool" where
  "is_ascii_space c \<longleftrightarrow> (of_char c :: nat) \<in> {9, 10, 11, 12, 13, 32}"

text \<open>\<open>bytes.fromhex\<close> skips whitespace between bytes; \<open>None\<close> is its \<open>ValueError\<close>.\<close>

fun fromhex :: "string \<Rightarrow> byte list option" where
  "fromhex [] = Some []"
| "fromhex (c # cs) =
     (if is_ascii_space c then fromhex cs
      else case cs of
        [] \<Rightarrow> None
      | d # ds \<Rightarrow>
          (case (hex_value c, hex_value d) of
             (Some a, Some b) \<Rightarrow> map_option (\<lambda>bs. of_nat (16 * a + b) # bs) (fromhex ds)
           | _ \<Rightarrow> None))"

text \<open>\<open>s.partition(sep)\<close> for a one-character separator: \<open>None\<close> when it does not occur.\<close>

fun partition_at :: "char \<Rightarrow> string \<Rightarrow> (string \<times> string) option" where
  "partition_at sep [] = None"
| "partition_at sep (c # cs) =
     (if c = sep then Some ([], cs)
      else map_option (\<lambda>(a, b). (c # a, b)) (partition_at sep cs))"

fun decimal_nat :: "nat \<Rightarrow> string" where
  "decimal_nat n =
     (if n < 10 then [char_of (48 + n)] else decimal_nat (n div 10) @ [char_of (48 + n mod 10)])"

declare decimal_nat.simps [simp del]

definition decimal :: "int \<Rightarrow> string" where
  "decimal i = (if i < 0 then CHR ''-'' # decimal_nat (nat (- i)) else decimal_nat (nat i))"

subsection \<open>SHA-256\<close>

text \<open>
  The constants are the first 32 bits of the fractional parts of the cube roots (round constants)
  and square roots (initial state) of the first primes; \<open>root_below\<close> finds the integer part of a
  root bit by bit, and reducing to 32 bits drops the whole part.
\<close>

fun root_below :: "nat \<Rightarrow> nat \<Rightarrow> nat \<Rightarrow> nat \<Rightarrow> nat" where
  "root_below k n 0 r = r"
| "root_below k n (Suc b) r = root_below k n b (if (r + 2 ^ b) ^ k \<le> n then r + 2 ^ b else r)"

definition first_primes :: "nat list" where
  "first_primes = filter (\<lambda>n. list_all (\<lambda>d. n mod d \<noteq> 0) [2..<n]) [2..<312]"

definition sha_k :: "32 word list" where
  "sha_k = map (\<lambda>p. of_nat (root_below 3 (p * 2 ^ 96) 36 0)) first_primes"

definition sha_init :: "32 word list" where
  "sha_init = map (\<lambda>p. of_nat (root_below 2 (p * 2 ^ 64) 36 0)) (take 8 first_primes)"

definition big_sigma0 :: "32 word \<Rightarrow> 32 word" where
  "big_sigma0 x = word_rotr 2 x XOR word_rotr 13 x XOR word_rotr 22 x"
definition big_sigma1 :: "32 word \<Rightarrow> 32 word" where
  "big_sigma1 x = word_rotr 6 x XOR word_rotr 11 x XOR word_rotr 25 x"
definition small_sigma0 :: "32 word \<Rightarrow> 32 word" where
  "small_sigma0 x = word_rotr 7 x XOR word_rotr 18 x XOR drop_bit 3 x"
definition small_sigma1 :: "32 word \<Rightarrow> 32 word" where
  "small_sigma1 x = word_rotr 17 x XOR word_rotr 19 x XOR drop_bit 10 x"
definition sha_ch :: "32 word \<Rightarrow> 32 word \<Rightarrow> 32 word \<Rightarrow> 32 word" where
  "sha_ch x y z = (x AND y) XOR (NOT x AND z)"
definition sha_maj :: "32 word \<Rightarrow> 32 word \<Rightarrow> 32 word \<Rightarrow> 32 word" where
  "sha_maj x y z = (x AND y) XOR (x AND z) XOR (y AND z)"

definition be_bytes :: "nat \<Rightarrow> nat \<Rightarrow> byte list" where
  "be_bytes k n = map (\<lambda>i. of_nat (n div 256 ^ i)) (rev [0..<k])"

definition be_word :: "byte list \<Rightarrow> 32 word" where
  "be_word bs = foldl (\<lambda>acc b. 256 * acc + ucast b) 0 bs"

definition sha_pad :: "byte list \<Rightarrow> byte list" where
  "sha_pad m = m @ [0x80] @ replicate ((119 - length m mod 64) mod 64) 0 @ be_bytes 8 (8 * length m)"

fun sha_words :: "nat \<Rightarrow> byte list \<Rightarrow> 32 word list" where
  "sha_words 0 bs = []"
| "sha_words (Suc n) bs = be_word (take 4 bs) # sha_words n (drop 4 bs)"

text \<open>The message schedule, newest word first, so that \<open>W (t - 16)\<close> is the sixteenth entry.\<close>

fun sha_schedule :: "nat \<Rightarrow> 32 word list \<Rightarrow> 32 word list" where
  "sha_schedule 0 ws = ws"
| "sha_schedule (Suc n) ws =
     sha_schedule n ((small_sigma1 (ws ! 1) + ws ! 6 + small_sigma0 (ws ! 14) + ws ! 15) # ws)"

fun sha_round :: "32 word list \<Rightarrow> 32 word \<times> 32 word \<Rightarrow> 32 word list" where
  "sha_round [a, b, c, d, e, f, g, h] (k, w) =
     (let t1 = h + big_sigma1 e + sha_ch e f g + k + w; t2 = big_sigma0 a + sha_maj a b c
      in [t1 + t2, a, b, c, d + t1, e, f, g])"
| "sha_round st kw = st"

definition sha_block :: "32 word list \<Rightarrow> byte list \<Rightarrow> 32 word list" where
  "sha_block st blk =
     map2 (+) st (foldl sha_round st (zip sha_k (rev (sha_schedule 48 (rev (sha_words 16 blk))))))"

fun sha_blocks :: "nat \<Rightarrow> 32 word list \<Rightarrow> byte list \<Rightarrow> 32 word list" where
  "sha_blocks 0 st bs = st"
| "sha_blocks (Suc n) st bs = sha_blocks n (sha_block st (take 64 bs)) (drop 64 bs)"

definition sha256 :: "byte list \<Rightarrow> byte list" where
  "sha256 m =
     (let p = sha_pad m in
      concat (map (\<lambda>w. be_bytes 4 (unat w)) (sha_blocks (length p div 64) sha_init p)))"

definition hmac_sha256 :: "byte list \<Rightarrow> byte list \<Rightarrow> byte list" where
  "hmac_sha256 key msg =
     (let k0 = (if 64 < length key then sha256 key else key);
          k = k0 @ replicate (64 - length k0) 0
      in sha256 (map (\<lambda>b. b XOR 0x5c) k @ sha256 (map (\<lambda>b. b XOR 0x36) k @ msg)))"

subsection \<open>Facts\<close>

lemma partition_at_None_iff: "partition_at sep s = None \<longleftrightarrow> sep \<notin> set s"
  by (induction s) auto

lemma partition_at_Some_iff:
  "partition_at sep s = Some (a, b) \<longleftrightarrow> s = a @ sep # b \<and> sep \<notin> set a"
proof (induction s arbitrary: a)
  case (Cons c s)
  then show ?case by (cases a) auto
qed simp

lemma partition_at_append: "sep \<notin> set a \<Longrightarrow> partition_at sep (a @ sep # b) = Some (a, b)"
  by (simp add: partition_at_Some_iff)

lemma of_char_small [simp]: "n < 256 \<Longrightarrow> of_char (char_of n) = (n :: nat)"
  by (simp add: of_char_of)

lemma of_char_hex_digit:
  "n < 10 \<Longrightarrow> of_char (hex_digit n) = 48 + n"
  "\<not> n < 10 \<Longrightarrow> n < 16 \<Longrightarrow> of_char (hex_digit n) = 87 + n"
  unfolding hex_digit_def by (simp_all del: of_char_of add: of_char_small)

lemma hex_value_digit: "n < 16 \<Longrightarrow> hex_value (hex_digit n) = Some n"
  by (cases "n < 10") (simp_all add: hex_value_def of_char_hex_digit)

lemma hex_digit_code: "n < 16 \<Longrightarrow> of_char (hex_digit n) \<in> {48..57} \<union> {97..102 :: nat}"
  by (cases "n < 10") (simp_all add: of_char_hex_digit)

lemma hex_digit_not_space: "n < 16 \<Longrightarrow> \<not> is_ascii_space (hex_digit n)"
  using hex_digit_code [of n] by (auto simp: is_ascii_space_def)

lemma unat_byte_less: "unat (b :: byte) < 256"
  using unsigned_less [of b, where ?'a = nat] by simp

lemma fromhex_byte_hex: "fromhex (byte_hex b @ cs) = map_option (\<lambda>bs. b # bs) (fromhex cs)"
proof -
  have b: "unat b div 16 < 16" "unat b mod 16 < 16" using unat_byte_less [of b] by auto
  have "16 * (unat b div 16) + unat b mod 16 = unat b" by simp
  then have "of_nat (16 * (unat b div 16) + unat b mod 16) = b"
    by (simp only: of_nat_unat ucast_id)
  then show ?thesis
    using b by (simp add: byte_hex_def hex_value_digit hex_digit_not_space del: of_nat_add of_nat_mult)
qed

lemma fromhex_hex: "fromhex (hex bs) = Some bs"
proof (induction bs)
  case (Cons b bs)
  then show ?case using fromhex_byte_hex [of b "hex bs"] by (simp add: hex_def)
qed (simp add: hex_def)

lemma hex_codes: "c \<in> set (hex bs) \<Longrightarrow> of_char c \<in> {48..57} \<union> {97..102 :: nat}"
proof (induction bs)
  case (Cons b bs)
  have "unat b div 16 < 16" "unat b mod 16 < 16" using unat_byte_less [of b] by auto
  note h = this [THEN hex_digit_code]
  from Cons.prems consider "c = hex_digit (unat b div 16)" | "c = hex_digit (unat b mod 16)" | "c \<in> set (hex bs)"
    by (auto simp: hex_def byte_hex_def)
  then show ?case using h Cons.IH by cases blast+
qed (simp add: hex_def)

lemma hex_inject: "hex a = hex b \<Longrightarrow> a = b"
  by (drule arg_cong [of _ _ fromhex]) (simp add: fromhex_hex)

text \<open>The value of a string of decimal digits, as \<open>int(s)\<close> reads it.\<close>

definition decimal_value :: "string \<Rightarrow> nat" where
  "decimal_value s = foldl (\<lambda>n c. 10 * n + (of_char c - 48)) 0 s"

definition is_digit :: "char \<Rightarrow> bool" where
  "is_digit c \<longleftrightarrow> 48 \<le> (of_char c :: nat) \<and> (of_char c :: nat) \<le> 57"

lemma is_digit_char_of: "d < 10 \<Longrightarrow> is_digit (char_of (48 + d :: nat))"
  by (simp add: is_digit_def)

lemma decimal_value_snoc: "decimal_value (s @ [c]) = 10 * decimal_value s + (of_char c - 48)"
  by (simp add: decimal_value_def)

lemma decimal_value_decimal_nat [simp]: "decimal_value (decimal_nat n) = n"
proof (induction n rule: decimal_nat.induct)
  case (1 n)
  show ?case
  proof (cases "n < 10")
    case True
    then show ?thesis by (simp add: decimal_nat.simps [of n] decimal_value_def)
  next
    case False
    with "1" show ?thesis by (simp add: decimal_nat.simps [of n] decimal_value_snoc)
  qed
qed

lemma decimal_nat_digits: "c \<in> set (decimal_nat n) \<Longrightarrow> is_digit c"
proof (induction n rule: decimal_nat.induct)
  case (1 n)
  show ?case
  proof (cases "n < 10")
    case True
    with "1.prems" show ?thesis by (simp add: decimal_nat.simps [of n] is_digit_char_of)
  next
    case False
    with "1.prems" have "c \<in> set (decimal_nat (n div 10)) \<or> c = char_of (48 + n mod 10)"
      by (auto simp: decimal_nat.simps [of n])
    with False "1.IH" show ?thesis using is_digit_char_of [of "n mod 10"] by auto
  qed
qed

lemma decimal_chars: "c \<in> set (decimal i) \<Longrightarrow> is_digit c \<or> c = CHR ''-''"
  by (auto simp: decimal_def dest: decimal_nat_digits split: if_splits)

lemma decimal_inject: "decimal i = decimal j \<Longrightarrow> i = j"
proof -
  assume eq: "decimal i = decimal j"
  have minus: "hd (decimal_nat n) \<noteq> CHR ''-''" and ne: "decimal_nat n \<noteq> []" for n
  proof -
    show ne: "decimal_nat n \<noteq> []" by (subst decimal_nat.simps) simp
    then have "is_digit (hd (decimal_nat n))" by (auto intro: decimal_nat_digits [of _ n])
    then show "hd (decimal_nat n) \<noteq> CHR ''-''" by (auto simp: is_digit_def)
  qed
  have "i < 0 \<longleftrightarrow> j < 0"
    using eq minus by (auto simp: decimal_def split: if_splits) (metis list.sel(1))+
  moreover have "m = n" if "decimal_nat m = decimal_nat n" for m n
    using arg_cong [OF that, of decimal_value] by simp
  ultimately show ?thesis
    using eq by (cases "i < 0") (fastforce simp: decimal_def)+
qed

end
