(* ===== verification/Signing.thy ===== *)
theory Signing
  imports Domain Crypto
begin

section \<open>Request signing\<close>

text \<open>
  \<open>relay/infra/signing.py\<close>: the signed message, \<open>sign\<close> and \<open>verify\<close>. \<open>compare_digest\<close> is
  \<open>hmac.compare_digest\<close> on two \<open>str\<close>: it raises \<open>TypeError\<close> unless both are ASCII.
\<close>

definition signed_message :: "int \<Rightarrow> byte list \<Rightarrow> byte list" where
  "signed_message timestamp body = encode (decimal timestamp @ ''.'') @ body"

definition sign :: "string \<Rightarrow> int \<Rightarrow> byte list \<Rightarrow> string" where
  "sign secret timestamp body = hex (hmac_sha256 (encode secret) (signed_message timestamp body))"

definition is_ascii :: "string \<Rightarrow> bool" where
  "is_ascii s \<longleftrightarrow> list_all (\<lambda>c. (of_char c :: nat) < 128) s"

definition compare_digest :: "string \<Rightarrow> string \<Rightarrow> error + bool" where
  "compare_digest a b =
     (if is_ascii a \<and> is_ascii b then Inr (a = b)
      else Inl (TypeError ''comparing strings with non-ASCII characters is not supported''))"

definition verify ::
  "string \<Rightarrow> int \<Rightarrow> byte list \<Rightarrow> string \<Rightarrow> int \<Rightarrow> int \<Rightarrow> error + bool" where
  "verify secret timestamp body signature tolerance_seconds now =
     (if tolerance_seconds < \<bar>now - timestamp\<bar> then Inr False
      else compare_digest (sign secret timestamp body) signature)"

lemma encode_Nil [simp]: "encode [] = []"
  by (simp add: encode_def)

lemma encode_append: "encode (a @ b) = encode a @ encode b"
  by (simp add: encode_def)

lemma encode_ascii: "is_ascii s \<Longrightarrow> encode s = map (\<lambda>c. of_nat (of_char c)) s"
  by (induction s) (auto simp: encode_def encode_char_def is_ascii_def Let_def)

lemma of_char_byte_inject: "(of_nat (of_char c) :: byte) = of_nat (of_char d) \<longleftrightarrow> c = d"
proof
  assume "(of_nat (of_char c) :: byte) = of_nat (of_char d)"
  then have "(of_char c :: nat) mod 256 = of_char d mod 256"
    by (simp add: word_of_nat_eq_iff take_bit_eq_mod)
  moreover have "(of_char c :: nat) < 256" "(of_char d :: nat) < 256"
    by (metis char_of_char mod_less_divisor of_char_of zero_less_numeral)+
  ultimately show "c = d" by simp
qed simp

lemma encode_ascii_inject: "is_ascii a \<Longrightarrow> is_ascii b \<Longrightarrow> encode a = encode b \<Longrightarrow> a = b"
proof -
  assume "is_ascii a" "is_ascii b" "encode a = encode b"
  then have "map (\<lambda>c. of_nat (of_char c) :: byte) a = map (\<lambda>c. of_nat (of_char c)) b"
    by (simp add: encode_ascii)
  moreover have "inj (\<lambda>c. of_nat (of_char c) :: byte)" by (rule injI) (simp add: of_char_byte_inject)
  ultimately show "a = b" by (rule map_injective)
qed

lemma decimal_ascii: "is_ascii (decimal t)"
proof -
  have "(of_char c :: nat) < 128" if "c \<in> set (decimal t)" for c
    using decimal_chars [OF that] by (auto simp: is_digit_def)
  then show ?thesis by (simp add: is_ascii_def list_all_iff)
qed

lemma decimal_no_dot: "CHR ''.'' \<notin> set (decimal t)"
  using decimal_chars [of "CHR ''.''" t] by (auto simp: is_digit_def)

lemma append_sep_inject:
  assumes "a @ x # b = c @ x # d" "x \<notin> set a" "x \<notin> set c"
  shows "a = c \<and> b = d"
  using assms by (induction a arbitrary: c) (case_tac c, auto)+

lemma signed_message_inject:
  "signed_message t body = signed_message t' body' \<longleftrightarrow> t = t' \<and> body = body'"
proof
  let ?f = "\<lambda>c. of_nat (of_char c) :: byte"
  assume eq: "signed_message t body = signed_message t' body'"
  have sm: "signed_message t body = map ?f (decimal t) @ ?f (CHR ''.'') # body" for t body
    by (simp add: signed_message_def encode_append encode_ascii [OF decimal_ascii])
       (simp add: encode_def encode_char_def)
  have no: "?f (CHR ''.'') \<notin> set (map ?f (decimal t))" for t
    using decimal_no_dot by (auto simp only: set_map image_iff of_char_byte_inject)
  have "map ?f (decimal t) = map ?f (decimal t') \<and> body = body'"
    using eq no unfolding sm by (intro append_sep_inject)
  then show "t = t' \<and> body = body'"
    using encode_ascii_inject [OF decimal_ascii decimal_ascii, of t t'] decimal_inject
    by (simp add: encode_ascii [OF decimal_ascii])
qed simp

lemma hex_ascii: "is_ascii (hex bs)"
proof -
  have "(of_char c :: nat) < 128" if "c \<in> set (hex bs)" for c
    using hex_codes [OF that] by auto
  then show ?thesis by (simp add: is_ascii_def list_all_iff)
qed

lemma sign_ascii: "is_ascii (sign secret t body)"
  by (simp add: sign_def hex_ascii)

subsection \<open>Properties\<close>

text \<open>
  C19. A signature verifies exactly for the timestamp and the bytes it was made for: presented
  with the signature of \<open>(t0, body0)\<close>, \<open>verify\<close> accepts \<open>(t, body)\<close> if and only if \<open>t\<close> is
  within the tolerance of the clock, on either side, and either the pair is the signed one or
  HMAC-SHA256 under this secret collides on the two signed messages, which are then different.
\<close>

theorem verify_accepts_only_what_was_signed:
  "verify secret t body (sign secret t0 body0) tolerance now = Inr True \<longleftrightarrow>
     \<bar>now - t\<bar> \<le> tolerance \<and>
     ((t, body) = (t0, body0) \<or>
      signed_message t body \<noteq> signed_message t0 body0 \<and>
      hmac_sha256 (encode secret) (signed_message t body) =
        hmac_sha256 (encode secret) (signed_message t0 body0))"
proof -
  have "sign secret t body = sign secret t0 body0 \<longleftrightarrow>
      hmac_sha256 (encode secret) (signed_message t body) =
        hmac_sha256 (encode secret) (signed_message t0 body0)"
    unfolding sign_def by (auto dest: hex_inject)
  then show ?thesis
    by (auto simp: verify_def compare_digest_def sign_ascii signed_message_inject not_less)
qed

text \<open>
  \<open>verify\<close> is not total: a signature with a character outside ASCII, presented inside the
  tolerance window, makes \<open>hmac.compare_digest\<close> raise, so the verification endpoint answers with
  an internal error where a wrong ASCII signature is answered \<open>False\<close>. Outside the window the
  same signature is rejected without being looked at.
\<close>

theorem verify_raises_on_non_ascii_signature:
  "(\<exists>e. verify secret t body signature tolerance now = Inl e) \<longleftrightarrow>
     \<bar>now - t\<bar> \<le> tolerance \<and> \<not> is_ascii signature"
  by (auto simp: verify_def compare_digest_def sign_ascii)

end
