(* ===== verification/Base64.thy ===== *)
theory Base64
  imports Crypto
begin

section \<open>URL-safe base64\<close>

text \<open>
  What \<open>secrets.token_urlsafe\<close> and the cursor codec use of the standard library:
  \<open>base64.urlsafe_b64encode\<close>, and \<open>base64.urlsafe_b64decode\<close> with the state machine of
  \<open>binascii.a2b_base64\<close> in its non-strict mode (characters outside the alphabet are skipped,
  a complete padding ends the input). \<open>None\<close> is \<open>binascii.Error\<close>, a \<open>ValueError\<close>.
\<close>

definition b64_digit :: "nat \<Rightarrow> char" where
  "b64_digit n =
     (if n < 26 then char_of (65 + n) else if n < 52 then char_of (71 + n)
      else if n < 62 then char_of (n - 4) else if n = 62 then CHR ''-'' else CHR ''_'')"

definition b64_value :: "char \<Rightarrow> nat option" where
  "b64_value c =
     (let n = of_char c :: nat in
      if 65 \<le> n \<and> n \<le> 90 then Some (n - 65)
      else if 97 \<le> n \<and> n \<le> 122 then Some (n - 71)
      else if 48 \<le> n \<and> n \<le> 57 then Some (n + 4)
      else if n = 45 \<or> n = 43 then Some 62
      else if n = 95 \<or> n = 47 then Some 63
      else None)"

fun b64_encode :: "nat list \<Rightarrow> string" where
  "b64_encode [] = []"
| "b64_encode [a] = [b64_digit (a div 4), b64_digit (a mod 4 * 16), CHR ''='', CHR ''='']"
| "b64_encode [a, b] =
     [b64_digit (a div 4), b64_digit (a mod 4 * 16 + b div 16), b64_digit (b mod 16 * 4), CHR ''='']"
| "b64_encode (a # b # c # rest) =
     b64_digit (a div 4) # b64_digit (a mod 4 * 16 + b div 16) # b64_digit (b mod 16 * 4 + c div 64)
       # b64_digit (c mod 64) # b64_encode rest"

definition urlsafe_b64encode :: "byte list \<Rightarrow> string" where
  "urlsafe_b64encode bs = b64_encode (map unat bs)"

text \<open>
  The decoder's state: the position in the quadruple, the bits left over from the last
  character, and the padding characters seen since it.
\<close>

fun a2b :: "nat \<Rightarrow> nat \<Rightarrow> nat \<Rightarrow> string \<Rightarrow> nat list option" where
  "a2b quad left pads [] = (if quad = 0 then Some [] else None)"
| "a2b quad left pads (c # cs) =
     (if c = CHR ''='' then
        (if 2 \<le> quad \<and> 4 \<le> quad + (pads + 1) then Some []
         else a2b quad left (if 2 \<le> quad then pads + 1 else pads) cs)
      else case b64_value c of
        None \<Rightarrow> a2b quad left pads cs
      | Some v \<Rightarrow>
          (if quad = 0 then a2b 1 v 0 cs
           else if quad = 1 then map_option (Cons (left * 4 + v div 16)) (a2b 2 (v mod 16) 0 cs)
           else if quad = 2 then map_option (Cons (left * 16 + v div 4)) (a2b 3 (v mod 4) 0 cs)
           else map_option (Cons (left * 64 + v)) (a2b 0 0 0 cs)))"

definition urlsafe_b64decode :: "string \<Rightarrow> byte list option" where
  "urlsafe_b64decode s = map_option (map of_nat) (a2b 0 0 0 s)"

text \<open>\<open>secrets.token_urlsafe(n)\<close>: the encoding of \<open>n\<close> random bytes without its padding.\<close>

definition token_urlsafe :: "byte list \<Rightarrow> string" where
  "token_urlsafe random_bytes = filter (\<lambda>c. c \<noteq> CHR ''='') (urlsafe_b64encode random_bytes)"

lemma of_char_b64_digit:
  "n < 26 \<Longrightarrow> of_char (b64_digit n) = 65 + n"
  "26 \<le> n \<Longrightarrow> n < 52 \<Longrightarrow> of_char (b64_digit n) = 71 + n"
  "52 \<le> n \<Longrightarrow> n < 62 \<Longrightarrow> of_char (b64_digit n) = n - 4"
  by (simp_all add: b64_digit_def del: of_char_of)

lemma b64_digit_cases:
  obtains "n < 26" | "26 \<le> n" "n < 52" | "52 \<le> n" "n < 62" | "n = 62" | "62 < (n::nat)"
  by linarith

lemma b64_value_digit: "n < 64 \<Longrightarrow> b64_value (b64_digit n) = Some n"
proof (cases n rule: b64_digit_cases)
  case 3
  then have "48 \<le> n - 4" "n - 4 \<le> 57" "n - 4 + 4 = n" by linarith+
  with 3 show ?thesis by (simp add: b64_value_def of_char_b64_digit)
next
  case 4
  then show ?thesis by (simp add: b64_value_def b64_digit_def)
next
  case 5
  moreover assume "n < 64"
  ultimately have "n = 63" by simp
  then show ?thesis by (simp add: b64_value_def b64_digit_def)
qed (simp_all add: b64_value_def of_char_b64_digit Let_def)

lemma b64_value_no_pad: "b64_value c = Some v \<Longrightarrow> c \<noteq> CHR ''='' \<and> c \<noteq> CHR ''.''"
  by (auto simp: b64_value_def)

lemma b64_digit_not_pad: "n < 64 \<Longrightarrow> b64_digit n \<noteq> CHR ''='' \<and> b64_digit n \<noteq> CHR ''.''"
  by (rule b64_value_no_pad [OF b64_value_digit])

lemmas b64_digit_facts [simp] = b64_value_digit b64_digit_not_pad [THEN conjunct1]

lemma a2b_encode: "\<forall>n \<in> set ns. n < 256 \<Longrightarrow> a2b 0 0 0 (b64_encode ns) = Some ns"
proof (induction ns rule: b64_encode.induct)
  case (2 a)
  have "a div 4 < 64" using 2 by simp
  then show ?case by simp
next
  case (3 a b)
  have "a div 4 < 64" "a mod 4 * 16 + b div 16 < 64" using 3 by auto
  moreover have "(a mod 4 * 16 + b div 16) div 16 = a mod 4" "(a mod 4 * 16 + b div 16) mod 16 = b div 16"
    using 3 by auto
  ultimately show ?case by (simp del: div_mult_self1 mod_mult_self1)
next
  case (4 a b c rest)
  have "a div 4 < 64" "a mod 4 * 16 + b div 16 < 64" "b mod 16 * 4 + c div 64 < 64" using 4 by auto
  moreover have "(a mod 4 * 16 + b div 16) div 16 = a mod 4" "(a mod 4 * 16 + b div 16) mod 16 = b div 16"
    "(b mod 16 * 4 + c div 64) div 4 = b mod 16" "(b mod 16 * 4 + c div 64) mod 4 = c div 64"
    using 4 by auto
  ultimately show ?case using 4 by simp
qed simp

lemma urlsafe_b64_roundtrip: "urlsafe_b64decode (urlsafe_b64encode bs) = Some bs"
proof -
  have "\<forall>n \<in> set (map unat bs). n < 256" using unat_byte_less by auto
  then have "urlsafe_b64decode (urlsafe_b64encode bs) = Some (map of_nat (map unat bs))"
    by (simp add: urlsafe_b64decode_def urlsafe_b64encode_def a2b_encode)
  moreover have "map of_nat (map unat bs) = bs"
    by (induction bs) (simp_all add: of_nat_unat)
  ultimately show ?thesis by simp
qed

lemma b64_encode_chars:
  "\<forall>n \<in> set ns. n < 256 \<Longrightarrow> 
     c \<in> set (b64_encode ns) \<Longrightarrow> c \<in> insert (CHR ''='') (b64_digit ` {..<64})"
proof (induction ns rule: b64_encode.induct)
  case (2 a)
  have "a div 4 < 64" "a mod 4 * 16 < 64" using 2 by auto
  then show ?case using 2 by auto
next
  case (3 a b)
  have "a div 4 < 64" "a mod 4 * 16 + b div 16 < 64" "b mod 16 * 4 < 64" using 3 by auto
  then show ?case using 3 by auto
next
  case (4 a b c rest)
  have "a div 4 < 64" "a mod 4 * 16 + b div 16 < 64" "b mod 16 * 4 + c div 64 < 64" "c mod 64 < 64"
    using 4 by auto
  then show ?case using 4 by auto
qed simp

lemma token_urlsafe_no_dot: "CHR ''.'' \<notin> set (token_urlsafe bs)"
proof
  assume "CHR ''.'' \<in> set (token_urlsafe bs)"
  then have "CHR ''.'' \<in> set (b64_encode (map unat bs))"
    by (simp add: token_urlsafe_def urlsafe_b64encode_def)
  moreover have "\<forall>n \<in> set (map unat bs). n < 256" using unat_byte_less by auto
  ultimately have "CHR ''.'' \<in> insert (CHR ''='') (b64_digit ` {..<64})"
    by (intro b64_encode_chars)
  then obtain v where v: "v < 64" "CHR ''.'' = b64_digit v" by auto
  from b64_digit_not_pad [OF v(1)] show False unfolding v(2) [symmetric] by simp
qed

lemma b64_encode_hd: "ns \<noteq> [] \<Longrightarrow> \<exists>s. b64_encode ns = b64_digit (hd ns div 4) # s"
  by (cases ns rule: b64_encode.cases) auto

lemma token_urlsafe_nonempty:
  assumes "bs \<noteq> []"
  shows "token_urlsafe bs \<noteq> []"
proof -
  obtain s where "b64_encode (map unat bs) = b64_digit (hd (map unat bs) div 4) # s"
    using b64_encode_hd [of "map unat bs"] assms by (auto simp del: b64_encode.simps)
  moreover have "hd (map unat bs) div 4 < 64"
    using unat_byte_less [of "hd bs"] assms by (simp add: hd_map)
  ultimately show ?thesis by (simp add: token_urlsafe_def urlsafe_b64encode_def)
qed

end
