(* ===== verification/ApiKeyHash.thy ===== *)
theory ApiKeyHash
  imports Domain Base64 Signing
begin

section \<open>API keys: generation, splitting, hashing, verification\<close>

text \<open>
  \<open>relay/domain/api_keys/hashing.py\<close>. The random bytes that \<open>secrets\<close> returns are arguments.
\<close>

definition hash_secret :: "byte list \<Rightarrow> string \<Rightarrow> string" where
  "hash_secret salt secret = hex salt @ ''$'' @ hex (sha256 (salt @ encode secret))"

definition generate_api_key :: "byte list \<Rightarrow> byte list \<Rightarrow> byte list \<Rightarrow> string \<times> string \<times> string" where
  "generate_api_key prefix_bytes secret_bytes salt =
     (let key_prefix = token_urlsafe prefix_bytes; secret = token_urlsafe secret_bytes
      in (key_prefix @ ''.'' @ secret, key_prefix, hash_secret salt secret))"

definition split_api_key :: "string \<Rightarrow> (string \<times> string) option" where
  "split_api_key plaintext_key =
     (case partition_at (CHR ''.'') plaintext_key of
        None \<Rightarrow> None
      | Some (key_prefix, secret) \<Rightarrow>
          if key_prefix = [] \<or> secret = [] then None else Some (key_prefix, secret))"

definition verify_secret :: "string \<Rightarrow> string \<Rightarrow> error + bool" where
  "verify_secret secret stored_hash =
     (case partition_at (CHR ''$'') stored_hash of
        None \<Rightarrow> Inr False
      | Some (salt_hex, digest_hex) \<Rightarrow>
          (case fromhex salt_hex of
             None \<Rightarrow> Inr False
           | Some salt \<Rightarrow> compare_digest (hex (sha256 (salt @ encode secret))) digest_hex))"

lemma hex_no_dollar: "CHR ''$'' \<notin> set (hex bs)"
  using hex_codes [of "CHR ''$''" bs] by auto

lemma verify_hash_secret:
  "verify_secret secret' (hash_secret salt secret) =
     Inr (sha256 (salt @ encode secret') = sha256 (salt @ encode secret))"
proof -
  have "partition_at (CHR ''$'') (hash_secret salt secret) =
      Some (hex salt, hex (sha256 (salt @ encode secret)))"
    unfolding hash_secret_def by (simp add: partition_at_append hex_no_dollar)
  then show ?thesis
    by (auto simp: verify_secret_def fromhex_hex compare_digest_def hex_ascii dest: hex_inject)
qed

lemma split_api_key_Some_iff:
  "split_api_key k = Some (p, s) \<longleftrightarrow> k = p @ CHR ''.'' # s \<and> CHR ''.'' \<notin> set p \<and> p \<noteq> [] \<and> s \<noteq> []"
proof -
  have "split_api_key k = Some (p, s) \<longleftrightarrow>
      partition_at (CHR ''.'') k = Some (p, s) \<and> p \<noteq> [] \<and> s \<noteq> []"
    by (auto simp: split_api_key_def split: option.splits)
  then show ?thesis by (auto simp: partition_at_Some_iff)
qed

subsection \<open>Properties\<close>

text \<open>
  Issuing and presenting a key round-trip: for any non-empty random bytes, the plaintext key
  splits into exactly the stored prefix and a secret that verifies against the stored hash, and
  another secret verifies only if salted SHA-256 collides on the two.
\<close>

theorem api_key_roundtrip:
  assumes "prefix_bytes \<noteq> []" and "secret_bytes \<noteq> []"
    and "generate_api_key prefix_bytes secret_bytes salt = (plaintext, key_prefix, key_hash)"
  shows "\<exists>secret. split_api_key plaintext = Some (key_prefix, secret) \<and>
           (\<forall>other. verify_secret other key_hash = Inr True \<longleftrightarrow>
              sha256 (salt @ encode other) = sha256 (salt @ encode secret))"
proof -
  let ?secret = "token_urlsafe secret_bytes"
  have k: "plaintext = token_urlsafe prefix_bytes @ CHR ''.'' # ?secret"
    "key_prefix = token_urlsafe prefix_bytes" "key_hash = hash_secret salt ?secret"
    using assms(3) by (auto simp: generate_api_key_def Let_def)
  have "split_api_key plaintext = Some (key_prefix, ?secret)"
    using assms(1,2) by (simp add: k split_api_key_Some_iff token_urlsafe_no_dot token_urlsafe_nonempty)
  then show ?thesis by (auto simp: k verify_hash_secret)
qed

theorem api_key_roundtrip_witness:
  "\<exists>secret. split_api_key (fst (generate_api_key [0, 16, 131] [255, 1, 2] [7])) = Some (''ABCD'', secret)"
proof -
  have "token_urlsafe [0, 16, 131] = ''ABCD''"
    by code_simp
  then have "generate_api_key [0, 16, 131] [255, 1, 2] [7] =
      (fst (generate_api_key [0, 16, 131] [255, 1, 2] [7]), ''ABCD'',
       snd (snd (generate_api_key [0, 16, 131] [255, 1, 2] [7])))"
    by (simp add: generate_api_key_def Let_def)
  from api_key_roundtrip [OF _ _ this] show ?thesis by blast
qed

end
