(* ===== verification/Store.thy ===== *)
theory Store
  imports Domain
begin

section \<open>The database: tables, constraints and repositories\<close>

text \<open>
  \<open>relay/repositories/*/models.py\<close> and \<open>relay/repositories/*/repository.py\<close>. The state is one
  record of tables, each the list of its rows in insertion order; a row is the domain entity
  that \<open>_to_domain\<close> builds from it, so the \<open>StrEnum\<close> columns are the enum's members. A
  repository operation takes the value of \<open>gen_random_uuid()\<close> and of the clock (the server's
  \<open>now()\<close> or \<open>datetime.now(UTC)\<close>) as arguments, and either raises or returns its result and
  the new tables. The primary keys, the unique constraints and the foreign keys of the models
  are checked where Postgres checks them; \<open>db_ok\<close> states them of a whole database, with the
  cascade on deletion. An \<open>ORDER BY\<close> that leaves ties open is the stable sort.
\<close>

record db =
  db_tenants :: "tenant list"
  db_api_keys :: "api_key list"
  db_endpoints :: "endpoint list"
  db_events :: "event list"
  db_outbox :: "outbox_entry list"
  db_deliveries :: "delivery list"
  db_attempts :: "delivery_attempt list"

definition empty_db :: db where
  "empty_db = \<lparr>db_tenants = [], db_api_keys = [], db_endpoints = [], db_events = [],
    db_outbox = [], db_deliveries = [], db_attempts = []\<rparr>"

definition db_ok :: "db \<Rightarrow> bool" where
  "db_ok s \<longleftrightarrow>
     distinct (map t_id (db_tenants s)) \<and>
     distinct (map k_id (db_api_keys s)) \<and>
     distinct (map ep_id (db_endpoints s)) \<and>
     distinct (map ev_id (db_events s)) \<and>
     distinct (map (\<lambda>e. (ev_tenant_id e, ev_idempotency_key e)) (db_events s)) \<and>
     distinct (map ob_id (db_outbox s)) \<and>
     distinct (map ob_event_id (db_outbox s)) \<and>
     distinct (map d_id (db_deliveries s)) \<and>
     distinct (map a_id (db_attempts s)) \<and>
     k_tenant_id ` set (db_api_keys s) \<subseteq> t_id ` set (db_tenants s) \<and>
     ep_tenant_id ` set (db_endpoints s) \<subseteq> t_id ` set (db_tenants s) \<and>
     ev_tenant_id ` set (db_events s) \<subseteq> t_id ` set (db_tenants s) \<and>
     ob_event_id ` set (db_outbox s) \<subseteq> ev_id ` set (db_events s) \<and>
     d_event_id ` set (db_deliveries s) \<subseteq> ev_id ` set (db_events s) \<and>
     d_endpoint_id ` set (db_deliveries s) \<subseteq> ep_id ` set (db_endpoints s) \<and>
     a_delivery_id ` set (db_attempts s) \<subseteq> d_id ` set (db_deliveries s)"

type_synonym 'a repo = "db \<Rightarrow> error + 'a \<times> db"

subsection \<open>Tenants\<close>

definition tenants_create :: "uuid \<Rightarrow> timestamp \<Rightarrow> string \<Rightarrow> bool \<Rightarrow> tenant repo" where
  "tenants_create new_id now name is_sandbox s =
     (if new_id \<in> t_id ` set (db_tenants s) then Inl IntegrityError
      else let m = \<lparr>t_id = new_id, t_name = name, t_created_at = now, t_deleted_at = None,
                    t_is_sandbox = is_sandbox\<rparr>
        in Inr (m, s\<lparr>db_tenants := db_tenants s @ [m]\<rparr>))"

definition tenants_get :: "uuid \<Rightarrow> db \<Rightarrow> tenant option" where
  "tenants_get tenant_id s = find_by t_id tenant_id (db_tenants s)"

definition tenants_list :: "db \<Rightarrow> tenant list" where
  "tenants_list s = sort_key t_created_at (db_tenants s)"

subsection \<open>API keys\<close>

definition api_keys_create ::
  "uuid \<Rightarrow> timestamp \<Rightarrow> uuid \<Rightarrow> string \<Rightarrow> string \<Rightarrow> string list \<Rightarrow> timestamp option \<Rightarrow> api_key repo" where
  "api_keys_create new_id now tenant_id key_hash key_prefix scopes expires_at s =
     (if new_id \<in> k_id ` set (db_api_keys s) \<or> tenant_id \<notin> t_id ` set (db_tenants s)
      then Inl IntegrityError
      else let m = \<lparr>k_id = new_id, k_tenant_id = tenant_id, k_key_hash = key_hash,
                    k_key_prefix = key_prefix, k_scopes = scopes, k_created_at = now,
                    k_revoked_at = None, k_expires_at = expires_at\<rparr>
        in Inr (m, s\<lparr>db_api_keys := db_api_keys s @ [m]\<rparr>))"

definition api_keys_get :: "uuid \<Rightarrow> db \<Rightarrow> api_key option" where
  "api_keys_get key_id s = find_by k_id key_id (db_api_keys s)"

definition api_keys_get_by_prefix :: "string \<Rightarrow> db \<Rightarrow> api_key list" where
  "api_keys_get_by_prefix key_prefix s = filter (\<lambda>k. k_key_prefix k = key_prefix) (db_api_keys s)"

definition api_keys_list :: "uuid \<Rightarrow> db \<Rightarrow> api_key list" where
  "api_keys_list tenant_id s =
     sort_key k_created_at (filter (\<lambda>k. k_tenant_id k = tenant_id) (db_api_keys s))"

definition api_keys_revoke :: "timestamp \<Rightarrow> uuid \<Rightarrow> api_key repo" where
  "api_keys_revoke now key_id s =
     (case find_by k_id key_id (db_api_keys s) of
        None \<Rightarrow> Inl (NotFoundError key_id)
      | Some m \<Rightarrow>
          let f = (\<lambda>k. k\<lparr>k_revoked_at := Some now\<rparr>)
          in Inr (f m, s\<lparr>db_api_keys := update_by k_id key_id f (db_api_keys s)\<rparr>))"

subsection \<open>Endpoints\<close>

definition endpoints_create ::
  "uuid \<Rightarrow> timestamp \<Rightarrow> uuid \<Rightarrow> string \<Rightarrow> string \<Rightarrow> string list \<Rightarrow> endpoint repo" where
  "endpoints_create new_id now tenant_id url secret subscribed_event_types s =
     (if new_id \<in> ep_id ` set (db_endpoints s) \<or> tenant_id \<notin> t_id ` set (db_tenants s)
      then Inl IntegrityError
      else let m = \<lparr>ep_id = new_id, ep_tenant_id = tenant_id, ep_url = url, ep_secret = secret,
                    ep_event_types = subscribed_event_types, ep_created_at = now,
                    ep_status = ACTIVE, ep_breaker_state = CLOSED, ep_opened_at = None,
                    ep_consecutive_failures = 0\<rparr>
        in Inr (m, s\<lparr>db_endpoints := db_endpoints s @ [m]\<rparr>))"

definition endpoints_get :: "uuid \<Rightarrow> db \<Rightarrow> endpoint option" where
  "endpoints_get endpoint_id s = find_by ep_id endpoint_id (db_endpoints s)"

definition endpoints_get_or_raise :: "uuid \<Rightarrow> db \<Rightarrow> error + endpoint" where
  "endpoints_get_or_raise endpoint_id s =
     (case endpoints_get endpoint_id s of None \<Rightarrow> Inl (NotFoundError endpoint_id) | Some m \<Rightarrow> Inr m)"

text \<open>Load the row, change it, flush and read it back.\<close>

definition endpoints_modify :: "uuid \<Rightarrow> (endpoint \<Rightarrow> endpoint) \<Rightarrow> endpoint repo" where
  "endpoints_modify endpoint_id f s =
     res_bind (endpoints_get_or_raise endpoint_id s) (\<lambda>m.
       Inr (f m, s\<lparr>db_endpoints := update_by ep_id endpoint_id f (db_endpoints s)\<rparr>))"

definition endpoints_update ::
  "uuid \<Rightarrow> string option \<Rightarrow> string list option \<Rightarrow> endpoint_status option \<Rightarrow> endpoint repo" where
  "endpoints_update endpoint_id url subscribed_event_types status =
     endpoints_modify endpoint_id (\<lambda>m.
       let m1 = (case url of None \<Rightarrow> m | Some u \<Rightarrow> m\<lparr>ep_url := u\<rparr>);
           m2 = (case subscribed_event_types of None \<Rightarrow> m1 | Some ts \<Rightarrow> m1\<lparr>ep_event_types := ts\<rparr>)
       in (case status of None \<Rightarrow> m2 | Some st \<Rightarrow> m2\<lparr>ep_status := st\<rparr>))"

text \<open>
  \<open>DELETE\<close> of the row; the foreign keys take its deliveries and their attempts with it.
\<close>

definition endpoints_delete :: "uuid \<Rightarrow> unit repo" where
  "endpoints_delete endpoint_id s =
     (case endpoints_get endpoint_id s of
        None \<Rightarrow> Inl (NotFoundError endpoint_id)
      | Some m \<Rightarrow>
          let gone = map d_id (filter (\<lambda>d. d_endpoint_id d = endpoint_id) (db_deliveries s))
          in Inr ((), s\<lparr>db_endpoints := filter (\<lambda>e. ep_id e \<noteq> endpoint_id) (db_endpoints s),
                db_deliveries := filter (\<lambda>d. d_endpoint_id d \<noteq> endpoint_id) (db_deliveries s),
                db_attempts := filter (\<lambda>a. a_delivery_id a \<notin> set gone) (db_attempts s)\<rparr>))"

definition endpoints_record_delivery_outcome ::
  "uuid \<Rightarrow> breaker_state \<Rightarrow> nat \<Rightarrow> timestamp option \<Rightarrow> endpoint repo" where
  "endpoints_record_delivery_outcome endpoint_id breaker_state consecutive_failures opened_at =
     endpoints_modify endpoint_id (\<lambda>m.
       m\<lparr>ep_breaker_state := breaker_state, ep_consecutive_failures := consecutive_failures,
         ep_opened_at := opened_at\<rparr>)"

definition endpoints_set_breaker_state ::
  "uuid \<Rightarrow> breaker_state \<Rightarrow> timestamp option \<Rightarrow> endpoint repo" where
  "endpoints_set_breaker_state endpoint_id breaker_state opened_at =
     endpoints_modify endpoint_id (\<lambda>m. m\<lparr>ep_breaker_state := breaker_state, ep_opened_at := opened_at\<rparr>)"

definition endpoints_list_active_subscribed :: "uuid \<Rightarrow> string \<Rightarrow> db \<Rightarrow> endpoint list" where
  "endpoints_list_active_subscribed tenant_id event_type s =
     filter (\<lambda>e. ep_tenant_id e = tenant_id \<and> is_active e \<and> is_subscribed_to e event_type)
       (db_endpoints s)"

definition endpoints_count_for_tenant :: "uuid \<Rightarrow> db \<Rightarrow> nat" where
  "endpoints_count_for_tenant tenant_id s =
     length (filter (\<lambda>e. ep_tenant_id e = tenant_id) (db_endpoints s))"

subsection \<open>Events\<close>

text \<open>
  The insert runs in a savepoint: on a violated constraint it is undone and the transaction is
  as before, and only a unique violation (SQLSTATE 23505) becomes an \<open>IdempotencyKeyConflict\<close>.
\<close>

definition events_create ::
  "uuid \<Rightarrow> timestamp \<Rightarrow> uuid \<Rightarrow> string \<Rightarrow> json \<Rightarrow> string \<Rightarrow> string option \<Rightarrow> event repo" where
  "events_create new_id now tenant_id event_type payload idempotency_key correlation_id s =
     (if new_id \<in> ev_id ` set (db_events s) \<or>
         (tenant_id, idempotency_key) \<in> (\<lambda>e. (ev_tenant_id e, ev_idempotency_key e)) ` set (db_events s)
      then Inl (IdempotencyKeyConflict tenant_id idempotency_key)
      else if tenant_id \<notin> t_id ` set (db_tenants s) then Inl IntegrityError
      else let m = \<lparr>ev_id = new_id, ev_tenant_id = tenant_id, ev_type = event_type,
                    ev_payload = payload, ev_idempotency_key = idempotency_key,
                    ev_created_at = now, ev_correlation_id = correlation_id\<rparr>
        in Inr (m, s\<lparr>db_events := db_events s @ [m]\<rparr>))"

definition events_get :: "uuid \<Rightarrow> db \<Rightarrow> event option" where
  "events_get event_id s = find_by ev_id event_id (db_events s)"

definition events_count_for_tenant :: "uuid \<Rightarrow> db \<Rightarrow> nat" where
  "events_count_for_tenant tenant_id s = length (filter (\<lambda>e. ev_tenant_id e = tenant_id) (db_events s))"

definition events_get_by_idempotency_key :: "uuid \<Rightarrow> string \<Rightarrow> db \<Rightarrow> event option" where
  "events_get_by_idempotency_key tenant_id idempotency_key s =
     find_by (\<lambda>e. (ev_tenant_id e, ev_idempotency_key e)) (tenant_id, idempotency_key) (db_events s)"

subsection \<open>The outbox\<close>

definition outbox_create :: "uuid \<Rightarrow> timestamp \<Rightarrow> uuid \<Rightarrow> outbox_entry repo" where
  "outbox_create new_id now event_id s =
     (if new_id \<in> ob_id ` set (db_outbox s) \<or> event_id \<in> ob_event_id ` set (db_outbox s) \<or>
         event_id \<notin> ev_id ` set (db_events s)
      then Inl IntegrityError
      else let m = \<lparr>ob_id = new_id, ob_event_id = event_id, ob_status = OUTBOX_PENDING,
                    ob_attempts = 0, ob_created_at = now, ob_locked_at = None\<rparr>
        in Inr (m, s\<lparr>db_outbox := db_outbox s @ [m]\<rparr>))"

text \<open>
  \<open>FOR UPDATE SKIP LOCKED\<close>: the rows that other open transactions hold (\<open>locked\<close>) are passed
  over; the claimed ones get their lock time and their attempt counted.
\<close>

definition outbox_due :: "uuid list \<Rightarrow> nat \<Rightarrow> db \<Rightarrow> outbox_entry list" where
  "outbox_due locked limit s =
     take limit (sort_key ob_created_at
       (filter (\<lambda>o'. ob_status o' = OUTBOX_PENDING \<and> ob_id o' \<notin> set locked) (db_outbox s)))"

definition mark_claimed :: "timestamp \<Rightarrow> outbox_entry \<Rightarrow> outbox_entry" where
  "mark_claimed now o' = o'\<lparr>ob_locked_at := Some now, ob_attempts := ob_attempts o' + 1\<rparr>"

definition outbox_claim_due :: "timestamp \<Rightarrow> uuid list \<Rightarrow> nat \<Rightarrow> db \<Rightarrow> outbox_entry list \<times> db" where
  "outbox_claim_due now locked limit s =
     (let rows = outbox_due locked limit s; ids = map ob_id rows
      in (map (mark_claimed now) rows,
          s\<lparr>db_outbox := map (\<lambda>o'. if ob_id o' \<in> set ids then mark_claimed now o' else o') (db_outbox s)\<rparr>))"

definition outbox_mark_processed :: "uuid \<Rightarrow> unit repo" where
  "outbox_mark_processed outbox_id s =
     (case find_by ob_id outbox_id (db_outbox s) of
        None \<Rightarrow> Inl (NotFoundError outbox_id)
      | Some m \<Rightarrow>
          Inr ((), s\<lparr>db_outbox :=
                 update_by ob_id outbox_id (\<lambda>o'. o'\<lparr>ob_status := OUTBOX_PROCESSED\<rparr>) (db_outbox s)\<rparr>))"

subsection \<open>Deliveries\<close>

definition deliveries_create :: "uuid \<Rightarrow> timestamp \<Rightarrow> uuid \<Rightarrow> uuid \<Rightarrow> delivery repo" where
  "deliveries_create new_id now event_id endpoint_id s =
     (if new_id \<in> d_id ` set (db_deliveries s) \<or> event_id \<notin> ev_id ` set (db_events s) \<or>
         endpoint_id \<notin> ep_id ` set (db_endpoints s)
      then Inl IntegrityError
      else let m = \<lparr>d_id = new_id, d_event_id = event_id, d_endpoint_id = endpoint_id,
                    d_state = PENDING, d_attempt_count = 0, d_created_at = now,
                    d_next_retry_at = None\<rparr>
        in Inr (m, s\<lparr>db_deliveries := db_deliveries s @ [m]\<rparr>))"

definition deliveries_get :: "uuid \<Rightarrow> db \<Rightarrow> delivery option" where
  "deliveries_get delivery_id s = find_by d_id delivery_id (db_deliveries s)"

definition deliveries_get_or_raise :: "uuid \<Rightarrow> db \<Rightarrow> error + delivery" where
  "deliveries_get_or_raise delivery_id s =
     (case deliveries_get delivery_id s of None \<Rightarrow> Inl (NotFoundError delivery_id) | Some m \<Rightarrow> Inr m)"

definition deliveries_modify :: "uuid \<Rightarrow> (delivery \<Rightarrow> delivery) \<Rightarrow> delivery repo" where
  "deliveries_modify delivery_id f s =
     res_bind (deliveries_get_or_raise delivery_id s) (\<lambda>m.
       Inr (f m, s\<lparr>db_deliveries := update_by d_id delivery_id f (db_deliveries s)\<rparr>))"

definition set_delivered :: "delivery \<Rightarrow> delivery" where
  "set_delivered m =
     m\<lparr>d_state := DELIVERED, d_attempt_count := d_attempt_count m + 1, d_next_retry_at := None\<rparr>"

definition set_retrying :: "timestamp \<Rightarrow> delivery \<Rightarrow> delivery" where
  "set_retrying next_retry_at m =
     m\<lparr>d_state := RETRYING, d_attempt_count := d_attempt_count m + 1,
       d_next_retry_at := Some next_retry_at\<rparr>"

definition set_dead :: "delivery \<Rightarrow> delivery" where
  "set_dead m =
     m\<lparr>d_state := DEAD, d_attempt_count := d_attempt_count m + 1, d_next_retry_at := None\<rparr>"

definition set_rescheduled :: "timestamp \<Rightarrow> delivery \<Rightarrow> delivery" where
  "set_rescheduled next_retry_at m = m\<lparr>d_state := RETRYING, d_next_retry_at := Some next_retry_at\<rparr>"

definition set_replayed :: "delivery \<Rightarrow> delivery" where
  "set_replayed m = m\<lparr>d_state := PENDING, d_attempt_count := 0, d_next_retry_at := None\<rparr>"

definition deliveries_mark_delivered :: "uuid \<Rightarrow> delivery repo" where
  "deliveries_mark_delivered delivery_id = deliveries_modify delivery_id set_delivered"

definition deliveries_mark_retrying :: "uuid \<Rightarrow> timestamp \<Rightarrow> delivery repo" where
  "deliveries_mark_retrying delivery_id next_retry_at =
     deliveries_modify delivery_id (set_retrying next_retry_at)"

definition deliveries_mark_dead :: "uuid \<Rightarrow> delivery repo" where
  "deliveries_mark_dead delivery_id = deliveries_modify delivery_id set_dead"

definition deliveries_reschedule :: "uuid \<Rightarrow> timestamp \<Rightarrow> delivery repo" where
  "deliveries_reschedule delivery_id next_retry_at =
     deliveries_modify delivery_id (set_rescheduled next_retry_at)"

definition deliveries_reset_for_replay :: "uuid \<Rightarrow> delivery repo" where
  "deliveries_reset_for_replay delivery_id = deliveries_modify delivery_id set_replayed"

text \<open>The join of a delivery with its event: the tenant the delivery belongs to.\<close>

definition delivery_of_tenant :: "uuid \<Rightarrow> db \<Rightarrow> delivery \<Rightarrow> bool" where
  "delivery_of_tenant tenant_id s d =
     list_ex (\<lambda>e. ev_id e = d_event_id d \<and> ev_tenant_id e = tenant_id) (db_events s)"

definition deliveries_count_by_states_for_tenant :: "uuid \<Rightarrow> delivery_state list \<Rightarrow> db \<Rightarrow> nat" where
  "deliveries_count_by_states_for_tenant tenant_id states s =
     length (filter (\<lambda>d. delivery_of_tenant tenant_id s d \<and> d_state d \<in> set states) (db_deliveries s))"

subsection \<open>Delivery attempts\<close>

definition delivery_attempts_create ::
  "uuid \<Rightarrow> timestamp \<Rightarrow> uuid \<Rightarrow> nat \<Rightarrow> int \<Rightarrow> int option \<Rightarrow> attempt_error_class option \<Rightarrow>
   string option \<Rightarrow> string option \<Rightarrow> (string \<times> string) list option \<Rightarrow> delivery_attempt repo" where
  "delivery_attempts_create new_id now delivery_id attempt_no latency_ms response_status error_class
     request_snippet response_snippet request_headers s =
     (if new_id \<in> a_id ` set (db_attempts s) \<or> delivery_id \<notin> d_id ` set (db_deliveries s)
      then Inl IntegrityError
      else let m = \<lparr>a_id = new_id, a_delivery_id = delivery_id, a_attempt_no = attempt_no,
                    a_latency_ms = latency_ms, a_created_at = now,
                    a_response_status = response_status, a_error_class = error_class,
                    a_request_snippet = request_snippet, a_response_snippet = response_snippet,
                    a_request_headers = request_headers\<rparr>
        in Inr (m, s\<lparr>db_attempts := db_attempts s @ [m]\<rparr>))"

definition delivery_attempts_list_for_delivery :: "uuid \<Rightarrow> db \<Rightarrow> delivery_attempt list" where
  "delivery_attempts_list_for_delivery delivery_id s =
     sort_key (\<lambda>a. (a_created_at a, a_attempt_no a))
       (filter (\<lambda>a. a_delivery_id a = delivery_id) (db_attempts s))"

definition delivery_attempts_recent_for_tenant :: "uuid \<Rightarrow> nat \<Rightarrow> db \<Rightarrow> delivery_attempt list" where
  "delivery_attempts_recent_for_tenant tenant_id limit s =
     take limit (sort_key (\<lambda>a. - a_created_at a)
       (filter (\<lambda>a. list_ex (\<lambda>d. d_id d = a_delivery_id a \<and> delivery_of_tenant tenant_id s d)
                       (db_deliveries s))
         (db_attempts s)))"

subsection \<open>Well-formedness is kept by every operation\<close>

named_theorems db_ok_intros "db_ok is preserved by the repository operations"

lemma image_update_by [simp]:
  "(\<And>r. g (f r) = g r) \<Longrightarrow> g ` set (update_by key k f rows) = g ` set rows"
  by (metis map_other_update_by set_map)

lemmas row_sets = set_delivered_def set_retrying_def set_dead_def set_rescheduled_def set_replayed_def

lemma row_sets_keep [simp]:
  "d_id (set_delivered m) = d_id m" "d_id (set_retrying t m) = d_id m" "d_id (set_dead m) = d_id m"
  "d_id (set_rescheduled t m) = d_id m" "d_id (set_replayed m) = d_id m"
  "d_event_id (set_delivered m) = d_event_id m" "d_event_id (set_retrying t m) = d_event_id m"
  "d_event_id (set_dead m) = d_event_id m" "d_event_id (set_rescheduled t m) = d_event_id m"
  "d_event_id (set_replayed m) = d_event_id m"
  "d_endpoint_id (set_delivered m) = d_endpoint_id m" "d_endpoint_id (set_retrying t m) = d_endpoint_id m"
  "d_endpoint_id (set_dead m) = d_endpoint_id m" "d_endpoint_id (set_rescheduled t m) = d_endpoint_id m"
  "d_endpoint_id (set_replayed m) = d_endpoint_id m"
  by (simp_all add: row_sets)

lemma db_ok_empty [db_ok_intros]: "db_ok empty_db"
  by (simp add: db_ok_def empty_db_def)

lemma db_ok_tenants_create [db_ok_intros]:
  "tenants_create i now n sb s = Inr (m, s') \<Longrightarrow> db_ok s \<Longrightarrow> db_ok s'"
  by (clarsimp simp: subset_insertI2 tenants_create_def db_ok_def Let_def split: if_splits)

lemma db_ok_api_keys_create [db_ok_intros]:
  "api_keys_create i now t h p sc ex s = Inr (m, s') \<Longrightarrow> db_ok s \<Longrightarrow> db_ok s'"
  by (clarsimp simp: subset_insertI2 api_keys_create_def db_ok_def Let_def split: if_splits)

lemma db_ok_api_keys_revoke [db_ok_intros]:
  "api_keys_revoke now i s = Inr (m, s') \<Longrightarrow> db_ok s \<Longrightarrow> db_ok s'"
  by (clarsimp simp: api_keys_revoke_def db_ok_def Let_def map_other_update_by split: option.splits)

lemma db_ok_endpoints_create [db_ok_intros]:
  "endpoints_create i now t u sec ts s = Inr (m, s') \<Longrightarrow> db_ok s \<Longrightarrow> db_ok s'"
  by (clarsimp simp: subset_insertI2 endpoints_create_def db_ok_def Let_def split: if_splits)

lemma endpoints_modify_Inr:
  "endpoints_modify i f s = Inr (m, s') \<longleftrightarrow>
     (\<exists>e. endpoints_get i s = Some e \<and> m = f e \<and>
          s' = s\<lparr>db_endpoints := update_by ep_id i f (db_endpoints s)\<rparr>)"
  by (auto simp: endpoints_modify_def endpoints_get_or_raise_def split: option.splits)

lemma db_ok_endpoints_modify:
  assumes "endpoints_modify i f s = Inr (m, s')" "db_ok s"
    and "\<And>e. ep_id (f e) = ep_id e" "\<And>e. ep_tenant_id (f e) = ep_tenant_id e"
  shows "db_ok s'"
  using assms by (clarsimp simp: endpoints_modify_Inr db_ok_def map_other_update_by)

lemma db_ok_endpoints_update [db_ok_intros]:
  "endpoints_update i u ts st s = Inr (m, s') \<Longrightarrow> db_ok s \<Longrightarrow> db_ok s'"
  unfolding endpoints_update_def
  by (erule db_ok_endpoints_modify) (auto simp: Let_def split: option.splits)

lemma endpoints_delete_Inr:
  "endpoints_delete i s = Inr (u, s') \<longleftrightarrow>
     endpoints_get i s \<noteq> None \<and>
     s' = s\<lparr>db_endpoints := filter (\<lambda>e. ep_id e \<noteq> i) (db_endpoints s),
       db_deliveries := filter (\<lambda>d. d_endpoint_id d \<noteq> i) (db_deliveries s),
       db_attempts := filter (\<lambda>a. a_delivery_id a \<notin>
           d_id ` set (filter (\<lambda>d. d_endpoint_id d = i) (db_deliveries s))) (db_attempts s)\<rparr>"
  by (auto simp: endpoints_delete_def Let_def split: option.splits)

lemma db_ok_endpoints_delete [db_ok_intros]:
  assumes "endpoints_delete i s = Inr (u, s')" "db_ok s"
  shows "db_ok s'"
proof -
  let ?es = "filter (\<lambda>e. ep_id e \<noteq> i) (db_endpoints s)"
  let ?ds = "filter (\<lambda>d. d_endpoint_id d \<noteq> i) (db_deliveries s)"
  let ?gone = "d_id ` set (filter (\<lambda>d. d_endpoint_id d = i) (db_deliveries s))"
  have s': "s' = s\<lparr>db_endpoints := ?es, db_deliveries := ?ds,
      db_attempts := filter (\<lambda>a. a_delivery_id a \<notin> ?gone) (db_attempts s)\<rparr>"
    using assms(1) by (simp add: endpoints_delete_Inr)
  have fk: "ep_tenant_id ` set (db_endpoints s) \<subseteq> t_id ` set (db_tenants s)"
    "d_event_id ` set (db_deliveries s) \<subseteq> ev_id ` set (db_events s)"
    "d_endpoint_id ` set (db_deliveries s) \<subseteq> ep_id ` set (db_endpoints s)"
    "a_delivery_id ` set (db_attempts s) \<subseteq> d_id ` set (db_deliveries s)"
    using assms(2) by (simp_all only: db_ok_def)
  have "ep_tenant_id ` set ?es \<subseteq> t_id ` set (db_tenants s)" using fk(1) by auto
  moreover have "d_event_id ` set ?ds \<subseteq> ev_id ` set (db_events s)" using fk(2) by auto
  moreover have "d_endpoint_id ` set ?ds \<subseteq> ep_id ` set ?es" using fk(3) by auto
  moreover have "a_delivery_id ` set (filter (\<lambda>a. a_delivery_id a \<notin> ?gone) (db_attempts s)) \<subseteq> d_id ` set ?ds"
    using fk(4) by fastforce
  ultimately show ?thesis
    using assms(2) unfolding db_ok_def s' by (simp add: distinct_map_filterI del: set_filter)
qed

lemma db_ok_record_delivery_outcome [db_ok_intros]:
  "endpoints_record_delivery_outcome i b n op s = Inr (m, s') \<Longrightarrow> db_ok s \<Longrightarrow> db_ok s'"
  unfolding endpoints_record_delivery_outcome_def by (erule db_ok_endpoints_modify) auto

lemma db_ok_set_breaker_state [db_ok_intros]:
  "endpoints_set_breaker_state i b op s = Inr (m, s') \<Longrightarrow> db_ok s \<Longrightarrow> db_ok s'"
  unfolding endpoints_set_breaker_state_def by (erule db_ok_endpoints_modify) auto

lemma db_ok_events_create [db_ok_intros]:
  "events_create i now t ty p ik c s = Inr (m, s') \<Longrightarrow> db_ok s \<Longrightarrow> db_ok s'"
  by (clarsimp simp: subset_insertI2 events_create_def db_ok_def Let_def split: if_splits)

lemma db_ok_outbox_create [db_ok_intros]:
  "outbox_create i now e s = Inr (m, s') \<Longrightarrow> db_ok s \<Longrightarrow> db_ok s'"
  by (clarsimp simp: subset_insertI2 outbox_create_def db_ok_def Let_def split: if_splits)

lemma mark_claimed_keep [simp]:
  "ob_id (mark_claimed now r) = ob_id r" "ob_event_id (mark_claimed now r) = ob_event_id r"
  "ob_status (mark_claimed now r) = ob_status r" "ob_created_at (mark_claimed now r) = ob_created_at r"
  by (simp_all add: mark_claimed_def)

lemma map_mark_claimed [simp]:
  "map g (map (\<lambda>r. if P r then mark_claimed now r else r) rows) = map g rows"
  if "\<And>r. g (mark_claimed now r) = g r" for g :: "outbox_entry \<Rightarrow> 'k"
  using that by simp

lemma db_ok_outbox_rows:
  assumes "db_ok s" "map ob_id rows = map ob_id (db_outbox s)"
    and "map ob_event_id rows = map ob_event_id (db_outbox s)"
  shows "db_ok (s\<lparr>db_outbox := rows\<rparr>)"
proof -
  have "ob_event_id ` set rows = ob_event_id ` set (db_outbox s)"
    using assms(3) by (metis set_map)
  with assms show ?thesis by (simp add: db_ok_def)
qed

lemma db_ok_outbox_claim_due [db_ok_intros]:
  "outbox_claim_due now locked n s = (rows, s') \<Longrightarrow> db_ok s \<Longrightarrow> db_ok s'"
  by (auto simp: outbox_claim_due_def Let_def intro!: db_ok_outbox_rows)

lemma db_ok_outbox_mark_processed [db_ok_intros]:
  "outbox_mark_processed i s = Inr (m, s') \<Longrightarrow> db_ok s \<Longrightarrow> db_ok s'"
  by (clarsimp simp: outbox_mark_processed_def db_ok_def map_other_update_by split: option.splits)

lemma db_ok_deliveries_create [db_ok_intros]:
  "deliveries_create i now e ep s = Inr (m, s') \<Longrightarrow> db_ok s \<Longrightarrow> db_ok s'"
  by (clarsimp simp: subset_insertI2 deliveries_create_def db_ok_def Let_def split: if_splits)

lemma deliveries_modify_Inr:
  "deliveries_modify i f s = Inr (m, s') \<longleftrightarrow>
     (\<exists>d. deliveries_get i s = Some d \<and> m = f d \<and>
          s' = s\<lparr>db_deliveries := update_by d_id i f (db_deliveries s)\<rparr>)"
  by (auto simp: deliveries_modify_def deliveries_get_or_raise_def split: option.splits)

lemma deliveries_modify_Inl:
  "deliveries_modify i f s = Inl e \<longleftrightarrow> deliveries_get i s = None \<and> e = NotFoundError i"
  by (auto simp: deliveries_modify_def deliveries_get_or_raise_def split: option.splits)

lemma db_ok_deliveries_modify:
  assumes "deliveries_modify i f s = Inr (m, s')" "db_ok s"
    and "\<And>d. d_id (f d) = d_id d" "\<And>d. d_event_id (f d) = d_event_id d"
    and "\<And>d. d_endpoint_id (f d) = d_endpoint_id d"
  shows "db_ok s'"
  using assms by (clarsimp simp: deliveries_modify_Inr db_ok_def map_other_update_by)

lemmas deliveries_ops = deliveries_mark_delivered_def deliveries_mark_retrying_def
  deliveries_mark_dead_def deliveries_reschedule_def deliveries_reset_for_replay_def

lemma db_ok_deliveries_ops [db_ok_intros]:
  "deliveries_mark_delivered i s = Inr (m, s') \<Longrightarrow> db_ok s \<Longrightarrow> db_ok s'"
  "deliveries_mark_retrying i t s = Inr (m, s') \<Longrightarrow> db_ok s \<Longrightarrow> db_ok s'"
  "deliveries_mark_dead i s = Inr (m, s') \<Longrightarrow> db_ok s \<Longrightarrow> db_ok s'"
  "deliveries_reschedule i t s = Inr (m, s') \<Longrightarrow> db_ok s \<Longrightarrow> db_ok s'"
  "deliveries_reset_for_replay i s = Inr (m, s') \<Longrightarrow> db_ok s \<Longrightarrow> db_ok s'"
  unfolding deliveries_ops by (erule db_ok_deliveries_modify; simp)+

lemma db_ok_delivery_attempts_create [db_ok_intros]:
  "delivery_attempts_create i now d n l st ec rs ps rh s = Inr (m, s') \<Longrightarrow> db_ok s \<Longrightarrow> db_ok s'"
  by (clarsimp simp: subset_insertI2 delivery_attempts_create_def db_ok_def Let_def split: if_splits)

end
