(* ===== verification/UnitOfWork.thy ===== *)
theory UnitOfWork
  imports Store
begin

section \<open>The unit of work\<close>

text \<open>
  \<open>relay/repositories/unit_of_work.py\<close>. A store is the committed database and the in-process
  Prometheus collectors of \<open>relay/infra/metrics.py\<close> that the transactional code touches, which
  no rollback undoes. A session extends it with the pending tables of the open transaction:
  \<open>__aenter__\<close> opens it on the committed state, \<open>commit\<close> publishes the pending tables, and
  \<open>__aexit__\<close> always rolls back. A use case is a function of a session that returns or raises
  (\<open>'a tx\<close>); \<open>bindT\<close> sequences two of them, and an exception skips the rest but keeps what was
  committed before it.
\<close>

record store =
  st_db :: db
  st_breaker_gauge :: "(uuid \<times> breaker_state) list"
  st_attempts_total :: "string list"

record session = store +
  se_pending :: db

type_synonym 'a tx = "session \<Rightarrow> (error + 'a) \<times> session"
type_synonym 'a service = "store \<Rightarrow> (error + 'a) \<times> store"

definition uow_enter :: "store \<Rightarrow> session" where
  "uow_enter st = store.extend st (session.fields (st_db st))"

definition uow_commit :: "unit tx" where
  "uow_commit s = (Inr (), s\<lparr>st_db := se_pending s\<rparr>)"

definition uow_rollback :: "session \<Rightarrow> session" where
  "uow_rollback s = s\<lparr>se_pending := st_db s\<rparr>"

definition uow_exit :: "session \<Rightarrow> store" where
  "uow_exit s = store.truncate (uow_rollback s)"

definition with_uow :: "'a tx \<Rightarrow> 'a service" where
  "with_uow body st = (let (r, s) = body (uow_enter st) in (r, uow_exit s))"

subsection \<open>Sequencing inside a session\<close>

definition returnT :: "'a \<Rightarrow> 'a tx" where
  "returnT x s = (Inr x, s)"

definition raiseT :: "error \<Rightarrow> 'a tx" where
  "raiseT e s = (Inl e, s)"

definition bindT :: "'a tx \<Rightarrow> ('a \<Rightarrow> 'b tx) \<Rightarrow> 'b tx" where
  "bindT m k s = (case m s of (Inl e, s') \<Rightarrow> (Inl e, s') | (Inr x, s') \<Rightarrow> k x s')"

text \<open>A read of the pending tables, and a repository call that writes them.\<close>

definition readT :: "(db \<Rightarrow> 'a) \<Rightarrow> 'a tx" where
  "readT q s = (Inr (q (se_pending s)), s)"

definition repoT :: "'a repo \<Rightarrow> 'a tx" where
  "repoT op s = (case op (se_pending s) of Inl e \<Rightarrow> (Inl e, s) | Inr (x, d) \<Rightarrow> (Inr x, s\<lparr>se_pending := d\<rparr>))"

text \<open>A value that must be there: \<open>if x is None: raise\<close>.\<close>

definition requireT :: "error \<Rightarrow> 'a option \<Rightarrow> 'a tx" where
  "requireT e x = (case x of None \<Rightarrow> raiseT e | Some y \<Rightarrow> returnT y)"

text \<open>
  The two endpoint operations that also set the \<open>circuit_breaker_state\<close> gauge, at flush time.
\<close>

definition set_gauge :: "uuid \<Rightarrow> breaker_state \<Rightarrow> unit tx" where
  "set_gauge endpoint_id b s = (Inr (), s\<lparr>st_breaker_gauge := (endpoint_id, b) # st_breaker_gauge s\<rparr>)"

definition count_attempt :: "string \<Rightarrow> unit tx" where
  "count_attempt outcome s = (Inr (), s\<lparr>st_attempts_total := outcome # st_attempts_total s\<rparr>)"

definition record_delivery_outcome ::
  "uuid \<Rightarrow> breaker_state \<Rightarrow> nat \<Rightarrow> timestamp option \<Rightarrow> endpoint tx" where
  "record_delivery_outcome endpoint_id breaker_state consecutive_failures opened_at =
     bindT (repoT (endpoints_record_delivery_outcome endpoint_id breaker_state consecutive_failures opened_at))
       (\<lambda>m. bindT (set_gauge endpoint_id breaker_state) (\<lambda>_. returnT m))"

definition set_breaker_state :: "uuid \<Rightarrow> breaker_state \<Rightarrow> timestamp option \<Rightarrow> endpoint tx" where
  "set_breaker_state endpoint_id breaker_state opened_at =
     bindT (repoT (endpoints_set_breaker_state endpoint_id breaker_state opened_at))
       (\<lambda>m. bindT (set_gauge endpoint_id breaker_state) (\<lambda>_. returnT m))"

subsection \<open>Facts\<close>

named_theorems tx_simps "evaluation of a use case inside a session"

lemma tx_eval [tx_simps]:
  "returnT x s = (Inr x, s)"
  "raiseT e s = (Inl e, s)"
  "readT q s = (Inr (q (se_pending s)), s)"
  "uow_commit s = (Inr (), s\<lparr>st_db := se_pending s\<rparr>)"
  "requireT e None = raiseT e"
  "requireT e (Some y) = returnT y"
  "set_gauge i b s = (Inr (), s\<lparr>st_breaker_gauge := (i, b) # st_breaker_gauge s\<rparr>)"
  "count_attempt l s = (Inr (), s\<lparr>st_attempts_total := l # st_attempts_total s\<rparr>)"
  by (simp_all add: returnT_def raiseT_def readT_def uow_commit_def requireT_def set_gauge_def
      count_attempt_def)

lemma bindT_eval [tx_simps]:
  "bindT (returnT x) k = k x"
  "bindT (raiseT e) k = raiseT e"
  "bindT (readT q) k s = k (q (se_pending s)) s"
  "bindT (repoT op) k s =
     (case op (se_pending s) of Inl e \<Rightarrow> (Inl e, s) | Inr (x, d) \<Rightarrow> k x (s\<lparr>se_pending := d\<rparr>))"
  by (auto simp: bindT_def returnT_def raiseT_def readT_def repoT_def fun_eq_iff split: sum.splits)

lemma bindT_eval_unit [tx_simps]:
  "bindT uow_commit k s = k () (s\<lparr>st_db := se_pending s\<rparr>)"
  "bindT (set_gauge i b) k s = k () (s\<lparr>st_breaker_gauge := (i, b) # st_breaker_gauge s\<rparr>)"
  "bindT (count_attempt l) k s = k () (s\<lparr>st_attempts_total := l # st_attempts_total s\<rparr>)"
  by (simp_all add: bindT_def uow_commit_def set_gauge_def count_attempt_def)

lemma bindT_assoc [tx_simps]: "bindT (bindT m f) g = bindT m (\<lambda>x. bindT (f x) g)"
  by (auto simp: bindT_def fun_eq_iff split: sum.splits prod.splits)

lemma uow_enter_sel [simp]:
  "se_pending (uow_enter st) = st_db st" "st_db (uow_enter st) = st_db st"
  "st_breaker_gauge (uow_enter st) = st_breaker_gauge st"
  "st_attempts_total (uow_enter st) = st_attempts_total st"
  by (simp_all add: uow_enter_def store.defs session.defs)

lemma uow_exit_sel [simp]:
  "st_db (uow_exit s) = st_db s" "st_breaker_gauge (uow_exit s) = st_breaker_gauge s"
  "st_attempts_total (uow_exit s) = st_attempts_total s"
  by (simp_all add: uow_exit_def uow_rollback_def store.defs)

lemma uow_exit_enter [simp]: "uow_exit (uow_enter st) = st"
  by (simp add: uow_exit_def uow_rollback_def uow_enter_def store.defs session.defs)

text \<open>A use case that only reads leaves the store as it was.\<close>

lemma with_uow_read [simp]: "with_uow (readT q) st = (Inr (q (st_db st)), st)"
  by (simp add: with_uow_def tx_simps)

text \<open>
  The property of a session that survives its exit: what is committed satisfies \<open>P\<close>, and so
  does what is pending, because the pending tables are what the next commit publishes.
\<close>

definition session_inv :: "(db \<Rightarrow> bool) \<Rightarrow> session \<Rightarrow> bool" where
  "session_inv P s \<longleftrightarrow> P (st_db s) \<and> P (se_pending s)"

definition keeps :: "(db \<Rightarrow> bool) \<Rightarrow> 'a tx \<Rightarrow> bool" where
  "keeps P m \<longleftrightarrow> (\<forall>s. session_inv P s \<longrightarrow> session_inv P (snd (m s)))"

named_theorems keeps_intros "use cases that keep an invariant of the database"

lemma keeps_basic [keeps_intros]:
  "keeps P (returnT x)" "keeps P (raiseT e)" "keeps P (readT q)" "keeps P uow_commit"
  "keeps P (set_gauge i b)" "keeps P (count_attempt l)" "keeps P (requireT e x)"
  by (auto simp: keeps_def session_inv_def tx_simps requireT_def split: option.splits)

lemma keeps_bindT [keeps_intros]: "keeps P m \<Longrightarrow> (\<And>x. keeps P (k x)) \<Longrightarrow> keeps P (bindT m k)"
  by (auto simp: keeps_def bindT_def split: prod.splits sum.splits; metis snd_conv)

lemma keeps_repoT [keeps_intros]:
  "(\<And>d x d'. op d = Inr (x, d') \<Longrightarrow> P d \<Longrightarrow> P d') \<Longrightarrow> keeps P (repoT op)"
  by (auto simp: keeps_def repoT_def session_inv_def split: sum.splits)

lemma keeps_if [keeps_intros]: "keeps P m \<Longrightarrow> keeps P n \<Longrightarrow> keeps P (if b then m else n)"
  by simp

lemma keeps_with_uow: "keeps P m \<Longrightarrow> P (st_db st) \<Longrightarrow> P (st_db (snd (with_uow m st)))"
  by (auto simp: keeps_def session_inv_def with_uow_def split: prod.splits)
     (metis snd_conv uow_enter_sel(1) uow_enter_sel(2))

text \<open>Before its first commit a use case has changed nothing that outlives it.\<close>

definition uncommitted :: "'a tx \<Rightarrow> bool" where
  "uncommitted m \<longleftrightarrow> (\<forall>s. st_db (snd (m s)) = st_db s)"

lemma uncommitted_basic [keeps_intros]:
  "uncommitted (returnT x)" "uncommitted (raiseT e)" "uncommitted (readT q)"
  "uncommitted (set_gauge i b)" "uncommitted (count_attempt l)" "uncommitted (requireT e y)"
  "uncommitted (repoT op)"
  by (auto simp: uncommitted_def tx_simps requireT_def repoT_def split: option.splits sum.splits)

lemma uncommitted_bindT [keeps_intros]:
  "uncommitted m \<Longrightarrow> (\<And>x. uncommitted (k x)) \<Longrightarrow> uncommitted (bindT m k)"
  by (auto simp: uncommitted_def bindT_def split: prod.splits sum.splits) (metis snd_conv)+

text \<open>A use case whose exceptions all come before its commit.\<close>

definition errors_uncommitted :: "'a tx \<Rightarrow> bool" where
  "errors_uncommitted m \<longleftrightarrow> (\<forall>s e s'. m s = (Inl e, s') \<longrightarrow> st_db s' = st_db s)"

lemma errors_uncommitted_intros [keeps_intros]:
  "uncommitted m \<Longrightarrow> errors_uncommitted m"
  "uncommitted m \<Longrightarrow> (\<And>x. errors_uncommitted (k x)) \<Longrightarrow> errors_uncommitted (bindT m k)"
  "errors_uncommitted (bindT uow_commit (\<lambda>_. returnT y))"
  "errors_uncommitted m \<Longrightarrow> errors_uncommitted n \<Longrightarrow> errors_uncommitted (if b then m else n)"
proof -
  show "errors_uncommitted (bindT m k)" if "uncommitted m" "\<And>x. errors_uncommitted (k x)"
    using that by (auto simp: uncommitted_def errors_uncommitted_def bindT_def split: prod.splits sum.splits)
      (metis snd_conv)+
qed (auto simp: uncommitted_def errors_uncommitted_def tx_simps split: prod.splits, (metis snd_conv)?)

lemma with_uow_error:
  "errors_uncommitted m \<Longrightarrow> with_uow m st = (Inl e, st') \<Longrightarrow> st_db st' = st_db st"
  by (auto simp: errors_uncommitted_def with_uow_def split: prod.splits)

end
