(* ===== verification/EventIngest.thy ===== *)
theory EventIngest
  imports UnitOfWork
begin

section \<open>Event ingest and idempotency keys\<close>

text \<open>
  \<open>relay/services/events/service.py\<close>. Between the lookup of the key and the insert another
  transaction may commit, and under READ COMMITTED this one then sees it: \<open>others\<close> is what such
  transactions do to the database. The new row identifiers and the server's clock are arguments.
\<close>

definition othersT :: "(db \<Rightarrow> db) \<Rightarrow> unit tx" where
  "othersT others s = (Inr (), s\<lparr>st_db := others (st_db s), se_pending := others (se_pending s)\<rparr>)"

text \<open>\<open>try m, on an exception run h instead of the rest, else go on with k\<close>.\<close>

definition try_elseT :: "'a tx \<Rightarrow> (error \<Rightarrow> 'b tx) \<Rightarrow> ('a \<Rightarrow> 'b tx) \<Rightarrow> 'b tx" where
  "try_elseT m h k s = (case m s of (Inl e, s') \<Rightarrow> h e s' | (Inr x, s') \<Rightarrow> k x s')"

definition resolve :: "event \<Rightarrow> uuid \<Rightarrow> string \<Rightarrow> json \<Rightarrow> string \<Rightarrow> event tx" where
  "resolve existing tenant_id event_type payload idempotency_key =
     (if ev_type existing = event_type \<and> py_eq (ev_payload existing) payload
      then returnT existing
      else raiseT (DifferingBodyConflict tenant_id idempotency_key))"

definition ingest_conflict :: "uuid \<Rightarrow> string \<Rightarrow> json \<Rightarrow> string \<Rightarrow> error \<Rightarrow> event tx" where
  "ingest_conflict tenant_id event_type payload idempotency_key e =
     (case e of
        IdempotencyKeyConflict _ _ \<Rightarrow>
          bindT (readT (events_get_by_idempotency_key tenant_id idempotency_key)) (\<lambda>winner.
            case winner of
              None \<Rightarrow> raiseT (RuntimeError ''idempotency conflict but no row found'')
            | Some w \<Rightarrow> resolve w tenant_id event_type payload idempotency_key)
      | _ \<Rightarrow> raiseT e)"

definition ingest ::
  "uuid \<Rightarrow> uuid \<Rightarrow> timestamp \<Rightarrow> (db \<Rightarrow> db) \<Rightarrow>
   uuid \<Rightarrow> string \<Rightarrow> json \<Rightarrow> string \<Rightarrow> string option \<Rightarrow> event service" where
  "ingest new_event_id new_outbox_id now others tenant_id event_type payload idempotency_key correlation_id =
     with_uow
       (bindT (readT (events_get_by_idempotency_key tenant_id idempotency_key)) (\<lambda>existing.
          case existing of
            Some x \<Rightarrow> resolve x tenant_id event_type payload idempotency_key
          | None \<Rightarrow>
              bindT (othersT others) (\<lambda>_.
                try_elseT
                  (bindT (repoT (events_create new_event_id now tenant_id event_type payload
                                   idempotency_key correlation_id)) (\<lambda>event.
                   bindT (repoT (outbox_create new_outbox_id now (ev_id event))) (\<lambda>_.
                   returnT event)))
                  (ingest_conflict tenant_id event_type payload idempotency_key)
                  (\<lambda>event. bindT uow_commit (\<lambda>_. returnT event)))))"

subsection \<open>Abstract specification\<close>

text \<open>
  A map from (tenant, key) to the event that was accepted first. A request with a free key is
  accepted; one with a used key answers that event if type and payload are its own, and a
  conflict otherwise, and changes nothing either way.
\<close>

type_synonym key_map = "uuid \<times> string \<Rightarrow> event option"

definition keys_of :: "db \<Rightarrow> key_map" where
  "keys_of s = (\<lambda>(t, k). events_get_by_idempotency_key t k s)"

definition same_body :: "event \<Rightarrow> event \<Rightarrow> bool" where
  "same_body e f \<longleftrightarrow> ev_type e = ev_type f \<and> py_eq (ev_payload e) (ev_payload f)"

definition ingest_spec :: "key_map \<Rightarrow> event \<Rightarrow> (error + event) \<times> key_map" where
  "ingest_spec M e =
     (let k = (ev_tenant_id e, ev_idempotency_key e) in
      case M k of
        None \<Rightarrow> (Inr e, M(k \<mapsto> e))
      | Some x \<Rightarrow>
          (if same_body x e then Inr x else Inl (DifferingBodyConflict (fst k) (snd k)), M))"

text \<open>Every event is on its way to its endpoints: it has its outbox row.\<close>

definition events_have_outbox :: "db \<Rightarrow> bool" where
  "events_have_outbox s \<longleftrightarrow> ev_id ` set (db_events s) \<subseteq> ob_event_id ` set (db_outbox s)"

text \<open>Identifiers that \<open>gen_random_uuid()\<close> has not handed out before.\<close>

definition fresh_event :: "uuid \<Rightarrow> uuid \<Rightarrow> db \<Rightarrow> bool" where
  "fresh_event new_event_id new_outbox_id s \<longleftrightarrow>
     new_event_id \<notin> ev_id ` set (db_events s) \<and> new_event_id \<notin> ob_event_id ` set (db_outbox s) \<and>
     new_outbox_id \<notin> ob_id ` set (db_outbox s)"

lemma fresh_event_db_ok:
  "db_ok s \<Longrightarrow> i \<notin> ev_id ` set (db_events s) \<Longrightarrow> i \<notin> ob_event_id ` set (db_outbox s)"
  by (auto simp: db_ok_def)

lemma events_create_cases:
  assumes "fresh_event i j s" "t \<in> t_id ` set (db_tenants s)"
  shows "events_create i now t ty p k c s =
     (case keys_of s (t, k) of
        Some x \<Rightarrow> Inl (IdempotencyKeyConflict t k)
      | None \<Rightarrow>
          let m = \<lparr>ev_id = i, ev_tenant_id = t, ev_type = ty, ev_payload = p,
                   ev_idempotency_key = k, ev_created_at = now, ev_correlation_id = c\<rparr>
          in Inr (m, s\<lparr>db_events := db_events s @ [m]\<rparr>))"
  using assms
  unfolding events_create_def fresh_event_def keys_of_def events_get_by_idempotency_key_def Let_def
  by (cases "find_by (\<lambda>e. (ev_tenant_id e, ev_idempotency_key e)) (t, k) (db_events s)")
     (use find_by_None_iff [of "\<lambda>e. (ev_tenant_id e, ev_idempotency_key e)" "(t, k)" "db_events s"]
      in auto)

lemma outbox_create_fresh:
  "fresh_event i j s \<Longrightarrow> ev_id m = i \<Longrightarrow>
   \<exists>o'. outbox_create j now i (s\<lparr>db_events := db_events s @ [m]\<rparr>) =
       Inr (o', s\<lparr>db_events := db_events s @ [m], db_outbox := db_outbox s @ [o']\<rparr>) \<and>
     ob_event_id o' = i \<and> ob_status o' = OUTBOX_PENDING"
  by (auto simp: outbox_create_def fresh_event_def Let_def)

lemma keys_of_snoc:
  "keys_of (s\<lparr>db_events := db_events s @ [m], db_outbox := q\<rparr>) =
     (keys_of s)((ev_tenant_id m, ev_idempotency_key m) \<mapsto> m)"
  if "keys_of s (ev_tenant_id m, ev_idempotency_key m) = None"
  using that
  by (auto simp: keys_of_def events_get_by_idempotency_key_def find_by_append fun_eq_iff
      split: option.splits)

text \<open>
  The store at the moment the request takes effect: right away if the key is known, after the
  other transactions if it is not.
\<close>

definition effect_point :: "(db \<Rightarrow> db) \<Rightarrow> uuid \<Rightarrow> string \<Rightarrow> store \<Rightarrow> store" where
  "effect_point others t k st =
     (if keys_of (st_db st) (t, k) = None then st\<lparr>st_db := others (st_db st)\<rparr> else st)"

definition accepted_event ::
  "uuid \<Rightarrow> timestamp \<Rightarrow> uuid \<Rightarrow> string \<Rightarrow> json \<Rightarrow> string \<Rightarrow> string option \<Rightarrow> event" where
  "accepted_event i now t ty p k c =
     \<lparr>ev_id = i, ev_tenant_id = t, ev_type = ty, ev_payload = p, ev_idempotency_key = k,
      ev_created_at = now, ev_correlation_id = c\<rparr>"

lemma with_uow_resolve:
  "resolve x t ty p k s =
     (if ev_type x = ty \<and> py_eq (ev_payload x) p then Inr x else Inl (DifferingBodyConflict t k), s)"
  by (simp add: resolve_def tx_simps)

lemma uow_exit_others:
  "uow_exit ((uow_enter st)\<lparr>st_db := d, se_pending := d'\<rparr>) = st\<lparr>st_db := d\<rparr>"
  "uow_exit ((uow_enter st)\<lparr>se_pending := d', st_db := d\<rparr>) = st\<lparr>st_db := d\<rparr>"
  by (simp_all add: uow_exit_def uow_rollback_def uow_enter_def store.defs session.defs)

lemma ingest_known:
  assumes "keys_of (st_db (effect_point others t k st)) (t, k) = Some x"
    and "fresh_event i j (st_db (effect_point others t k st))"
    and "t \<in> t_id ` set (db_tenants (st_db (effect_point others t k st)))"
  shows "ingest i j now others t ty p k c st =
     (if same_body x (accepted_event i now t ty p k c) then Inr x else Inl (DifferingBodyConflict t k),
      effect_point others t k st)"
proof (cases "keys_of (st_db st) (t, k)")
  case (Some y)
  then have "events_get_by_idempotency_key t k (st_db st) = Some x" "effect_point others t k st = st"
    using assms(1) by (simp_all add: effect_point_def keys_of_def)
  then show ?thesis
    by (simp add: ingest_def with_uow_def tx_simps with_uow_resolve same_body_def accepted_event_def)
next
  case None
  let ?s = "others (st_db st)"
  have ep: "effect_point others t k st = st\<lparr>st_db := ?s\<rparr>" using None by (simp add: effect_point_def)
  have won: "keys_of ?s (t, k) = Some x" using assms(1) by (simp add: ep)
  have ev: "events_create i now t ty p k c ?s = Inl (IdempotencyKeyConflict t k)"
    using assms(2,3) events_create_cases [of i j ?s t] by (simp add: ep won)
  have get: "events_get_by_idempotency_key t k (st_db st) = None"
    "events_get_by_idempotency_key t k ?s = Some x"
    using None won by (simp_all add: keys_of_def)
  show ?thesis
    using ev get
    by (simp add: ingest_def with_uow_def tx_simps othersT_def bindT_def [of "othersT others"]
        try_elseT_def ingest_conflict_def with_uow_resolve same_body_def accepted_event_def
        uow_exit_others ep)
qed

lemma ingest_new:
  assumes "keys_of (st_db (effect_point others t k st)) (t, k) = None"
    and "fresh_event i j (st_db (effect_point others t k st))"
    and "t \<in> t_id ` set (db_tenants (st_db (effect_point others t k st)))"
  shows "\<exists>q. ob_event_id q = i \<and> ob_status q = OUTBOX_PENDING \<and>
     outbox_create j now i (others (st_db st)\<lparr>db_events := db_events (others (st_db st)) @
        [accepted_event i now t ty p k c]\<rparr>) = Inr (q, others (st_db st)
       \<lparr>db_events := db_events (others (st_db st)) @ [accepted_event i now t ty p k c],
        db_outbox := db_outbox (others (st_db st)) @ [q]\<rparr>) \<and>
     ingest i j now others t ty p k c st =
     (Inr (accepted_event i now t ty p k c),
      st\<lparr>st_db := others (st_db st)
       \<lparr>db_events := db_events (others (st_db st)) @ [accepted_event i now t ty p k c],
        db_outbox := db_outbox (others (st_db st)) @ [q]\<rparr>\<rparr>)"
proof -
  have none: "keys_of (st_db st) (t, k) = None" "keys_of (others (st_db st)) (t, k) = None"
    using assms(1) by (auto simp: effect_point_def split: if_splits)
  let ?s = "others (st_db st)" let ?m = "accepted_event i now t ty p k c"
  have fr: "fresh_event i j ?s" "t \<in> t_id ` set (db_tenants ?s)"
    using assms(2,3) none by (simp_all add: effect_point_def)
  obtain q where q: "outbox_create j now i (?s\<lparr>db_events := db_events ?s @ [?m]\<rparr>) =
       Inr (q, ?s\<lparr>db_events := db_events ?s @ [?m], db_outbox := db_outbox ?s @ [q]\<rparr>)"
      "ob_event_id q = i" "ob_status q = OUTBOX_PENDING"
    using outbox_create_fresh [OF fr(1), of ?m now] by (auto simp: accepted_event_def)
  have ev: "events_create i now t ty p k c ?s = Inr (?m, ?s\<lparr>db_events := db_events ?s @ [?m]\<rparr>)"
    using events_create_cases [OF fr] none(2) by (simp add: accepted_event_def Let_def)
  have "events_get_by_idempotency_key t k (st_db st) = None"
    using none(1) by (simp add: keys_of_def)
  moreover have "ev_id ?m = i" by (simp add: accepted_event_def)
  ultimately have "ingest i j now others t ty p k c st =
     (Inr ?m, st\<lparr>st_db := ?s\<lparr>db_events := db_events ?s @ [?m], db_outbox := db_outbox ?s @ [q]\<rparr>\<rparr>)"
    using ev q(1)
    by (simp add: ingest_def with_uow_def tx_simps othersT_def bindT_def [of "othersT others"]
        try_elseT_def uow_exit_others)
  with q show ?thesis by blast
qed

lemma keys_of_Some: "keys_of s (t, k) = Some x \<Longrightarrow> ev_tenant_id x = t \<and> ev_idempotency_key x = k"
  by (auto simp: keys_of_def events_get_by_idempotency_key_def dest!: find_by_SomeD)

lemma accepted_event_sel [simp]:
  "ev_id (accepted_event i now t ty p k c) = i" "ev_tenant_id (accepted_event i now t ty p k c) = t"
  "ev_type (accepted_event i now t ty p k c) = ty" "ev_payload (accepted_event i now t ty p k c) = p"
  "ev_idempotency_key (accepted_event i now t ty p k c) = k"
  by (simp_all add: accepted_event_def)

text \<open>What a request can leave behind, whatever identifiers it is given.\<close>

lemma ingest_outcomes:
  assumes "ingest i j now others t ty p k c st = (r, st')"
  obtains (known) x where "keys_of (st_db (effect_point others t k st)) (t, k) = Some x"
      "st' = effect_point others t k st"
      "r = (if ev_type x = ty \<and> py_eq (ev_payload x) p then Inr x else Inl (DifferingBodyConflict t k))"
  | (failed) e where "r = Inl e" "st' = effect_point others t k st"
      "keys_of (st_db (effect_point others t k st)) (t, k) = None"
  | (created) m d q d' where "r = Inr m" "st_db st' = d'"
      "events_create i now t ty p k c (st_db (effect_point others t k st)) = Inr (m, d)"
      "outbox_create j now (ev_id m) d = Inr (q, d')"
      "keys_of (st_db (effect_point others t k st)) (t, k) = None"
proof (cases "keys_of (st_db st) (t, k)")
  case (Some x)
  then have "events_get_by_idempotency_key t k (st_db st) = Some x" "effect_point others t k st = st"
    by (simp_all add: keys_of_def effect_point_def)
  with assms Some show ?thesis
    by (intro known [of x]) (auto simp: ingest_def with_uow_def tx_simps with_uow_resolve)
next
  case None
  let ?s = "others (st_db st)"
  have ep: "effect_point others t k st = st\<lparr>st_db := ?s\<rparr>" using None by (simp add: effect_point_def)
  have get: "events_get_by_idempotency_key t k (st_db st) = None" using None by (simp add: keys_of_def)
  note run = assms [symmetric, unfolded ingest_def]
  note ev = tx_simps get with_uow_def othersT_def bindT_def [of "othersT others"] try_elseT_def
    ingest_conflict_def uow_exit_others ep with_uow_resolve
  have win: "events_get_by_idempotency_key t k ?s = keys_of ?s (t, k)" by (simp add: keys_of_def)
  show ?thesis
  proof (cases "events_create i now t ty p k c ?s")
    case (Inl e)
    show ?thesis
    proof (cases "keys_of ?s (t, k)")
      case (Some x)
      have "e = IdempotencyKeyConflict t k"
        using Inl Some win find_by_SomeD
        by (fastforce simp: events_create_def events_get_by_idempotency_key_def Let_def split: if_splits)
      with run Inl Some win show ?thesis by (intro known [of x]) (auto simp: ev split: option.splits)
    next
      case None
      with run Inl win show ?thesis
        by (cases e) (auto simp: ev intro!: failed)
    qed
  next
    case (Inr md)
    obtain m d where md: "md = (m, d)" by (cases md)
    have none: "keys_of ?s (t, k) = None"
      using Inr by (auto simp: events_create_def keys_of_def events_get_by_idempotency_key_def
          find_by_None_iff split: if_splits)
    show ?thesis
    proof (cases "outbox_create j now (ev_id m) d")
      case (Inl e)
      then have "e = IntegrityError" by (auto simp: outbox_create_def Let_def split: if_splits)
      with run Inr md Inl none show ?thesis by (auto simp: ev intro!: failed)
    next
      case (Inr qd)
      obtain q d' where "qd = (q, d')" by (cases qd)
      with run md Inr \<open>events_create i now t ty p k c ?s = Inr md\<close> none show ?thesis
        by (intro created [of m d' d q]) (auto simp: ev)
    qed
  qed
qed

lemma events_create_Inr:
  "events_create i now t ty p k c s = Inr (m, d) \<Longrightarrow>
     m = accepted_event i now t ty p k c \<and> d = s\<lparr>db_events := db_events s @ [m]\<rparr>"
  by (auto simp: events_create_def accepted_event_def Let_def split: if_splits)

lemma outbox_create_Inr:
  "outbox_create j now e d = Inr (q, d') \<Longrightarrow>
     ob_id q = j \<and> ob_event_id q = e \<and> ob_status q = OUTBOX_PENDING \<and>
     d' = d\<lparr>db_outbox := db_outbox d @ [q]\<rparr>"
  by (auto simp: outbox_create_def Let_def split: if_splits)

lemma ingest_Inr_known:
  assumes "ingest i j now others t ty p k c st = (Inr e, st')"
  shows "keys_of (st_db st') (t, k) = Some e \<and> ev_type e = ty \<and> (py_eq (ev_payload e) p \<or> ev_payload e = p)"
  using assms
proof (cases rule: ingest_outcomes)
  case (created m d q d')
  have m: "m = accepted_event i now t ty p k c"
    "d = st_db (effect_point others t k st)\<lparr>db_events := db_events (st_db (effect_point others t k st)) @ [m]\<rparr>"
    using events_create_Inr [OF created(3)] by simp_all
  have "d' = d\<lparr>db_outbox := db_outbox d @ [q]\<rparr>" using outbox_create_Inr [OF created(4)] by simp
  with m created have "keys_of (st_db st') (t, k) = Some m"
    by (auto simp: keys_of_def events_get_by_idempotency_key_def find_by_append split: option.splits)
  with created m show ?thesis by auto
qed (auto split: if_splits)

subsection \<open>Properties\<close>

text \<open>
  C3. Ingest is an atomic operation on a map from (tenant, key) to the first accepted event: at
  one instant, after whatever other transactions committed in between, it answers and updates
  that map exactly as the specification does, so of two racing requests with one key one wins
  and the other is answered from the winner.
\<close>

theorem ingest_refines_key_map:
  assumes "fresh_event i j (st_db (effect_point others t k st))"
    and "t \<in> t_id ` set (db_tenants (st_db (effect_point others t k st)))"
  shows "map_prod id (\<lambda>st'. keys_of (st_db st')) (ingest i j now others t ty p k c st) =
     ingest_spec (keys_of (st_db (effect_point others t k st))) (accepted_event i now t ty p k c)"
proof (cases "keys_of (st_db (effect_point others t k st)) (t, k)")
  case None
  then have "effect_point others t k st = st\<lparr>st_db := others (st_db st)\<rparr>"
    by (auto simp: effect_point_def split: if_splits)
  with None ingest_new [OF None assms, of now ty p c] show ?thesis
    by (auto simp: ingest_spec_def Let_def keys_of_snoc)
next
  case (Some x)
  then show ?thesis
    using ingest_known [OF Some assms, of now ty p c] by (simp add: ingest_spec_def Let_def)
qed

definition demo_tenant :: tenant where
  "demo_tenant = \<lparr>t_id = 1, t_name = ''acme'', t_created_at = 0, t_deleted_at = None, t_is_sandbox = False\<rparr>"

definition demo_store :: store where
  "demo_store = \<lparr>st_db = empty_db\<lparr>db_tenants := [demo_tenant]\<rparr>, st_breaker_gauge = [], st_attempts_total = []\<rparr>"

theorem ingest_refines_key_map_witness:
  "map_prod id (\<lambda>st'. keys_of (st_db st'))
     (ingest 7 8 5 id 1 ''order.paid'' (JObj []) ''k1'' None demo_store) =
   (Inr (accepted_event 7 5 1 ''order.paid'' (JObj []) ''k1'' None),
    [(1, ''k1'') \<mapsto> accepted_event 7 5 1 ''order.paid'' (JObj []) ''k1'' None])"
proof -
  have none: "keys_of (st_db demo_store) = Map.empty"
    by (simp add: demo_store_def empty_db_def keys_of_def events_get_by_idempotency_key_def fun_eq_iff)
  then have ep: "effect_point id 1 ''k1'' demo_store = demo_store" by (simp add: effect_point_def)
  have "fresh_event 7 8 (st_db demo_store)" "(1::uuid) \<in> t_id ` set (db_tenants (st_db demo_store))"
    by (simp_all add: fresh_event_def demo_store_def empty_db_def demo_tenant_def)
  then show ?thesis
    using ingest_refines_key_map [of 7 8 id 1 "''k1''" demo_store 5 "''order.paid''" "JObj []" None]
    by (simp add: ep none ingest_spec_def Let_def)
qed

text \<open>
  Repeating a request is harmless: once a request has been answered with an event, the same
  type, payload and key at any later time, with whatever fresh identifiers, correlation id and
  concurrent transactions, is answered with that same event, and the store does not change.
\<close>

theorem ingest_retry_returns_the_original:
  assumes "json_wf p" and "ingest i j now others t ty p k c st = (Inr e, st')"
  shows "ingest i' j' now' others' t ty p k c' st' = (Inr e, st')"
proof -
  have e: "keys_of (st_db st') (t, k) = Some e" "ev_type e = ty" "py_eq (ev_payload e) p"
    using ingest_Inr_known [OF assms(2)] py_eq_refl [OF assms(1)] by auto
  then have "events_get_by_idempotency_key t k (st_db st') = Some e" by (simp add: keys_of_def)
  with e show ?thesis by (simp add: ingest_def with_uow_def tx_simps with_uow_resolve)
qed

theorem ingest_retry_returns_the_original_witness:
  "ingest 70 80 6 (\<lambda>_. empty_db) 1 ''order.paid'' (JObj []) ''k1'' (Some ''trace'')
     (snd (ingest 7 8 5 id 1 ''order.paid'' (JObj []) ''k1'' None demo_store)) =
   (Inr (accepted_event 7 5 1 ''order.paid'' (JObj []) ''k1'' None),
    snd (ingest 7 8 5 id 1 ''order.paid'' (JObj []) ''k1'' None demo_store))"
proof -
  have none: "keys_of (st_db demo_store) = Map.empty"
    by (simp add: demo_store_def empty_db_def keys_of_def events_get_by_idempotency_key_def fun_eq_iff)
  then have ep: "effect_point id 1 ''k1'' demo_store = demo_store" by (simp add: effect_point_def)
  have "fresh_event 7 8 (st_db demo_store)" "(1::uuid) \<in> t_id ` set (db_tenants (st_db demo_store))"
    by (simp_all add: fresh_event_def demo_store_def empty_db_def demo_tenant_def)
  then obtain st' where "ingest 7 8 5 id 1 ''order.paid'' (JObj []) ''k1'' None demo_store =
      (Inr (accepted_event 7 5 1 ''order.paid'' (JObj []) ''k1'' None), st')"
    using ingest_new [of id 1 "''k1''" demo_store 7 8 5 "''order.paid''" "JObj []" None]
    by (auto simp: ep none)
  with ingest_retry_returns_the_original [OF _ this] show ?thesis by simp
qed

text \<open>
  An accepted event can always be delivered: ingest keeps the database well-formed and keeps
  every event paired with its outbox row, whatever the identifiers it draws and whatever
  transactions that keep the same happen in the middle of it.
\<close>

theorem ingest_keeps_events_paired:
  assumes "\<And>d. db_ok d \<and> events_have_outbox d \<Longrightarrow> db_ok (others d) \<and> events_have_outbox (others d)"
    and "db_ok (st_db st)" and "events_have_outbox (st_db st)"
  shows "db_ok (st_db (snd (ingest i j now others t ty p k c st))) \<and>
         events_have_outbox (st_db (snd (ingest i j now others t ty p k c st)))"
proof -
  let ?s = "st_db (effect_point others t k st)"
  have ok: "db_ok ?s \<and> events_have_outbox ?s"
    using assms by (simp add: effect_point_def)
  obtain r st' where run: "ingest i j now others t ty p k c st = (r, st')" by fastforce
  then show ?thesis
  proof (cases rule: ingest_outcomes)
    case (created m d q d')
    have "db_ok d'"
      using db_ok_outbox_create [OF created(4)] db_ok_events_create [OF created(3)] ok by simp
    moreover have "events_have_outbox d'"
      using events_create_Inr [OF created(3)] outbox_create_Inr [OF created(4)] ok
      by (auto simp: events_have_outbox_def)
    ultimately show ?thesis using created run by simp
  qed (use ok run in auto)
qed

theorem ingest_keeps_events_paired_witness:
  "db_ok (st_db (snd (ingest 7 8 5 id 1 ''order.paid'' (JObj []) ''k1'' None demo_store)))"
proof -
  have "db_ok (st_db demo_store)" "events_have_outbox (st_db demo_store)"
    by (simp_all add: demo_store_def db_ok_def empty_db_def events_have_outbox_def)
  then show ?thesis using ingest_keeps_events_paired [of id demo_store] by simp
qed

text \<open>
  Bodies are compared with Python's \<open>==\<close>, not as JSON: a request whose payload has \<open>true\<close>
  where the original has \<open>1\<close> is taken for the same request and answered with the original
  event, where a differing body should be a conflict.
\<close>

theorem resolve_confuses_true_with_one:
  "resolve (x\<lparr>ev_payload := JObj [(f, JInt 1)]\<rparr>) t (ev_type x) (JObj [(f, JBool True)]) k s =
     (Inr (x\<lparr>ev_payload := JObj [(f, JInt 1)]\<rparr>), s)"
  by (simp add: with_uow_resolve)

end
