(* ===== verification/Wire.thy ===== *)
theory Wire
  imports Domain Crypto
begin

section \<open>Textual forms: UUIDs, timestamps, JSON\<close>

text \<open>
  The renderings of the standard library that the code puts on the wire: \<open>str(uuid)\<close>,
  \<open>datetime.isoformat()\<close> of an aware UTC timestamp, \<open>int(datetime.timestamp())\<close> and
  \<open>json.dumps\<close> with its default separators and \<open>ensure_ascii\<close>. The calendar is the proleptic
  Gregorian one. \<open>float.__repr__\<close> is the argument \<open>frepr\<close>, as a \<open>float\<close> is a rational here.
\<close>

subsection \<open>UUIDs\<close>

definition uuid_hex :: "uuid \<Rightarrow> string" where
  "uuid_hex u = hex (be_bytes 16 (unat u))"

definition uuid_str :: "uuid \<Rightarrow> string" where
  "uuid_str u =
     (let h = uuid_hex u in
      take 8 h @ ''-'' @ take 4 (drop 8 h) @ ''-'' @ take 4 (drop 12 h) @ ''-'' @
      take 4 (drop 16 h) @ ''-'' @ drop 20 h)"

text \<open>
  \<open>uuid.UUID(text)\<close>: the \<open>urn:\<close> and \<open>uuid:\<close> parts, surrounding braces and all hyphens are
  dropped, 32 characters must be left, and \<open>int(text, 16)\<close> reads them, which allows for
  surrounding white space, a sign, a \<open>0x\<close> prefix and single underscores between digits.
\<close>

function remove_sub :: "string \<Rightarrow> string \<Rightarrow> string" where
  "remove_sub p [] = []"
| "remove_sub p (c # cs) =
     (if p \<noteq> [] \<and> take (length p) (c # cs) = p then remove_sub p (drop (length p) (c # cs))
      else c # remove_sub p cs)"
  by pat_completeness auto
termination
  by (relation "measure (\<lambda>(p, s). length s)") (auto simp: Suc_diff_le intro: diff_less)

definition strip_set :: "(char \<Rightarrow> bool) \<Rightarrow> string \<Rightarrow> string" where
  "strip_set P s = rev (dropWhile P (rev (dropWhile P s)))"

definition is_py_space :: "char \<Rightarrow> bool" where
  "is_py_space c =
     (let n = of_char c :: nat in (9 \<le> n \<and> n \<le> 13) \<or> (28 \<le> n \<and> n \<le> 32) \<or> n = 133 \<or> n = 160)"

fun digits16 :: "bool \<Rightarrow> nat \<Rightarrow> string \<Rightarrow> nat option" where
  "digits16 after_digit acc [] = (if after_digit then Some acc else None)"
| "digits16 after_digit acc (c # cs) =
     (case hex_value c of
        Some v \<Rightarrow> digits16 True (acc * 16 + v) cs
      | None \<Rightarrow> if c = CHR ''_'' \<and> after_digit then digits16 False acc cs else None)"

definition unsigned16 :: "string \<Rightarrow> nat option" where
  "unsigned16 s =
     (case s of
        c # x # cs \<Rightarrow>
          if c = CHR ''0'' \<and> (x = CHR ''x'' \<or> x = CHR ''X'')
          then (case cs of
                  u # ds \<Rightarrow> if u = CHR ''_'' then digits16 False 0 ds else digits16 False 0 cs
                | [] \<Rightarrow> None)
          else digits16 False 0 s
      | _ \<Rightarrow> digits16 False 0 s)"

definition int16 :: "string \<Rightarrow> int option" where
  "int16 s =
     (case strip_set is_py_space s of
        c # cs \<Rightarrow>
          if c = CHR ''-'' then map_option (\<lambda>n. - int n) (unsigned16 cs)
          else if c = CHR ''+'' then map_option int (unsigned16 cs)
          else map_option int (unsigned16 (c # cs))
      | [] \<Rightarrow> None)"

definition uuid_parse :: "string \<Rightarrow> uuid option" where
  "uuid_parse s =
     (let h = filter (\<lambda>c. c \<noteq> CHR ''-'')
                (strip_set (\<lambda>c. c \<in> {CHR ''{'', CHR ''}''}) (remove_sub ''uuid:'' (remove_sub ''urn:'' s)))
      in if length h \<noteq> 32 then None
         else case int16 h of
           None \<Rightarrow> None
         | Some n \<Rightarrow> if 0 \<le> n \<and> n < 2 ^ 128 then Some (of_int n) else None)"

subsection \<open>Timestamps\<close>

definition pad_decimal :: "nat \<Rightarrow> nat \<Rightarrow> string" where
  "pad_decimal w n = (let s = decimal_nat n in replicate (w - length s) (CHR ''0'') @ s)"

text \<open>Year, month and day of a number of days since 1970-01-01; an era is 400 years, a year starts in March inside.\<close>

definition split_era :: "int \<Rightarrow> int \<times> int" where
  "split_era doe =
     (let c = min 3 (doe div 36524); in_century = doe - 36524 * c;
          q = in_century div 1461; in_cycle = in_century - 1461 * q;
          y = min 3 (in_cycle div 365)
      in (100 * c + 4 * q + y, in_cycle - 365 * y))"

definition civil_of_days :: "int \<Rightarrow> int \<times> int \<times> int" where
  "civil_of_days days =
     (let z = days + 719468; era = z div 146097; (yoe, doy) = split_era (z mod 146097);
          mp = (5 * doy + 2) div 153;
          d = doy - (153 * mp + 2) div 5 + 1;
          m = (if mp < 10 then mp + 3 else mp - 9)
      in (yoe + era * 400 + (if m \<le> 2 then 1 else 0), m, d))"

definition isoformat :: "timestamp \<Rightarrow> string" where
  "isoformat t =
     (let (y, m, d) = civil_of_days (t div 86400000000); us = t mod 86400000000;
          s = us div 1000000; f = us mod 1000000
      in pad_decimal 4 (nat y) @ ''-'' @ pad_decimal 2 (nat m) @ ''-'' @ pad_decimal 2 (nat d) @ ''T'' @
         pad_decimal 2 (nat (s div 3600)) @ '':'' @ pad_decimal 2 (nat (s div 60 mod 60)) @ '':'' @
         pad_decimal 2 (nat (s mod 60)) @
         (if f = 0 then [] else ''.'' @ pad_decimal 6 (nat f)) @ ''+00:00'')"

definition unix_seconds :: "timestamp \<Rightarrow> int" where
  "unix_seconds t = (if 0 \<le> t then t div 1000000 else - ((- t) div 1000000))"

subsection \<open>JSON\<close>

definition json_escape_char :: "char \<Rightarrow> string" where
  "json_escape_char c =
     (let n = of_char c :: nat in
      if c = CHR ''\"'' then [CHR 0x5C, CHR ''\"'']
      else if n = 92 then [CHR 0x5C, CHR 0x5C]
      else if n = 10 then [CHR 0x5C, CHR ''n'']
      else if n = 13 then [CHR 0x5C, CHR ''r'']
      else if n = 9 then [CHR 0x5C, CHR ''t'']
      else if n = 12 then [CHR 0x5C, CHR ''f'']
      else if n = 8 then [CHR 0x5C, CHR ''b'']
      else if 32 \<le> n \<and> n \<le> 126 then [c]
      else [CHR 0x5C, CHR ''u'', CHR ''0'', CHR ''0''] @ byte_hex (of_nat n))"

definition json_string :: "string \<Rightarrow> string" where
  "json_string s = [CHR ''\"''] @ concat (map json_escape_char s) @ [CHR ''\"'']"

fun join_with :: "string \<Rightarrow> string list \<Rightarrow> string" where
  "join_with sep [] = []"
| "join_with sep [x] = x"
| "join_with sep (x # y # xs) = x @ sep @ join_with sep (y # xs)"

fun json_dumps :: "(rat \<Rightarrow> string) \<Rightarrow> json \<Rightarrow> string" where
  "json_dumps frepr JNull = ''null''"
| "json_dumps frepr (JBool b) = (if b then ''true'' else ''false'')"
| "json_dumps frepr (JInt i) = decimal i"
| "json_dumps frepr (JFloat r) = frepr r"
| "json_dumps frepr (JStr s) = json_string s"
| "json_dumps frepr (JArr xs) = ''['' @ join_with '', '' (map (json_dumps frepr) xs) @ '']''"
| "json_dumps frepr (JObj fs) =
     ''{'' @ join_with '', '' (map (\<lambda>(k, v). json_string k @ '': '' @ json_dumps frepr v) fs) @ ''}''"

subsection \<open>UUIDs survive the wire\<close>

lemma remove_sub_absent: "p = c # p' \<Longrightarrow> c \<notin> set s \<Longrightarrow> remove_sub p s = s"
  by (induction p s rule: remove_sub.induct) auto

lemma strip_set_absent: "\<forall>c \<in> set s. \<not> P c \<Longrightarrow> strip_set P s = s"
proof -
  assume a: "\<forall>c \<in> set s. \<not> P c"
  have "dropWhile P r = r" if "\<forall>c \<in> set r. \<not> P c" for r
    using that by (cases r) auto
  from this [of s] this [of "rev s"] a show ?thesis by (simp add: strip_set_def)
qed

lemma digits16_byte: "digits16 b acc (byte_hex w @ cs) = digits16 True (acc * 256 + unat w) cs"
proof -
  have "unat w div 16 < 16" "unat w mod 16 < 16" using unat_byte_less [of w] by auto
  moreover have "(acc * 16 + unat w div 16) * 16 + unat w mod 16 = acc * 256 + unat w" by simp
  ultimately show ?thesis by (simp add: byte_hex_def hex_value_digit ac_simps)
qed

lemma hex_simps: "hex [] = []" "hex (w # bs) = byte_hex w @ hex bs"
  by (simp_all add: hex_def)

lemma digits16_hex:
  "bs \<noteq> [] \<Longrightarrow> digits16 b acc (hex bs) = Some (foldl (\<lambda>a w. a * 256 + unat w) acc bs)"
proof (induction bs arbitrary: b acc)
  case (Cons w bs)
  have "digits16 b acc (hex (w # bs)) = digits16 True (acc * 256 + unat w) (hex bs)"
    by (simp only: hex_simps digits16_byte)
  with Cons.IH [of True "acc * 256 + unat w"] show ?case by (cases "bs = []") (simp_all add: hex_simps)
qed simp

lemma foldl_be_bytes: "foldl (\<lambda>a w. a * 256 + unat w) acc (be_bytes k n) = acc * 256 ^ k + n mod 256 ^ k"
proof (induction k arbitrary: acc)
  case (Suc k)
  have "unat (of_nat (n div 256 ^ k) :: byte) = n div 256 ^ k mod 256"
    by (simp add: unat_of_nat)
  moreover have "be_bytes (Suc k) n = of_nat (n div 256 ^ k) # be_bytes k n"
    by (simp add: be_bytes_def)
  moreover have "n mod 256 ^ Suc k = n div 256 ^ k mod 256 * 256 ^ k + n mod 256 ^ k"
    by (metis add.commute mod_mult2_eq mult.commute power_Suc2)
  ultimately show ?case using Suc by (simp add: algebra_simps)
qed (simp add: be_bytes_def)

lemma length_be_bytes [simp]: "length (be_bytes k n) = k"
  by (simp add: be_bytes_def)

lemma length_hex [simp]: "length (hex bs) = 2 * length bs"
  by (induction bs) (simp_all add: hex_def byte_hex_def)

lemma int16_hex: "bs \<noteq> [] \<Longrightarrow> int16 (hex bs) = Some (int (foldl (\<lambda>a w. a * 256 + unat w) 0 bs))"
proof -
  assume bs: "bs \<noteq> []"
  obtain c d cs where h: "hex bs = c # d # cs"
    using bs by (cases bs) (auto simp: hex_def byte_hex_def)
  have codes: "of_char e \<in> {48..57} \<union> {97..102 :: nat}" if "e \<in> set (hex bs)" for e
    using hex_codes [OF that] .
  have strip: "strip_set is_py_space (hex bs) = hex bs"
    using codes by (intro strip_set_absent) (fastforce simp: is_py_space_def Let_def)
  have "c \<noteq> CHR ''-''" "c \<noteq> CHR ''+''" "d \<noteq> CHR ''x''" "d \<noteq> CHR ''X''"
    using codes [of c] codes [of d] h by auto
  then show ?thesis
    using strip digits16_hex [OF bs, of False 0] by (simp add: int16_def unsigned16_def h)
qed

lemma uuid_str_hyphens: "filter (\<lambda>c. c \<noteq> CHR ''-'') (uuid_str u) = uuid_hex u"
proof -
  let ?h = "uuid_hex u" let ?f = "filter (\<lambda>c. c \<noteq> CHR ''-'')"
  have "CHR ''-'' \<notin> set ?h" using hex_codes by (fastforce simp: uuid_hex_def)
  then have f: "?f s = s" if "set s \<subseteq> set ?h" for s
    using that by (auto simp: filter_id_conv)
  have t: "?f (take n (drop m ?h)) = take n (drop m ?h)" "?f (drop m ?h) = drop m ?h"
    "?f (take n ?h) = take n ?h" for n m
    by (auto intro!: f dest: in_set_takeD in_set_dropD)
  have d: "take n (drop m ?h) @ drop (n + m) ?h = drop m ?h" for n m
    by (metis append_take_drop_id drop_drop)
  have "take 8 ?h @ take 4 (drop 8 ?h) @ take 4 (drop 12 ?h) @ take 4 (drop 16 ?h) @ drop 20 ?h = ?h"
    using d [of 4 16] d [of 4 12] d [of 4 8] append_take_drop_id [of 8 ?h] by simp
  then show ?thesis by (simp add: uuid_str_def Let_def t)
qed

lemma uuid_str_chars:
  "c \<in> set (uuid_str u) \<Longrightarrow> of_char c \<in> {48..57} \<union> {97..102 :: nat} \<or> c = CHR ''-''"
  using hex_codes [of c "be_bytes 16 (unat u)"]
  by (auto simp: uuid_str_def Let_def uuid_hex_def dest!: in_set_takeD in_set_dropD)

theorem uuid_parse_str: "uuid_parse (uuid_str u) = Some u"
proof -
  have abs: "CHR ''u'' \<notin> set (uuid_str u)" "\<forall>c \<in> set (uuid_str u). c \<notin> {CHR ''{'', CHR ''}''}"
    using uuid_str_chars [of "CHR ''u''" u] uuid_str_chars [of "CHR ''{''" u]
      uuid_str_chars [of "CHR ''}''" u] by auto
  have n: "unat u < 256 ^ 16" using unsigned_less [of u] by simp
  have "be_bytes 16 (unat u) \<noteq> []" by (simp add: be_bytes_def)
  then have "int16 (uuid_hex u) = Some (int (unat u))"
    using n by (simp add: uuid_hex_def int16_hex foldl_be_bytes)
  moreover have "length (uuid_hex u) = 32" by (simp add: uuid_hex_def)
  moreover have "int (unat u) < 2 ^ 128" using unsigned_less [of u, where ?'a = int] by simp
  ultimately show ?thesis
    using abs by (simp add: uuid_parse_def remove_sub_absent [OF refl] strip_set_absent uuid_str_hyphens)
qed

lemma uuid_str_inject: "uuid_str u = uuid_str v \<Longrightarrow> u = v"
  by (metis option.inject uuid_parse_str)

end
