(* ===== verification/AttemptEvents.thy ===== *)
theory AttemptEvents
  imports Domain Wire
begin

section \<open>Outcomes of attempts and the live feed\<close>

text \<open>
  \<open>OutboundHttpResult\<close> of \<open>relay/infra/http_sender.py\<close>, the metric label of
  \<open>relay/infra/metrics.py\<close>, and \<open>relay/infra/attempt_events.py\<close>: the event published for each
  outcome and the Redis Pub/Sub channel of its tenant. A subscription sees, of everything
  published while it is open, the messages on its channel in their order.
\<close>

record outbound_http_result =
  o_latency_ms :: int
  o_status_code :: "int option"
  o_error_class :: "attempt_error_class option"
  o_response_snippet :: "string option"

definition succeeded :: "outbound_http_result \<Rightarrow> bool" where
  "succeeded r \<longleftrightarrow>
     o_error_class r = None \<and> (case o_status_code r of None \<Rightarrow> False | Some c \<Rightarrow> 200 \<le> c \<and> c < 300)"

definition attempt_outcome_label :: "bool \<Rightarrow> bool \<Rightarrow> string option \<Rightarrow> string" where
  "attempt_outcome_label ok exhausted error_class =
     (if ok then ''success''
      else if exhausted then ''exhausted''
      else case error_class of
             Some e \<Rightarrow> if e = ''ssrf_blocked'' \<or> e = ''timeout'' then e else ''retry''
           | None \<Rightarrow> ''retry'')"

record attempt_event =
  ae_delivery_id :: uuid
  ae_endpoint_id :: uuid
  ae_event_id :: uuid
  ae_attempt_no :: "nat option"
  ae_delivery_state :: string
  ae_latency_ms :: int
  ae_response_status :: "int option"
  ae_error_class :: "string option"
  ae_next_retry_at :: "timestamp option"
  ae_breaker_state :: string
  ae_created_at :: timestamp
  ae_request_headers :: "(string \<times> string) list option"

definition opt_json :: "('a \<Rightarrow> json) \<Rightarrow> 'a option \<Rightarrow> json" where
  "opt_json f x = (case x of None \<Rightarrow> JNull | Some y \<Rightarrow> f y)"

definition event_json :: "attempt_event \<Rightarrow> json" where
  "event_json e =
     JObj [(''delivery_id'', JStr (uuid_str (ae_delivery_id e))),
           (''endpoint_id'', JStr (uuid_str (ae_endpoint_id e))),
           (''event_id'', JStr (uuid_str (ae_event_id e))),
           (''attempt_no'', opt_json (\<lambda>n. JInt (int n)) (ae_attempt_no e)),
           (''delivery_state'', JStr (ae_delivery_state e)),
           (''latency_ms'', JInt (ae_latency_ms e)),
           (''response_status'', opt_json JInt (ae_response_status e)),
           (''error_class'', opt_json JStr (ae_error_class e)),
           (''next_retry_at'', opt_json (\<lambda>t. JStr (isoformat t)) (ae_next_retry_at e)),
           (''breaker_state'', JStr (ae_breaker_state e)),
           (''created_at'', JStr (isoformat (ae_created_at e))),
           (''request_headers'', opt_json (\<lambda>h. JObj (map (\<lambda>(k, v). (k, JStr v)) h)) (ae_request_headers e))]"

definition to_json :: "attempt_event \<Rightarrow> string" where
  "to_json e = json_dumps (\<lambda>_. []) (event_json e)"

definition ATTEMPT_CHANNEL_PREFIX :: string where
  "ATTEMPT_CHANNEL_PREFIX = ''relay:attempts:tenant:''"

definition channel :: "uuid \<Rightarrow> string" where
  "channel tenant_id = ATTEMPT_CHANNEL_PREFIX @ uuid_str tenant_id"

definition publish_attempt_event :: "uuid \<Rightarrow> attempt_event \<Rightarrow> string \<times> string" where
  "publish_attempt_event tenant_id e = (channel tenant_id, to_json e)"

text \<open>What Redis hands a subscription, with the confirmation that \<open>listen\<close> yields first.\<close>

datatype pubsub_message = Confirmation string | Message string string

definition pubsub_listen :: "string \<Rightarrow> (string \<times> string) list \<Rightarrow> pubsub_message list" where
  "pubsub_listen chan published =
     Confirmation chan # map (\<lambda>(c, data). Message c data) (filter (\<lambda>(c, data). c = chan) published)"

definition subscribe_attempt_events :: "uuid \<Rightarrow> (string \<times> string) list \<Rightarrow> string list" where
  "subscribe_attempt_events tenant_id published =
     concat (map (\<lambda>m. case m of Confirmation _ \<Rightarrow> [] | Message _ data \<Rightarrow> [data])
       (pubsub_listen (channel tenant_id) published))"

lemma channel_inject [simp]: "channel t = channel u \<longleftrightarrow> t = u"
  using uuid_str_inject by (auto simp: channel_def)

subsection \<open>Properties\<close>

text \<open>
  The live feed is isolated by tenant: a subscription yields exactly the events published for
  its own tenant while it is open, in their order, and never one of another tenant.
\<close>

theorem feed_is_isolated_by_tenant:
  "subscribe_attempt_events t (map (\<lambda>(u, e). publish_attempt_event u e) es) =
     map (\<lambda>(u, e). to_json e) (filter (\<lambda>(u, e). u = t) es)"
  by (induction es)
     (auto simp: subscribe_attempt_events_def pubsub_listen_def publish_attempt_event_def)

end
