(* ===== verification/DeliveryAttempts.thy ===== *)
theory DeliveryAttempts
  imports UnitOfWork Breaker Backoff Signing AttemptEvents
begin

section \<open>One delivery attempt\<close>

text \<open>
  \<open>relay/services/deliveries/service.py\<close>: \<open>DeliveryAttemptService.attempt\<close>. What the call draws
  from outside is one record: the clock at the decision, the server's clock for the new row and
  the clock at publication, the random draw of the backoff, the identifier of the new row, the
  rendering of floats, and the HTTP sender, which may itself raise. The body returns the
  delivery and what it publishes after the commit.
\<close>

record attempt_env =
  en_now :: timestamp
  en_created_at :: timestamp
  en_published_at :: timestamp
  en_draw :: rat
  en_attempt_id :: uuid
  en_frepr :: "rat \<Rightarrow> string"
  en_send :: "string \<Rightarrow> byte list \<Rightarrow> (string \<times> string) list \<Rightarrow> error + outbound_http_result"

definition REQUEST_SNIPPET_MAX_LEN :: nat where "REQUEST_SNIPPET_MAX_LEN = 2048"

definition liftT :: "error + 'a \<Rightarrow> 'a tx" where
  "liftT r = (case r of Inl e \<Rightarrow> raiseT e | Inr x \<Rightarrow> returnT x)"

definition cooldown :: "settings \<Rightarrow> duration" where
  "cooldown cfg = timedelta_seconds (breaker_cooldown_seconds cfg)"

definition request_payload :: "attempt_env \<Rightarrow> event \<Rightarrow> byte list" where
  "request_payload env ev = encode (json_dumps (en_frepr env) (ev_payload ev))"

definition request_headers :: "attempt_env \<Rightarrow> event \<Rightarrow> endpoint \<Rightarrow> uuid \<Rightarrow> (string \<times> string) list" where
  "request_headers env ev ep delivery_id =
     (let timestamp = unix_seconds (en_now env) in
      [(''Content-Type'', ''application/json''),
       (''X-Relay-Signature'', sign (ep_secret ep) timestamp (request_payload env ev)),
       (''X-Relay-Timestamp'', decimal timestamp),
       (''X-Relay-Delivery-Id'', uuid_str delivery_id)])"

definition attempt_publication ::
  "attempt_env \<Rightarrow> delivery \<Rightarrow> breaker_state \<Rightarrow> nat option \<Rightarrow> int \<Rightarrow> int option \<Rightarrow>
   attempt_error_class option \<Rightarrow> (string \<times> string) list option \<Rightarrow> attempt_event" where
  "attempt_publication env d breaker attempt_no latency_ms response_status error_class headers =
     \<lparr>ae_delivery_id = d_id d, ae_endpoint_id = d_endpoint_id d, ae_event_id = d_event_id d,
      ae_attempt_no = attempt_no, ae_delivery_state = delivery_state_value (d_state d),
      ae_latency_ms = latency_ms, ae_response_status = response_status,
      ae_error_class = map_option error_class_value error_class,
      ae_next_retry_at = d_next_retry_at d, ae_breaker_state = breaker_state_value breaker,
      ae_created_at = en_published_at env, ae_request_headers = headers\<rparr>"

text \<open>The branch that defers without sending.\<close>

definition defer_open_breaker ::
  "settings \<Rightarrow> attempt_env \<Rightarrow> delivery \<Rightarrow> event \<Rightarrow> endpoint \<Rightarrow> (delivery \<times> uuid \<times> attempt_event) tx" where
  "defer_open_breaker cfg env d ev ep =
     bindT (requireT (AssertionError ''endpoint.opened_at is not None'') (ep_opened_at ep)) (\<lambda>opened_at.
     bindT (repoT (deliveries_reschedule (d_id d) (opened_at + cooldown cfg))) (\<lambda>d'.
     bindT uow_commit (\<lambda>_.
     returnT (d', ev_tenant_id ev,
       attempt_publication env d' (ep_breaker_state ep) None 0 None None None))))"

text \<open>The delivery's next state: delivered, dead with the budget spent, or a retry after the backoff.\<close>

definition finish ::
  "settings \<Rightarrow> timestamp \<Rightarrow> rat \<Rightarrow> bool \<Rightarrow> delivery \<Rightarrow> delivery tx" where
  "finish cfg now draw ok d =
     (if ok then repoT (deliveries_mark_delivered (d_id d))
      else if delivery_max_attempts cfg \<le> d_attempt_count d + 1 then repoT (deliveries_mark_dead (d_id d))
      else bindT (liftT (compute_backoff_seconds (int (d_attempt_count d))
                          DEFAULT_BASE_SECONDS DEFAULT_CAP_SECONDS draw)) (\<lambda>x.
           repoT (deliveries_mark_retrying (d_id d) (now + timedelta_seconds x))))"

text \<open>An open breaker whose cooldown is over probes half-open.\<close>

definition flip_half_open :: "endpoint \<Rightarrow> endpoint tx" where
  "flip_half_open ep =
     (if ep_breaker_state ep = OPEN
      then set_breaker_state (ep_id ep) HALF_OPEN (ep_opened_at ep) else returnT ep)"

text \<open>The branch that sends, from the half-open flip to the commit.\<close>

definition send_and_record ::
  "settings \<Rightarrow> attempt_env \<Rightarrow> delivery \<Rightarrow> event \<Rightarrow> endpoint \<Rightarrow> (delivery \<times> uuid \<times> attempt_event) tx" where
  "send_and_record cfg env d ev ep0 =
     bindT (flip_half_open ep0) (\<lambda>ep.
     let payload = request_payload env ev; headers = request_headers env ev ep (d_id d) in
     bindT (liftT (en_send env (ep_url ep) payload headers)) (\<lambda>result.
     let transition = next_breaker_state (ep_breaker_state ep) (ep_consecutive_failures ep)
                        (en_now env) (succeeded result) (breaker_failure_threshold cfg) in
     bindT (record_delivery_outcome (ep_id ep) (bt_state transition)
              (bt_consecutive_failures transition) (bt_opened_at transition)) (\<lambda>_.
     let attempt_no = d_attempt_count d + 1 in
     bindT (repoT (delivery_attempts_create (en_attempt_id env) (en_created_at env) (d_id d)
              attempt_no (o_latency_ms result) (o_status_code result) (o_error_class result)
              (Some (map (\<lambda>b. char_of (unat b)) (take REQUEST_SNIPPET_MAX_LEN payload)))
              (o_response_snippet result) (Some headers))) (\<lambda>_.
     let exhausted = delivery_max_attempts cfg \<le> attempt_no in
     bindT (finish cfg (en_now env) (en_draw env) (succeeded result) d) (\<lambda>d'.
     bindT (count_attempt (attempt_outcome_label (succeeded result) exhausted
              (map_option error_class_value (o_error_class result)))) (\<lambda>_.
     bindT uow_commit (\<lambda>_.
     returnT (d', ev_tenant_id ev,
       attempt_publication env d' (bt_state transition) (Some attempt_no) (o_latency_ms result)
         (o_status_code result) (o_error_class result) (Some headers)))))))))"

definition attempt_body ::
  "settings \<Rightarrow> attempt_env \<Rightarrow> uuid \<Rightarrow> (delivery \<times> uuid \<times> attempt_event) tx" where
  "attempt_body cfg env delivery_id =
     bindT (readT (deliveries_get delivery_id)) (\<lambda>d0.
     bindT (requireT (NotFoundError delivery_id) d0) (\<lambda>d.
     bindT (readT (events_get (d_event_id d))) (\<lambda>ev0.
     bindT (requireT (NotFoundError (d_event_id d)) ev0) (\<lambda>ev.
     bindT (readT (endpoints_get (d_endpoint_id d))) (\<lambda>ep0.
     bindT (requireT (NotFoundError (d_endpoint_id d)) ep0) (\<lambda>ep.
     if should_skip_for_open_breaker (ep_breaker_state ep) (ep_opened_at ep) (en_now env) (cooldown cfg)
     then defer_open_breaker cfg env d ev ep
     else send_and_record cfg env d ev ep))))))"

definition attempt ::
  "settings \<Rightarrow> attempt_env \<Rightarrow> uuid \<Rightarrow> store \<Rightarrow> (error + delivery) \<times> store \<times> (string \<times> string) list" where
  "attempt cfg env delivery_id st =
     (case with_uow (attempt_body cfg env delivery_id) st of
        (Inl e, st') \<Rightarrow> (Inl e, st', [])
      | (Inr (d, tenant_id, event), st') \<Rightarrow> (Inr d, st', [publish_attempt_event tenant_id event]))"

subsection \<open>What an attempt does to the rows\<close>

definition breaker_of :: "endpoint \<Rightarrow> breaker_transition" where
  "breaker_of ep = \<lparr>bt_state = ep_breaker_state ep, bt_consecutive_failures = ep_consecutive_failures ep,
                    bt_opened_at = ep_opened_at ep\<rparr>"

definition with_breaker :: "breaker_transition \<Rightarrow> endpoint \<Rightarrow> endpoint" where
  "with_breaker b ep = ep\<lparr>ep_breaker_state := bt_state b,
     ep_consecutive_failures := bt_consecutive_failures b, ep_opened_at := bt_opened_at b\<rparr>"

definition after_attempt :: "settings \<Rightarrow> timestamp \<Rightarrow> rat \<Rightarrow> bool \<Rightarrow> delivery \<Rightarrow> delivery" where
  "after_attempt cfg now draw ok d =
     (if ok then set_delivered d
      else if delivery_max_attempts cfg \<le> d_attempt_count d + 1 then set_dead d
      else set_retrying (now + backoff_delay (d_attempt_count d) draw) d)"

definition attempt_row ::
  "attempt_env \<Rightarrow> event \<Rightarrow> endpoint \<Rightarrow> delivery \<Rightarrow> outbound_http_result \<Rightarrow> delivery_attempt" where
  "attempt_row env ev ep d res =
     \<lparr>a_id = en_attempt_id env, a_delivery_id = d_id d, a_attempt_no = d_attempt_count d + 1,
      a_latency_ms = o_latency_ms res, a_created_at = en_created_at env,
      a_response_status = o_status_code res, a_error_class = o_error_class res,
      a_request_snippet = Some (map (\<lambda>b. char_of (unat b))
        (take REQUEST_SNIPPET_MAX_LEN (request_payload env ev))),
      a_response_snippet = o_response_snippet res,
      a_request_headers = Some (request_headers env ev ep (d_id d))\<rparr>"

definition after_sent_db ::
  "settings \<Rightarrow> attempt_env \<Rightarrow> delivery \<Rightarrow> event \<Rightarrow> endpoint \<Rightarrow> outbound_http_result \<Rightarrow> db \<Rightarrow> db" where
  "after_sent_db cfg env d ev ep res s =
     s\<lparr>db_endpoints := update_by ep_id (ep_id ep)
          (with_breaker (breaker_after (breaker_failure_threshold cfg) (breaker_of ep) (en_now env) (succeeded res)))
          (db_endpoints s),
       db_attempts := db_attempts s @ [attempt_row env ev ep d res],
       db_deliveries := update_by d_id (d_id d)
          (after_attempt cfg (en_now env) (en_draw env) (succeeded res)) (db_deliveries s)\<rparr>"

definition found :: "db \<Rightarrow> uuid \<Rightarrow> delivery \<Rightarrow> event \<Rightarrow> endpoint \<Rightarrow> bool" where
  "found s i d ev ep \<longleftrightarrow> deliveries_get i s = Some d \<and> events_get (d_event_id d) s = Some ev \<and>
     endpoints_get (d_endpoint_id d) s = Some ep"

definition skips :: "settings \<Rightarrow> attempt_env \<Rightarrow> endpoint \<Rightarrow> bool" where
  "skips cfg env ep \<longleftrightarrow>
     should_skip_for_open_breaker (ep_breaker_state ep) (ep_opened_at ep) (en_now env) (cooldown cfg)"

lemma found_ids: "found s i d ev ep \<Longrightarrow> d_id d = i \<and> ep_id ep = d_endpoint_id d \<and> ev_id ev = d_event_id d"
  by (auto simp: found_def deliveries_get_def events_get_def endpoints_get_def dest!: find_by_SomeD)

lemma update_by_update_by:
  "(\<And>r. key (g r) = key r) \<Longrightarrow> update_by key k f (update_by key k g rows) = update_by key k (\<lambda>r. f (g r)) rows"
  by (simp add: update_by_def)

lemma update_by_cong:
  "(\<And>r. r \<in> set rows \<Longrightarrow> key r = k \<Longrightarrow> f r = g r) \<Longrightarrow> update_by key k f rows = update_by key k g rows"
  by (auto simp: update_by_def)

lemma find_by_update_same:
  "find_by key k rows = Some r \<Longrightarrow> (\<And>r. key (f r) = key r) \<Longrightarrow> find_by key k (update_by key k f rows) = Some (f r)"
  by (simp add: find_by_update_by)

lemma with_uow_attempt_not_found:
  assumes "\<nexists>d ev ep. found (st_db st) i d ev ep"
  shows "\<exists>j. attempt cfg env i st = (Inl (NotFoundError j), st, [])"
proof (cases "deliveries_get i (st_db st)")
  case None
  then show ?thesis by (simp add: attempt_def attempt_body_def with_uow_def tx_simps)
next
  case (Some d)
  show ?thesis
  proof (cases "events_get (d_event_id d) (st_db st)")
    case None
    with Some show ?thesis by (simp add: attempt_def attempt_body_def with_uow_def tx_simps)
  next
    case ev: (Some ev)
    with Some assms have "endpoints_get (d_endpoint_id d) (st_db st) = None"
      by (auto simp: found_def)
    with Some ev show ?thesis by (simp add: attempt_def attempt_body_def with_uow_def tx_simps)
  qed
qed

lemma attempt_found:
  assumes "found (st_db st) i d ev ep"
  shows "attempt cfg env i st =
    (case with_uow (if skips cfg env ep then defer_open_breaker cfg env d ev ep
                    else send_and_record cfg env d ev ep) st of
       (Inl e, st') \<Rightarrow> (Inl e, st', [])
     | (Inr (d, tenant_id, event), st') \<Rightarrow> (Inr d, st', [publish_attempt_event tenant_id event]))"
  using assms
  by (simp add: attempt_def attempt_body_def with_uow_def tx_simps found_def skips_def)

lemma attempt_skipped:
  assumes "found (st_db st) i d ev ep" "skips cfg env ep"
  shows "\<exists>opened pub. ep_opened_at ep = Some opened \<and> en_now env < opened + cooldown cfg \<and>
    attempt cfg env i st =
      (Inr (set_rescheduled (opened + cooldown cfg) d),
       st\<lparr>st_db := st_db st\<lparr>db_deliveries :=
             update_by d_id i (set_rescheduled (opened + cooldown cfg)) (db_deliveries (st_db st))\<rparr>\<rparr>, [pub])"
proof -
  obtain opened where o': "ep_opened_at ep = Some opened" "en_now env < opened + cooldown cfg"
    using assms(2) by (auto simp: skips_def should_skip_iff)
  have "deliveries_reschedule i (opened + cooldown cfg) (st_db st) =
      Inr (set_rescheduled (opened + cooldown cfg) d, st_db st\<lparr>db_deliveries :=
             update_by d_id i (set_rescheduled (opened + cooldown cfg)) (db_deliveries (st_db st))\<rparr>)"
    using assms(1) by (simp add: deliveries_reschedule_def deliveries_modify_Inr found_def)
  moreover have "uow_exit ((uow_enter st)\<lparr>se_pending := x, st_db := x\<rparr>) = st\<lparr>st_db := x\<rparr>" for x
    by (simp add: uow_exit_def uow_rollback_def uow_enter_def store.defs session.defs)
  ultimately show ?thesis
    using o' found_ids [OF assms(1)] assms(2)
    by (simp add: attempt_found [OF assms(1)] with_uow_def defer_open_breaker_def tx_simps)
qed

lemma uow_exit_run:
  "uow_exit ((uow_enter st)\<lparr>se_pending := x, st_breaker_gauge := g, st_attempts_total := l, st_db := y\<rparr>) =
     st\<lparr>st_db := y, st_breaker_gauge := g, st_attempts_total := l\<rparr>"
  by (simp add: uow_exit_def uow_rollback_def uow_enter_def store.defs session.defs)

lemma endpoints_modify_found:
  "endpoints_get k s = Some ep \<Longrightarrow>
   endpoints_modify k f s = Inr (f ep, s\<lparr>db_endpoints := update_by ep_id k f (db_endpoints s)\<rparr>)"
  by (simp add: endpoints_modify_Inr)

lemma deliveries_modify_found:
  "deliveries_get k s = Some d \<Longrightarrow>
   deliveries_modify k f s = Inr (f d, s\<lparr>db_deliveries := update_by d_id k f (db_deliveries s)\<rparr>)"
  by (simp add: deliveries_modify_Inr)

text \<open>The rows while the attempt runs: the flip to half-open, if the breaker was open.\<close>

definition probing :: "endpoint \<Rightarrow> endpoint" where
  "probing ep = (if ep_breaker_state ep = OPEN then ep\<lparr>ep_breaker_state := HALF_OPEN\<rparr> else ep)"

lemma probing_sel [simp]:
  "ep_id (probing ep) = ep_id ep" "ep_secret (probing ep) = ep_secret ep" "ep_url (probing ep) = ep_url ep"
  "ep_breaker_state (probing ep) = probe_state (ep_breaker_state ep)"
  "ep_consecutive_failures (probing ep) = ep_consecutive_failures ep"
  by (simp_all add: probing_def probe_state_def)

lemma flip_eval:
  assumes "endpoints_get (ep_id ep) (se_pending s) = Some ep"
  shows "\<exists>es g. flip_half_open ep s =
     (Inr (probing ep), s\<lparr>se_pending := se_pending s\<lparr>db_endpoints := es\<rparr>, st_breaker_gauge := g\<rparr>) \<and>
     find_by ep_id (ep_id ep) es = Some (probing ep) \<and>
     (\<forall>b. update_by ep_id (ep_id ep) (with_breaker b) es =
          update_by ep_id (ep_id ep) (with_breaker b) (db_endpoints (se_pending s)))"
proof (cases "ep_breaker_state ep = OPEN")
  case True
  let ?f = "\<lambda>m. m\<lparr>ep_breaker_state := HALF_OPEN, ep_opened_at := ep_opened_at ep\<rparr>"
  have flip: "?f ep = probing ep" "probing ep\<lparr>ep_opened_at := ep_opened_at ep\<rparr> = probing ep"
    using True by (simp_all add: probing_def)
  have "find_by ep_id (ep_id ep) (update_by ep_id (ep_id ep) ?f (db_endpoints (se_pending s))) = Some (probing ep)"
    using find_by_update_same [of ep_id "ep_id ep" _ ep ?f] assms by (simp add: endpoints_get_def flip(1))
  moreover have "update_by ep_id (ep_id ep) (with_breaker b) (update_by ep_id (ep_id ep) ?f es) =
      update_by ep_id (ep_id ep) (with_breaker b) es" for b es
    by (subst update_by_update_by) (simp_all add: with_breaker_def [abs_def])
  ultimately show ?thesis
    using True assms flip
    by (intro exI [of _ "update_by ep_id (ep_id ep) ?f (db_endpoints (se_pending s))"]
        exI [of _ "(ep_id ep, HALF_OPEN) # st_breaker_gauge s"])
       (simp add: flip_half_open_def set_breaker_state_def endpoints_set_breaker_state_def endpoints_modify_found tx_simps)
next
  case False
  then show ?thesis
    using assms
    by (intro exI [of _ "db_endpoints (se_pending s)"] exI [of _ "st_breaker_gauge s"])
       (simp add: flip_half_open_def returnT_def probing_def endpoints_get_def)
qed

lemma compute_backoff_default:
  "compute_backoff_seconds (int n) DEFAULT_BASE_SECONDS DEFAULT_CAP_SECONDS draw = Inr x \<Longrightarrow>
   timedelta_seconds x = backoff_delay n draw"
  by (simp add: backoff_delay_def)

lemma distinct_row:
  "distinct (map key rows) \<Longrightarrow> find_by key k rows = Some d \<Longrightarrow> r \<in> set rows \<Longrightarrow> key r = k \<Longrightarrow> r = d"
  by (simp add: find_by_distinct)

lemma update_by_row:
  "distinct (map key rows) \<Longrightarrow> find_by key k rows = Some d \<Longrightarrow> f d = g d \<Longrightarrow>
   update_by key k f rows = update_by key k g rows"
  by (rule update_by_cong) (metis distinct_row)

lemma finish_eval:
  assumes "deliveries_get (d_id d) (se_pending s) = Some d"
    and "distinct (map d_id (db_deliveries (se_pending s)))"
  shows "finish cfg now draw ok d s =
     (Inr (after_attempt cfg now draw ok d),
      s\<lparr>se_pending := se_pending s\<lparr>db_deliveries :=
          update_by d_id (d_id d) (after_attempt cfg now draw ok) (db_deliveries (se_pending s))\<rparr>\<rparr>)"
proof -
  obtain x where x: "compute_backoff_seconds (int (d_attempt_count d)) DEFAULT_BASE_SECONDS
      DEFAULT_CAP_SECONDS draw = Inr x"
    by (simp add: compute_backoff_seconds_def)
  let ?rows = "db_deliveries (se_pending s)"
  have row: "update_by d_id (d_id d) g ?rows = update_by d_id (d_id d) (after_attempt cfg now draw ok) ?rows"
    if "after_attempt cfg now draw ok d = g d" for g
    using assms that [symmetric] by (intro update_by_row) (simp_all add: deliveries_get_def)
  have modify: "repoT (deliveries_modify (d_id d) g) s = (Inr (after_attempt cfg now draw ok d),
      s\<lparr>se_pending := se_pending s\<lparr>db_deliveries :=
         update_by d_id (d_id d) (after_attempt cfg now draw ok) ?rows\<rparr>\<rparr>)"
    if "after_attempt cfg now draw ok d = g d" for g
    using row [of g] that by (simp add: repoT_def deliveries_modify_found [OF assms(1)])
  show ?thesis
    using modify [of set_delivered] modify [of set_dead]
      modify [of "set_retrying (now + backoff_delay (d_attempt_count d) draw)"] compute_backoff_default [OF x]
    by (simp add: finish_def x liftT_def deliveries_ops tx_simps after_attempt_def)
qed

lemma bindT_run: "m s = (Inr x, s') \<Longrightarrow> bindT m k s = k x s'"
  by (simp add: bindT_def)

lemma attempt_sent:
  assumes "found (st_db st) i d ev ep" "\<not> skips cfg env ep" "distinct (map d_id (db_deliveries (st_db st)))"
    and send: "en_send env (ep_url ep) (request_payload env ev) (request_headers env ev ep i) = Inr res"
    and new: "en_attempt_id env \<notin> a_id ` set (db_attempts (st_db st))"
  shows "\<exists>g pub. attempt cfg env i st =
    (Inr (after_attempt cfg (en_now env) (en_draw env) (succeeded res) d),
     st\<lparr>st_db := after_sent_db cfg env d ev ep res (st_db st),
         st_breaker_gauge := (ep_id ep, bt_state (breaker_after (breaker_failure_threshold cfg)
            (breaker_of ep) (en_now env) (succeeded res))) # g,
         st_attempts_total := attempt_outcome_label (succeeded res)
            (delivery_max_attempts cfg \<le> d_attempt_count d + 1)
            (map_option error_class_value (o_error_class res)) # st_attempts_total st\<rparr>, [pub])"
proof -
  note ids = found_ids [OF assms(1)]
  let ?s = "uow_enter st"
  let ?b = "breaker_after (breaker_failure_threshold cfg) (breaker_of ep) (en_now env) (succeeded res)"
  have "endpoints_get (ep_id ep) (se_pending ?s) = Some ep"
    using assms(1) ids by (simp add: found_def)
  from flip_eval [OF this] obtain es g where
    flip: "flip_half_open ep ?s =
       (Inr (probing ep), ?s\<lparr>se_pending := st_db st\<lparr>db_endpoints := es\<rparr>, st_breaker_gauge := g\<rparr>)"
    and probe: "find_by ep_id (ep_id ep) es = Some (probing ep)"
    and es: "\<And>b. update_by ep_id (ep_id ep) (with_breaker b) es =
       update_by ep_id (ep_id ep) (with_breaker b) (db_endpoints (st_db st))"
    by auto
  have nxt: "next_breaker_state (probe_state (ep_breaker_state ep)) (ep_consecutive_failures ep)
      (en_now env) (succeeded res) (breaker_failure_threshold cfg) = ?b"
    by (simp add: breaker_after_def breaker_of_def)
  have rec: "endpoints_record_delivery_outcome (ep_id ep) (bt_state ?b) (bt_consecutive_failures ?b)
        (bt_opened_at ?b) (st_db st\<lparr>db_endpoints := es\<rparr>) =
      Inr (with_breaker ?b (probing ep), st_db st\<lparr>db_endpoints :=
          update_by ep_id (ep_id ep) (with_breaker ?b) (db_endpoints (st_db st))\<rparr>)"
    using probe es [of ?b]
    by (simp add: endpoints_record_delivery_outcome_def endpoints_modify_found endpoints_get_def
        with_breaker_def [abs_def])
  have row: "delivery_attempts_create (en_attempt_id env) (en_created_at env) i (d_attempt_count d + 1)
      (o_latency_ms res) (o_status_code res) (o_error_class res)
      (Some (map (\<lambda>b. char_of (unat b)) (take REQUEST_SNIPPET_MAX_LEN (request_payload env ev))))
      (o_response_snippet res) (Some (request_headers env ev ep i)) s0 =
      Inr (attempt_row env ev ep d res, s0\<lparr>db_attempts := db_attempts s0 @ [attempt_row env ev ep d res]\<rparr>)"
    if "db_attempts s0 = db_attempts (st_db st)" "db_deliveries s0 = db_deliveries (st_db st)" for s0
    using that new assms(1) ids
    by (auto simp: delivery_attempts_create_def attempt_row_def found_def deliveries_get_def Let_def dest: find_by_SomeD)
  have fin: "finish cfg (en_now env) (en_draw env) (succeeded res) d s1 =
     (Inr (after_attempt cfg (en_now env) (en_draw env) (succeeded res) d),
      s1\<lparr>se_pending := se_pending s1\<lparr>db_deliveries :=
          update_by d_id i (after_attempt cfg (en_now env) (en_draw env) (succeeded res))
            (db_deliveries (st_db st))\<rparr>\<rparr>)"
    if "db_deliveries (se_pending s1) = db_deliveries (st_db st)" for s1
  proof -
    have "deliveries_get (d_id d) (se_pending s1) = Some d" "distinct (map d_id (db_deliveries (se_pending s1)))"
      using that assms(1,3) ids by (simp_all add: found_def deliveries_get_def)
    note f = finish_eval [OF this, where cfg = cfg and now = "en_now env" and draw = "en_draw env" and ok = "succeeded res"]
    have i: "d_id d = i" using ids by simp
    show ?thesis by (rule f [unfolded that i])
  qed
  have hdr: "request_headers env ev (probing ep) j = request_headers env ev ep j" for j
    by (simp add: request_headers_def)
  let ?l = "attempt_outcome_label (succeeded res) (delivery_max_attempts cfg \<le> d_attempt_count d + 1)
      (map_option error_class_value (o_error_class res))"
  let ?db = "after_sent_db cfg env d ev ep res (st_db st)"
  obtain pub s' where run: "send_and_record cfg env d ev ep ?s =
     (Inr (after_attempt cfg (en_now env) (en_draw env) (succeeded res) d, ev_tenant_id ev, pub), s')"
    and s': "st_db s' = ?db" "st_breaker_gauge s' = (ep_id ep, bt_state ?b) # g"
      "st_attempts_total s' = ?l # st_attempts_total st"
    unfolding send_and_record_def bindT_run [where m = "flip_half_open ep", OF flip]
    using send row fin ids rec
    by (simp add: hdr Let_def liftT_def record_delivery_outcome_def nxt tx_simps
        bindT_run [where m = "finish cfg (en_now env) (en_draw env) (succeeded res) d", OF fin]
        after_sent_db_def)
  have "uow_exit s' = st\<lparr>st_db := ?db, st_breaker_gauge := (ep_id ep, bt_state ?b) # g,
      st_attempts_total := ?l # st_attempts_total st\<rparr>"
    by (rule store.equality) (simp_all add: s')
  with run show ?thesis
    by (intro exI [of _ g] exI [of _ "publish_attempt_event (ev_tenant_id ev) pub"])
       (simp add: attempt_found [OF assms(1)] assms(2) with_uow_def)
qed

text \<open>Everything that raises inside an attempt does so before the commit.\<close>

lemma uncommitted_parts [keeps_intros]:
  "uncommitted (flip_half_open ep)" "uncommitted (liftT r)" "uncommitted (finish cfg now draw ok d)"
  "uncommitted (record_delivery_outcome i b n op)"
  unfolding flip_half_open_def set_breaker_state_def record_delivery_outcome_def finish_def liftT_def
  by (auto intro!: keeps_intros split: sum.splits)

lemma errors_uncommitted_send: "errors_uncommitted (send_and_record cfg env d ev ep)"
  unfolding send_and_record_def Let_def by (intro errors_uncommitted_intros(2,3) keeps_intros)

lemma errors_uncommitted_defer: "errors_uncommitted (defer_open_breaker cfg env d ev ep)"
  unfolding defer_open_breaker_def by (intro errors_uncommitted_intros keeps_intros)

lemma errors_uncommitted_body: "errors_uncommitted (attempt_body cfg env i)"
  unfolding attempt_body_def
  by (intro errors_uncommitted_intros(2,4) keeps_intros errors_uncommitted_send errors_uncommitted_defer)

lemma attempt_error:
  assumes "attempt cfg env i st = (Inl e, st', pubs)"
  shows "st_db st' = st_db st \<and> pubs = []"
proof -
  have "with_uow (attempt_body cfg env i) st = (Inl e, st')" "pubs = []"
    using assms by (auto simp: attempt_def split: prod.splits sum.splits)
  with with_uow_error [OF errors_uncommitted_body] show ?thesis by blast
qed

lemma send_raises:
  assumes "found (st_db st) i d ev ep" "\<not> skips cfg env ep"
    and "en_send env (ep_url ep) (request_payload env ev) (request_headers env ev ep i) = Inl e"
  shows "\<exists>st'. attempt cfg env i st = (Inl e, st', [])"
proof -
  note ids = found_ids [OF assms(1)]
  have "endpoints_get (ep_id ep) (se_pending (uow_enter st)) = Some ep"
    using assms(1) ids by (simp add: found_def)
  from flip_eval [OF this] obtain s' where
    flip: "flip_half_open ep (uow_enter st) = (Inr (probing ep), s')" by blast
  have "request_headers env ev (probing ep) (d_id d) = request_headers env ev ep i"
    using ids by (simp add: request_headers_def)
  then have "send_and_record cfg env d ev ep (uow_enter st) = (Inl e, s')"
    unfolding send_and_record_def bindT_run [where m = "flip_half_open ep", OF flip]
    using assms(3) by (simp add: Let_def liftT_def tx_simps)
  then show ?thesis by (simp add: attempt_found [OF assms(1)] assms(2) with_uow_def)
qed

lemma id_taken:
  assumes "found (st_db st) i d ev ep" "\<not> skips cfg env ep"
    and "en_attempt_id env \<in> a_id ` set (db_attempts (st_db st))"
  shows "\<exists>e st'. attempt cfg env i st = (Inl e, st', []) \<and> (e = IntegrityError \<or>
    en_send env (ep_url ep) (request_payload env ev) (request_headers env ev ep i) = Inl e)"
proof (cases "en_send env (ep_url ep) (request_payload env ev) (request_headers env ev ep i)")
  case (Inl e)
  then show ?thesis using send_raises [OF assms(1,2)] by blast
next
  case (Inr res)
  note ids = found_ids [OF assms(1)]
  have "endpoints_get (ep_id ep) (se_pending (uow_enter st)) = Some ep"
    using assms(1) ids by (simp add: found_def)
  from flip_eval [OF this] obtain es g where
    flip: "flip_half_open ep (uow_enter st) =
       (Inr (probing ep), (uow_enter st)\<lparr>se_pending := st_db st\<lparr>db_endpoints := es\<rparr>, st_breaker_gauge := g\<rparr>)"
    and es: "find_by ep_id (ep_id ep) es = Some (probing ep)"
    by auto
  have hdr: "request_headers env ev (probing ep) j = request_headers env ev ep j" for j
    by (simp add: request_headers_def)
  have get: "endpoints_get (d_endpoint_id d) (st_db st\<lparr>db_endpoints := es\<rparr>) = Some (probing ep)"
    using es ids by (simp add: endpoints_get_def)
  have taken: "delivery_attempts_create (en_attempt_id env) now d' n l sc ec rs ps rh s0 = Inl IntegrityError"
    if "db_attempts s0 = db_attempts (st_db st)" for now d' n l sc ec rs ps rh s0
    using that assms(3) by (simp add: delivery_attempts_create_def)
  have "\<exists>s'. send_and_record cfg env d ev ep (uow_enter st) = (Inl IntegrityError, s')"
    unfolding send_and_record_def bindT_run [where m = "flip_half_open ep", OF flip]
    using Inr ids
    by (simp add: hdr Let_def liftT_def tx_simps record_delivery_outcome_def
        endpoints_record_delivery_outcome_def endpoints_modify_found [OF get] taken)
  then show ?thesis by (auto simp: attempt_found [OF assms(1)] assms(2) with_uow_def)
qed

text \<open>The three ways an attempt ends.\<close>

lemma attempt_cases:
  assumes "db_ok (st_db st)" "attempt cfg env i st = (r, st', pubs)"
  obtains (failed) e where "r = Inl e" "st_db st' = st_db st" "pubs = []"
  | (deferred) d ev ep opened where "found (st_db st) i d ev ep" "skips cfg env ep"
      "ep_opened_at ep = Some opened" "en_now env < opened + cooldown cfg"
      "r = Inr (set_rescheduled (opened + cooldown cfg) d)"
      "st_db st' = st_db st\<lparr>db_deliveries :=
         update_by d_id i (set_rescheduled (opened + cooldown cfg)) (db_deliveries (st_db st))\<rparr>"
  | (sent) d ev ep res where "found (st_db st) i d ev ep" "\<not> skips cfg env ep"
      "en_send env (ep_url ep) (request_payload env ev) (request_headers env ev ep i) = Inr res"
      "en_attempt_id env \<notin> a_id ` set (db_attempts (st_db st))"
      "r = Inr (after_attempt cfg (en_now env) (en_draw env) (succeeded res) d)"
      "st_db st' = after_sent_db cfg env d ev ep res (st_db st)"
proof (cases r)
  case (Inl e)
  with failed attempt_error assms(2) show ?thesis by blast
next
  case (Inr d0)
  have dist: "distinct (map d_id (db_deliveries (st_db st)))" using assms(1) by (simp add: db_ok_def)
  show ?thesis
  proof (cases "\<exists>d ev ep. found (st_db st) i d ev ep")
    case False
    with with_uow_attempt_not_found [of st i cfg env] Inr assms(2) show ?thesis by auto
  next
    case True
    then obtain d ev ep where f: "found (st_db st) i d ev ep" by blast
    show ?thesis
    proof (cases "skips cfg env ep")
      case True
      with attempt_skipped [OF f True] assms(2) deferred [OF f True] show ?thesis by auto
    next
      case no: False
      obtain res where res: "en_send env (ep_url ep) (request_payload env ev) (request_headers env ev ep i) = Inr res"
        using send_raises [OF f no] Inr assms(2)
        by (cases "en_send env (ep_url ep) (request_payload env ev) (request_headers env ev ep i)") auto
      have "en_attempt_id env \<notin> a_id ` set (db_attempts (st_db st))"
        using id_taken [OF f no] Inr assms(2) by auto
      with sent [OF f no res] attempt_sent [OF f no dist res] assms(2) show ?thesis by auto
    qed
  qed
qed

text \<open>With the foreign keys in place, an attempt says not found only of an absent delivery.\<close>

lemma find_by_member: "k \<in> key ` set rows \<Longrightarrow> \<exists>r. find_by key k rows = Some r"
  by (cases "find_by key k rows") (auto simp: find_by_None_iff)

lemma found_delivery:
  assumes "db_ok s" "deliveries_get i s = Some d"
  shows "\<exists>ev ep. found s i d ev ep"
proof -
  have "d \<in> set (db_deliveries s)"
    using assms(2) by (auto simp: deliveries_get_def dest: find_by_SomeD)
  then have "d_event_id d \<in> ev_id ` set (db_events s)" "d_endpoint_id d \<in> ep_id ` set (db_endpoints s)"
    using assms(1) by (auto simp: db_ok_def)
  then show ?thesis
    using assms(2) find_by_member by (metis endpoints_get_def events_get_def found_def)
qed

lemma attempt_not_found:
  assumes "db_ok (st_db st)" "attempt cfg env i st = (Inl (NotFoundError k), st', pubs)"
    and "\<And>u p h j. en_send env u p h \<noteq> Inl (NotFoundError j)"
  shows "deliveries_get i (st_db st) = None"
proof (rule ccontr)
  assume "deliveries_get i (st_db st) \<noteq> None"
  then obtain d ev ep where f: "found (st_db st) i d ev ep"
    using found_delivery [OF assms(1)] by blast
  have dist: "distinct (map d_id (db_deliveries (st_db st)))" using assms(1) by (simp add: db_ok_def)
  show False
  proof (cases "skips cfg env ep")
    case True
    with attempt_skipped [OF f True] assms(2) show False by auto
  next
    case no: False
    show False
    proof (cases "en_send env (ep_url ep) (request_payload env ev) (request_headers env ev ep i)")
      case (Inl e)
      with send_raises [OF f no] assms(2,3) show False by auto
    next
      case (Inr res)
      with id_taken [OF f no] attempt_sent [OF f no dist Inr] assms(2) show False by fastforce
    qed
  qed
qed

subsection \<open>The invariant of the rows\<close>

definition delivery_ok :: "settings \<Rightarrow> delivery \<Rightarrow> bool" where
  "delivery_ok cfg d \<longleftrightarrow>
     (case d_state d of
        PENDING \<Rightarrow> d_attempt_count d = 0 \<and> d_next_retry_at d = None
      | DELIVERED \<Rightarrow> 0 < d_attempt_count d \<and> d_next_retry_at d = None
      | RETRYING \<Rightarrow> d_next_retry_at d \<noteq> None
      | DEAD \<Rightarrow> 0 < d_attempt_count d \<and> delivery_max_attempts cfg \<le> d_attempt_count d \<and>
          d_next_retry_at d = None)"

definition rows_ok :: "settings \<Rightarrow> db \<Rightarrow> bool" where
  "rows_ok cfg s \<longleftrightarrow>
     (\<forall>d \<in> set (db_deliveries s). delivery_ok cfg d) \<and>
     (\<forall>ep \<in> set (db_endpoints s). breaker_ok (breaker_failure_threshold cfg) (breaker_of ep))"

lemma delivery_ok_sets:
  "delivery_ok cfg (after_attempt cfg now draw ok d)" "delivery_ok cfg (set_rescheduled t d)"
  "delivery_ok cfg (set_replayed d)"
  by (simp_all add: delivery_ok_def after_attempt_def row_sets)

lemma after_attempt_keep [simp]:
  "d_id (after_attempt cfg now draw ok d) = d_id d"
  "d_event_id (after_attempt cfg now draw ok d) = d_event_id d"
  "d_endpoint_id (after_attempt cfg now draw ok d) = d_endpoint_id d"
  by (simp_all add: after_attempt_def)

lemma with_breaker_keep [simp]:
  "ep_id (with_breaker b ep) = ep_id ep" "ep_tenant_id (with_breaker b ep) = ep_tenant_id ep"
  "breaker_of (with_breaker b ep) = b"
  by (simp_all add: with_breaker_def breaker_of_def)

lemma db_ok_after_sent:
  assumes "db_ok s" "found s i d ev ep" "en_attempt_id env \<notin> a_id ` set (db_attempts s)"
  shows "db_ok (after_sent_db cfg env d ev ep res s)"
proof -
  have "d_id d \<in> d_id ` set (db_deliveries s)"
    using assms(2) by (auto simp: found_def deliveries_get_def dest: find_by_SomeD)
  with assms(1,3) show ?thesis
    by (simp add: db_ok_def after_sent_db_def map_other_update_by attempt_row_def)
qed

lemma db_ok_update_delivery:
  "db_ok s \<Longrightarrow> (\<And>d. d_id (f d) = d_id d \<and> d_event_id (f d) = d_event_id d \<and> d_endpoint_id (f d) = d_endpoint_id d) \<Longrightarrow>
   db_ok (s\<lparr>db_deliveries := update_by d_id i f (db_deliveries s)\<rparr>)"
  by (simp add: db_ok_def map_other_update_by)

lemma rows_ok_update_delivery:
  "rows_ok cfg s \<Longrightarrow> (\<And>d. delivery_ok cfg (f d)) \<Longrightarrow>
   rows_ok cfg (s\<lparr>db_deliveries := update_by d_id i f (db_deliveries s)\<rparr>)"
  by (auto simp: rows_ok_def dest!: set_update_byD)

lemma rows_ok_after_sent:
  assumes "rows_ok cfg s" "found s i d ev ep" "0 < breaker_failure_threshold cfg"
  shows "rows_ok cfg (after_sent_db cfg env d ev ep res s)"
proof -
  have "ep \<in> set (db_endpoints s)"
    using assms(2) by (auto simp: found_def endpoints_get_def dest: find_by_SomeD)
  then have "breaker_ok (breaker_failure_threshold cfg)
      (breaker_after (breaker_failure_threshold cfg) (breaker_of ep) (en_now env) (succeeded res))"
    using assms(1,3) by (intro breaker_after_ok) (auto simp: rows_ok_def)
  with assms(1) show ?thesis
    by (auto simp: rows_ok_def after_sent_db_def delivery_ok_sets dest!: set_update_byD)
qed

lemma attempt_keeps_rows:
  assumes "0 < breaker_failure_threshold cfg" "db_ok (st_db st)" "rows_ok cfg (st_db st)"
    and "attempt cfg env i st = (r, st', pubs)"
  shows "db_ok (st_db st') \<and> rows_ok cfg (st_db st')"
  using assms(2,4)
proof (cases rule: attempt_cases)
  case (deferred d ev ep opened)
  then show ?thesis
    using assms by (simp add: db_ok_update_delivery rows_ok_update_delivery delivery_ok_sets)
next
  case (sent d ev ep res)
  then show ?thesis
    using assms db_ok_after_sent [OF assms(2) sent(1,4)] rows_ok_after_sent [OF assms(3) sent(1) assms(1)]
    by simp
qed (use assms in simp)

lemma endpoints_after_sent:
  assumes "db_ok s" "found s i d ev ep"
  shows "endpoints_get j (after_sent_db cfg env d ev ep res s) =
    (if j = d_endpoint_id d
     then Some (with_breaker (breaker_after (breaker_failure_threshold cfg) (breaker_of ep) (en_now env)
                  (succeeded res)) ep)
     else endpoints_get j s)"
  using assms found_ids [OF assms(2)]
  by (auto simp: endpoints_get_def after_sent_db_def find_by_update_by found_def)

lemma deliveries_after_sent:
  assumes "db_ok s" "found s i d ev ep"
  shows "deliveries_get j (after_sent_db cfg env d ev ep res s) =
    (if j = i then Some (after_attempt cfg (en_now env) (en_draw env) (succeeded res) d)
     else deliveries_get j s)"
  using assms found_ids [OF assms(2)]
  by (auto simp: deliveries_get_def after_sent_db_def find_by_update_by found_def)

definition demo_delivery :: delivery where
  "demo_delivery = \<lparr>d_id = 9, d_event_id = 7, d_endpoint_id = 3, d_state = PENDING,
     d_attempt_count = 0, d_created_at = 5, d_next_retry_at = None\<rparr>"

definition demo_endpoint :: endpoint where
  "demo_endpoint = \<lparr>ep_id = 3, ep_tenant_id = 1, ep_url = ''https://example.com/hook'',
     ep_secret = ''s3cret'', ep_event_types = [''order.paid''], ep_created_at = 2,
     ep_status = ACTIVE, ep_breaker_state = CLOSED, ep_opened_at = None, ep_consecutive_failures = 0\<rparr>"

definition demo_event :: event where
  "demo_event = \<lparr>ev_id = 7, ev_tenant_id = 1, ev_type = ''order.paid'', ev_payload = JObj [],
     ev_idempotency_key = ''k1'', ev_created_at = 4, ev_correlation_id = Some ''trace''\<rparr>"

definition demo_sending :: store where
  "demo_sending =
     \<lparr>st_db = \<lparr>db_tenants = [\<lparr>t_id = 1, t_name = ''acme'', t_created_at = 0, t_deleted_at = None,
                              t_is_sandbox = False\<rparr>],
               db_api_keys = [], db_endpoints = [demo_endpoint], db_events = [demo_event],
               db_outbox = [], db_deliveries = [demo_delivery], db_attempts = []\<rparr>,
      st_breaker_gauge = [], st_attempts_total = []\<rparr>"

definition answers :: "error + outbound_http_result \<Rightarrow> attempt_env" where
  "answers r = \<lparr>en_now = 1000000, en_created_at = 1000001, en_published_at = 1000002, en_draw = 1 / 2,
     en_attempt_id = 77, en_frepr = (\<lambda>_. []), en_send = (\<lambda>_ _ _. r)\<rparr>"

definition status_result :: "int \<Rightarrow> outbound_http_result" where
  "status_result c = \<lparr>o_latency_ms = 12, o_status_code = Some c,
     o_error_class = (if 200 \<le> c \<and> c < 300 then None else Some HTTP_ERROR), o_response_snippet = None\<rparr>"

lemmas demo_defs = demo_delivery_def demo_endpoint_def demo_event_def demo_sending_def

lemma demo_sending_ok:
  "db_ok (st_db demo_sending)" "rows_ok default_settings (st_db demo_sending)"
  "found (st_db demo_sending) 9 demo_delivery demo_event demo_endpoint"
  "\<not> skips cfg env demo_endpoint"
  by (simp_all add: demo_defs db_ok_def rows_ok_def delivery_ok_def breaker_ok_def breaker_of_def
      default_settings_def found_def deliveries_get_def events_get_def endpoints_get_def skips_def should_skip_iff)

lemma demo_sel:
  "en_draw (answers r) = 1 / 2" "en_attempt_id (answers r) = 77" "db_attempts (st_db demo_sending) = []"
  "d_attempt_count demo_delivery = 0" "\<not> succeeded (status_result 500)" "succeeded (status_result 200)"
  "delivery_max_attempts default_settings = 8" "breaker_failure_threshold default_settings = 5"
  by (simp_all add: answers_def demo_defs status_result_def succeeded_def default_settings_def)

subsection \<open>Properties\<close>




definition demo_open :: store where
  "demo_open = demo_sending\<lparr>st_db := (st_db demo_sending)\<lparr>db_endpoints :=
     [demo_endpoint\<lparr>ep_breaker_state := OPEN, ep_opened_at := Some 900000, ep_consecutive_failures := 5\<rparr>]\<rparr>\<rparr>"


text \<open>
  C8. The invariant of the rows: whatever an attempt meets (a missing row, an open breaker, a sender
  that raises, any outcome), the database stays well-formed, every delivery's columns stay
  consistent with its state, and every breaker's with its own.
\<close>

theorem attempt_keeps_invariants:
  assumes "0 < breaker_failure_threshold cfg" and "db_ok (st_db st)" and "rows_ok cfg (st_db st)"
  shows "db_ok (st_db (fst (snd (attempt cfg env i st)))) \<and> rows_ok cfg (st_db (fst (snd (attempt cfg env i st))))"
  using attempt_keeps_rows [OF assms, of env i] by (cases "attempt cfg env i st") auto

theorem attempt_keeps_invariants_witness:
  "rows_ok default_settings
     (st_db (fst (snd (attempt default_settings (answers (Inr (status_result 500))) 9 demo_sending))))"
  using attempt_keeps_invariants [OF _ demo_sending_ok(1,2)] by (simp add: demo_sel)

text \<open>
  C16. A failed call leaves no trace: if the attempt raises, because a row is missing, the sender
  raised or the new identifier was taken, the database is what it was and nothing is published,
  so the message can be processed again.
\<close>

theorem attempt_raising_changes_nothing:
  assumes "fst (attempt cfg env i st) = Inl e"
  shows "st_db (fst (snd (attempt cfg env i st))) = st_db st \<and> snd (snd (attempt cfg env i st)) = []"
  using attempt_error assms by (cases "attempt cfg env i st") auto

theorem attempt_raising_changes_nothing_witness:
  "st_db (fst (snd (attempt default_settings (answers (Inl (ValueError ''Port out of range 0-65535''))) 9 demo_sending))) =
     st_db demo_sending"
proof -
  let ?e = "ValueError ''Port out of range 0-65535''"
  have "fst (attempt default_settings (answers (Inl ?e)) 9 demo_sending) = Inl ?e"
  proof -
    have "en_send (answers (Inl ?e)) u p h = Inl ?e" for u p h by (simp add: answers_def)
    from send_raises [OF demo_sending_ok(3,4) this, of default_settings] show ?thesis by auto
  qed
  from attempt_raising_changes_nothing [OF this] show ?thesis by simp
qed

text \<open>
  The life of one chain: from a store, attempts on delivery \<open>i\<close> that fail or are deferred, each
  made while the delivery is not dead; \<open>n\<close> counts the requests that were sent.
\<close>

inductive failing_chain :: "settings \<Rightarrow> uuid \<Rightarrow> store \<Rightarrow> nat \<Rightarrow> store \<Rightarrow> bool" for cfg i st where
  start: "failing_chain cfg i st 0 st"
| fails: "failing_chain cfg i st n st' \<Longrightarrow> found (st_db st') i d ev ep \<Longrightarrow> d_state d \<noteq> DEAD \<Longrightarrow>
    \<not> skips cfg env ep \<Longrightarrow>
    en_send env (ep_url ep) (request_payload env ev) (request_headers env ev ep i) = Inr res \<Longrightarrow>
    \<not> succeeded res \<Longrightarrow> attempt cfg env i st' = (Inr d', st'', pubs) \<Longrightarrow> failing_chain cfg i st (Suc n) st''"
| deferred: "failing_chain cfg i st n st' \<Longrightarrow> found (st_db st') i d ev ep \<Longrightarrow> d_state d \<noteq> DEAD \<Longrightarrow>
    skips cfg env ep \<Longrightarrow> attempt cfg env i st' = (Inr d', st'', pubs) \<Longrightarrow> failing_chain cfg i st n st''"

inductive_cases failing_chain_cases: "failing_chain cfg i st n st'"

definition chain_inv :: "settings \<Rightarrow> uuid \<Rightarrow> nat \<Rightarrow> db \<Rightarrow> bool" where
  "chain_inv cfg i n s \<longleftrightarrow> db_ok s \<and>
     (\<exists>d. deliveries_get i s = Some d \<and> d_attempt_count d = n \<and> d_state d \<noteq> DELIVERED \<and>
        (d_state d = DEAD \<longleftrightarrow> 0 < n \<and> delivery_max_attempts cfg \<le> n) \<and>
        n \<le> max 1 (delivery_max_attempts cfg))"

lemma failing_chain_inv:
  assumes "failing_chain cfg i st n st'" "db_ok (st_db st)" "deliveries_get i (st_db st) = Some d0"
    and "d_state d0 = PENDING" "d_attempt_count d0 = 0"
  shows "chain_inv cfg i n (st_db st')"
  using assms(1)
proof induction
  case start
  then show ?case using assms by (simp add: chain_inv_def)
next
  case (fails n st' d ev ep env res d' st'' pubs)
  have ok: "db_ok (st_db st')" and d: "deliveries_get i (st_db st') = Some d"
    using fails.IH fails.hyps(2) by (auto simp: chain_inv_def found_def)
  have n: "d_attempt_count d = n" "\<not> (0 < n \<and> delivery_max_attempts cfg \<le> n)"
    using fails.IH fails.hyps(3) d by (auto simp: chain_inv_def)
  from ok fails.hyps(7) show ?case
  proof (cases rule: attempt_cases)
    case (sent d1 ev1 ep1 res1)
    then have "d1 = d" "ep1 = ep" "ev1 = ev" "res1 = res"
      using fails.hyps(2,5) by (auto simp: found_def)
    with sent fails.hyps(6) n ok db_ok_after_sent [OF ok sent(1,4)] deliveries_after_sent [OF ok sent(1)]
    show ?thesis by (auto simp: chain_inv_def after_attempt_def row_sets)
  qed (use fails.hyps in \<open>auto simp: found_def\<close>)
next
  case (deferred n st' d ev ep env d' st'' pubs)
  have ok: "db_ok (st_db st')" and d: "deliveries_get i (st_db st') = Some d"
    using deferred.IH deferred.hyps(2) by (auto simp: chain_inv_def found_def)
  from ok deferred.hyps(5) show ?case
  proof (cases rule: attempt_cases)
    case (deferred d1 ev1 ep1 opened)
    have "d1 = d" using deferred(1) d by (simp add: found_def)
    have get: "deliveries_get i (st_db st'') = Some (set_rescheduled (opened + cooldown cfg) d)"
      using d deferred(6) find_by_update_same [of d_id i "db_deliveries (st_db st')" d]
      by (simp add: deliveries_get_def)
    have "db_ok (st_db st'')" unfolding deferred(6) by (rule db_ok_update_delivery [OF ok]) simp
    with get deferred.IH d \<open>d_state d \<noteq> DEAD\<close> show ?thesis
      by (auto simp: chain_inv_def row_sets)
  qed (use deferred.hyps in \<open>auto simp: found_def\<close>)
qed

text \<open>
  C7. The retry budget is exact: a fresh delivery whose attempts keep failing is dead after exactly
  \<open>delivery_max_attempts\<close> requests and not one earlier, never receives another request as long as
  dead deliveries are left alone, and deferrals by an open breaker are not counted.
\<close>

theorem retry_budget_is_exact:
  assumes "failing_chain cfg i st n st'" and "db_ok (st_db st)"
    and "deliveries_get i (st_db st) = Some d0" and "d_state d0 = PENDING" and "d_attempt_count d0 = 0"
    and "0 < delivery_max_attempts cfg"
  shows "n \<le> delivery_max_attempts cfg \<and>
    (\<exists>d. deliveries_get i (st_db st') = Some d \<and> d_attempt_count d = n \<and>
       (d_state d = DEAD \<longleftrightarrow> n = delivery_max_attempts cfg))"
  using failing_chain_inv [OF assms(1-5)] assms(6) by (auto simp: chain_inv_def)

theorem retry_budget_is_exact_witness:
  "\<exists>st'. failing_chain default_settings 9 demo_sending 1 st' \<and>
     (\<exists>d. deliveries_get 9 (st_db st') = Some d \<and> d_attempt_count d = 1 \<and> d_state d \<noteq> DEAD)"
proof -
  let ?env = "answers (Inr (status_result 500))"
  have send: "en_send ?env u p h = Inr (status_result 500)" for u p h by (simp add: answers_def)
  have "distinct (map d_id (db_deliveries (st_db demo_sending)))" by (simp add: demo_defs)
  from attempt_sent [OF demo_sending_ok(3,4) this send] obtain d' st' pub where
    "attempt default_settings ?env 9 demo_sending = (Inr d', st', [pub])"
    by (fastforce simp: demo_sel)
  then have chain: "failing_chain default_settings 9 demo_sending 1 st'"
    using failing_chain.fails [OF failing_chain.start demo_sending_ok(3) _ demo_sending_ok(4) send]
    by (simp add: demo_sel demo_delivery_def)
  have "deliveries_get 9 (st_db demo_sending) = Some demo_delivery" using demo_sending_ok(3) by (simp add: found_def)
  from retry_budget_is_exact [OF chain demo_sending_ok(1) this] chain show ?thesis
    by (auto simp: demo_sel demo_delivery_def)
qed

text \<open>
  An attempt never looks at the delivery's state: processing a duplicate message of a delivered
  delivery sends the request again, and if that one fails the delivery goes back to retrying, or
  to dead if its count has reached the budget.
\<close>

theorem duplicate_message_reopens_a_delivered_delivery:
  assumes "db_ok (st_db st)" and "found (st_db st) i d ev ep" and "d_state d = DELIVERED"
    and "\<not> skips cfg env ep"
    and "en_send env (ep_url ep) (request_payload env ev) (request_headers env ev ep i) = Inr res"
    and "\<not> succeeded res" and "en_attempt_id env \<notin> a_id ` set (db_attempts (st_db st))"
  shows "\<exists>d' st' pubs. attempt cfg env i st = (Inr d', st', pubs) \<and> d_state d' \<in> {RETRYING, DEAD} \<and>
           deliveries_get i (st_db st') = Some d'"
proof -
  have "distinct (map d_id (db_deliveries (st_db st)))" using assms(1) by (simp add: db_ok_def)
  from attempt_sent [OF assms(2,4) this assms(5,7)] deliveries_after_sent [OF assms(1,2)] assms(6)
  show ?thesis by (fastforce simp: after_attempt_def row_sets)
qed

theorem duplicate_message_reopens_a_delivered_delivery_witness:
  "\<exists>d' st' pubs. attempt default_settings (answers (Inr (status_result 500))) 9
      (demo_sending\<lparr>st_db := (st_db demo_sending)\<lparr>db_deliveries := [set_delivered demo_delivery]\<rparr>\<rparr>) =
      (Inr d', st', pubs) \<and> d_state d' \<in> {RETRYING, DEAD} \<and> deliveries_get 9 (st_db st') = Some d'"
proof -
  let ?st = "demo_sending\<lparr>st_db := (st_db demo_sending)\<lparr>db_deliveries := [set_delivered demo_delivery]\<rparr>\<rparr>"
  have send: "en_send (answers (Inr (status_result 500))) u p h = Inr (status_result 500)" for u p h
    by (simp add: answers_def)
  have f: "db_ok (st_db ?st)" "found (st_db ?st) 9 (set_delivered demo_delivery) demo_event demo_endpoint"
    by (simp_all add: demo_defs db_ok_def found_def deliveries_get_def events_get_def endpoints_get_def row_sets)
  have s: "d_state (set_delivered demo_delivery) = DELIVERED" by (simp add: row_sets)
  from duplicate_message_reopens_a_delivered_delivery [OF f s demo_sending_ok(4) send]
  show ?thesis by (simp add: demo_sel)
qed

end
