(* ===== verification/Streams.thy ===== *)
theory Streams
  imports Domain Wire
begin

section \<open>The delivery stream and its consumer group\<close>

text \<open>
  \<open>relay/infra/streams.py\<close> on the Redis Streams commands it issues: \<open>XADD\<close>, \<open>XGROUP CREATE\<close>,
  \<open>XREADGROUP\<close> with \<open>>\<close>, \<open>XACK\<close>, \<open>XAUTOCLAIM\<close> from \<open>0-0\<close>, \<open>XLEN\<close> and \<open>XPENDING\<close>. A stream is its
  entries in order, the last identifier it generated, the group's last-delivered identifier
  (\<open>None\<close> before the group exists) and the group's pending entries in identifier order. Clocks
  are the server's milliseconds. The 64-bit bound of sequence numbers is not modelled.
\<close>

datatype message_id = MessageId nat nat

instantiation message_id :: linorder
begin

fun less_eq_message_id :: "message_id \<Rightarrow> message_id \<Rightarrow> bool" where
  "less_eq_message_id (MessageId a i) (MessageId b j) \<longleftrightarrow> a < b \<or> a = b \<and> i \<le> j"

definition less_message_id :: "message_id \<Rightarrow> message_id \<Rightarrow> bool" where
  "less_message_id x y \<longleftrightarrow> x \<le> y \<and> \<not> y \<le> (x :: message_id)"

instance
proof
  fix x y z :: message_id
  show "(x < y) = (x \<le> y \<and> \<not> y \<le> x)" by (simp add: less_message_id_def)
  show "x \<le> x" by (cases x) simp
  show "x \<le> y \<Longrightarrow> y \<le> z \<Longrightarrow> x \<le> z" by (cases x; cases y; cases z) auto
  show "x \<le> y \<Longrightarrow> y \<le> x \<Longrightarrow> x = y" by (cases x; cases y) auto
  show "x \<le> y \<or> y \<le> x" by (cases x; cases y) auto
qed

end

record entry =
  e_id :: message_id
  e_fields :: "(string \<times> string) list"

record pending_entry =
  p_id :: message_id
  p_consumer :: string
  p_delivered_ms :: nat
  p_count :: nat

record redis_stream =
  x_entries :: "entry list"
  x_last :: message_id
  x_group :: "message_id option"
  x_pel :: "pending_entry list"

record delivery_message =
  m_id :: message_id
  m_delivery_id :: uuid
  m_correlation_id :: "string option"

definition empty_stream :: redis_stream where
  "empty_stream = \<lparr>x_entries = [], x_last = MessageId 0 0, x_group = None, x_pel = []\<rparr>"

definition DELIVERY_ID_FIELD :: string where "DELIVERY_ID_FIELD = ''delivery_id''"
definition CORRELATION_ID_FIELD :: string where "CORRELATION_ID_FIELD = ''correlation_id''"

subsection \<open>Operations\<close>

definition ensure_consumer_group :: "redis_stream \<Rightarrow> redis_stream" where
  "ensure_consumer_group s =
     (case x_group s of Some g \<Rightarrow> s | None \<Rightarrow> s\<lparr>x_group := Some (MessageId 0 0)\<rparr>)"

definition next_id :: "nat \<Rightarrow> message_id \<Rightarrow> message_id" where
  "next_id now_ms last_id =
     (case last_id of MessageId ms n \<Rightarrow> if ms < now_ms then MessageId now_ms 0 else MessageId ms (n + 1))"

definition delivery_fields :: "uuid \<Rightarrow> string option \<Rightarrow> (string \<times> string) list" where
  "delivery_fields delivery_id correlation_id =
     (DELIVERY_ID_FIELD, uuid_str delivery_id) #
     (case correlation_id of None \<Rightarrow> [] | Some c \<Rightarrow> [(CORRELATION_ID_FIELD, c)])"

definition enqueue_delivery ::
  "nat \<Rightarrow> uuid \<Rightarrow> string option \<Rightarrow> redis_stream \<Rightarrow> message_id \<times> redis_stream" where
  "enqueue_delivery now_ms delivery_id correlation_id s =
     (let i = next_id now_ms (x_last s)
      in (i, s\<lparr>x_entries := x_entries s @ [\<lparr>e_id = i, e_fields = delivery_fields delivery_id correlation_id\<rparr>],
               x_last := i\<rparr>))"

definition parse_entry :: "entry \<Rightarrow> error + delivery_message" where
  "parse_entry e =
     (case map_of (e_fields e) DELIVERY_ID_FIELD of
        None \<Rightarrow> Inl (KeyError DELIVERY_ID_FIELD)
      | Some t \<Rightarrow>
          (case uuid_parse t of
             None \<Rightarrow> Inl (ValueError ''badly formed hexadecimal UUID string'')
           | Some u \<Rightarrow> Inr \<lparr>m_id = e_id e, m_delivery_id = u,
                            m_correlation_id = map_of (e_fields e) CORRELATION_ID_FIELD\<rparr>))"

fun parse_entries :: "entry list \<Rightarrow> error + delivery_message list" where
  "parse_entries [] = Inr []"
| "parse_entries (e # es) =
     (if e_fields e = [] then parse_entries es
      else res_bind (parse_entry e) (\<lambda>m. res_bind (parse_entries es) (\<lambda>ms. Inr (m # ms))))"

definition unread :: "redis_stream \<Rightarrow> entry list" where
  "unread s =
     (case x_group s of None \<Rightarrow> x_entries s | Some g \<Rightarrow> filter (\<lambda>e. g < e_id e) (x_entries s))"

definition xreadgroup ::
  "nat \<Rightarrow> string \<Rightarrow> nat \<Rightarrow> redis_stream \<Rightarrow> entry list \<times> redis_stream" where
  "xreadgroup now_ms consumer count s =
     (let es = take count (unread s) in
      (es, s\<lparr>x_group := (if es = [] then x_group s else Some (e_id (last es))),
            x_pel := x_pel s @ map (\<lambda>e. \<lparr>p_id = e_id e, p_consumer = consumer,
                                        p_delivered_ms = now_ms, p_count = 1\<rparr>) es\<rparr>))"

definition read_deliveries ::
  "nat \<Rightarrow> string \<Rightarrow> nat \<Rightarrow> redis_stream \<Rightarrow> (error + delivery_message list) \<times> redis_stream" where
  "read_deliveries now_ms consumer count s =
     (if x_group s = None then (Inl (ResponseError ''NOGROUP''), s)
      else let (es, s') = xreadgroup now_ms consumer count s in (parse_entries es, s'))"

definition ack_delivery :: "message_id \<Rightarrow> redis_stream \<Rightarrow> redis_stream" where
  "ack_delivery message_id s = s\<lparr>x_pel := filter (\<lambda>p. p_id p \<noteq> message_id) (x_pel s)\<rparr>"

text \<open>
  \<open>XAUTOCLAIM\<close> walks the pending entries from the smallest identifier, at most ten times
  \<open>count\<close> of them, until \<open>count\<close> are handled: an entry whose message is gone from the stream is
  dropped, one idle for less than \<open>min_idle\<close> is passed over, any other changes hands.
\<close>

fun autoclaim ::
  "nat \<Rightarrow> string \<Rightarrow> nat \<Rightarrow> entry list \<Rightarrow> nat \<Rightarrow> nat \<Rightarrow> pending_entry list \<Rightarrow> entry list \<times> pending_entry list" where
  "autoclaim now_ms consumer min_idle_ms entries attempts count [] = ([], [])"
| "autoclaim now_ms consumer min_idle_ms entries attempts count (p # ps) =
     (if attempts = 0 \<or> count = 0 then ([], p # ps)
      else case find_by e_id (p_id p) entries of
        None \<Rightarrow> autoclaim now_ms consumer min_idle_ms entries (attempts - 1) (count - 1) ps
      | Some e \<Rightarrow>
          if now_ms - p_delivered_ms p < min_idle_ms
          then let (es, ps') = autoclaim now_ms consumer min_idle_ms entries (attempts - 1) count ps
               in (es, p # ps')
          else let (es, ps') = autoclaim now_ms consumer min_idle_ms entries (attempts - 1) (count - 1) ps
               in (e # es, p\<lparr>p_consumer := consumer, p_delivered_ms := now_ms, p_count := p_count p + 1\<rparr> # ps'))"

definition xautoclaim ::
  "nat \<Rightarrow> string \<Rightarrow> nat \<Rightarrow> nat \<Rightarrow> redis_stream \<Rightarrow> entry list \<times> redis_stream" where
  "xautoclaim now_ms consumer min_idle_ms count s =
     (let (es, ps) = autoclaim now_ms consumer min_idle_ms (x_entries s) (10 * count) count (x_pel s)
      in (es, s\<lparr>x_pel := ps\<rparr>))"

definition claim_stale_deliveries ::
  "nat \<Rightarrow> string \<Rightarrow> nat \<Rightarrow> nat \<Rightarrow> redis_stream \<Rightarrow> (error + delivery_message list) \<times> redis_stream" where
  "claim_stale_deliveries now_ms consumer min_idle_ms count s =
     (if x_group s = None then (Inl (ResponseError ''NOGROUP''), s)
      else let (es, s') = xautoclaim now_ms consumer min_idle_ms count s in (parse_entries es, s'))"

definition stream_depth :: "redis_stream \<Rightarrow> nat" where
  "stream_depth s = length (x_entries s)"

definition pending_count :: "redis_stream \<Rightarrow> error + nat" where
  "pending_count s =
     (if x_group s = None then Inl (ResponseError ''NOGROUP'') else Inr (length (x_pel s)))"

subsection \<open>Invariant\<close>

definition delivery_of :: "entry \<Rightarrow> uuid option" where
  "delivery_of e = (case parse_entry e of Inl _ \<Rightarrow> None | Inr m \<Rightarrow> Some (m_delivery_id m))"

definition stream_ok :: "redis_stream \<Rightarrow> bool" where
  "stream_ok s \<longleftrightarrow>
     sorted_wrt (<) (map e_id (x_entries s)) \<and>
     (\<forall>e \<in> set (x_entries s). e_id e \<le> x_last s \<and> MessageId 0 0 < e_id e \<and> delivery_of e \<noteq> None) \<and>
     sorted_wrt (<) (map p_id (x_pel s)) \<and>
     p_id ` set (x_pel s) \<subseteq> e_id ` set (x_entries s) \<and>
     (case x_group s of None \<Rightarrow> x_pel s = [] | Some g \<Rightarrow> g \<le> x_last s \<and> (\<forall>p \<in> set (x_pel s). p_id p \<le> g))"

text \<open>
  What the group still owes: the messages it has not read and those read but not acknowledged,
  each with the delivery it names.
\<close>

definition owed :: "redis_stream \<Rightarrow> entry \<Rightarrow> bool" where
  "owed s e \<longleftrightarrow> e \<in> set (unread s) \<or> e_id e \<in> p_id ` set (x_pel s)"

definition outstanding :: "redis_stream \<Rightarrow> (message_id \<times> uuid) set" where
  "outstanding s =
     {(i, d). \<exists>e \<in> set (x_entries s). e_id e = i \<and> delivery_of e = Some d \<and> owed s e}"

lemma outstanding_cong:
  "x_entries s' = x_entries s \<Longrightarrow> (\<And>e. e \<in> set (x_entries s) \<Longrightarrow> owed s' e = owed s e) \<Longrightarrow>
   outstanding s' = outstanding s"
  unfolding outstanding_def by auto

lemma next_id_greater: "i < next_id now i"
  by (cases i) (auto simp: next_id_def less_message_id_def)

lemma parse_enqueued [simp]:
  "parse_entry \<lparr>e_id = i, e_fields = delivery_fields d c\<rparr> =
     Inr \<lparr>m_id = i, m_delivery_id = d, m_correlation_id = c\<rparr>"
  by (simp add: parse_entry_def delivery_fields_def DELIVERY_ID_FIELD_def CORRELATION_ID_FIELD_def
      uuid_parse_str split: option.splits)

lemma delivery_of_enqueued [simp]: "delivery_of \<lparr>e_id = i, e_fields = delivery_fields d c\<rparr> = Some d"
  by (simp add: delivery_of_def)

lemma stream_ok_empty: "stream_ok empty_stream"
  by (simp add: stream_ok_def empty_stream_def)

lemma stream_ok_ensure: "stream_ok s \<Longrightarrow> stream_ok (ensure_consumer_group s)"
proof -
  have "MessageId 0 0 \<le> i" for i by (cases i) auto
  then show "stream_ok s \<Longrightarrow> stream_ok (ensure_consumer_group s)"
    by (auto simp: stream_ok_def ensure_consumer_group_def split: option.splits)
qed

lemma outstanding_ensure: "stream_ok s \<Longrightarrow> outstanding (ensure_consumer_group s) = outstanding s"
  by (auto simp: outstanding_def owed_def stream_ok_def ensure_consumer_group_def unread_def split: option.splits)

lemma stream_ok_enqueue: "stream_ok s \<Longrightarrow> stream_ok (snd (enqueue_delivery now d c s))"
proof -
  let ?i = "next_id now (x_last s)"
  have less: "x_last s < ?i" by (rule next_id_greater)
  have "MessageId 0 0 \<le> i" for i by (cases i) auto
  with less have "MessageId 0 0 < ?i" by (rule le_less_trans [rotated])
  then show "stream_ok s \<Longrightarrow> stream_ok (snd (enqueue_delivery now d c s))"
    using less
    by (fastforce simp: stream_ok_def enqueue_delivery_def Let_def sorted_wrt_append split: option.splits)
qed

lemma outstanding_enqueue:
  assumes "stream_ok s"
  shows "outstanding (snd (enqueue_delivery now d c s)) =
     insert (fst (enqueue_delivery now d c s), d) (outstanding s)"
proof -
  let ?i = "next_id now (x_last s)"
  have less: "x_last s < ?i" by (rule next_id_greater)
  have "g < ?i" if "x_group s = Some g" for g
    using assms that less by (auto simp: stream_ok_def)
  then show ?thesis
    by (auto simp: outstanding_def owed_def enqueue_delivery_def Let_def unread_def split: option.splits)
qed

lemma filter_above_last:
  assumes "sorted_wrt (<) (map key us)" "take n us \<noteq> []"
  shows "filter (\<lambda>u. key (last (take n us)) < (key u :: 'k :: linorder)) us = drop n us"
proof -
  let ?a = "take n us" and ?b = "drop n us"
  have sorted: "sorted_wrt (<) (map key (?a @ ?b))" using assms(1) by simp
  then have ab: "\<forall>x \<in> set ?a. \<forall>y \<in> set ?b. key x < key y"
    unfolding map_append sorted_wrt_append by auto
  have "\<forall>x \<in> set ?a. key x \<le> key (last ?a)"
  proof -
    obtain xs x where "?a = xs @ [x]" using assms(2) by (metis append_butlast_last_id)
    then show ?thesis using sorted by (auto simp: sorted_wrt_append less_imp_le)
  qed
  moreover have "last ?a \<in> set ?a" using assms(2) by simp
  ultimately have "filter (\<lambda>u. key (last ?a) < key u) (?a @ ?b) = ?b"
    using ab by (simp only: filter_append) (auto simp: filter_empty_conv filter_id_conv)
  then show ?thesis by simp
qed

lemma sorted_filter: "sorted_wrt R (map key xs) \<Longrightarrow> sorted_wrt R (map key (filter P xs))"
  by (induction xs) auto

lemma unread_sorted: "stream_ok s \<Longrightarrow> sorted_wrt (<) (map e_id (unread s))"
  by (auto simp: stream_ok_def unread_def sorted_filter split: option.splits)

lemma set_unread: "set (unread s) \<subseteq> set (x_entries s)"
  by (auto simp: unread_def split: option.splits)

lemma unread_above:
  "x_group s = Some g \<Longrightarrow> e \<in> set (unread s) \<longleftrightarrow> e \<in> set (x_entries s) \<and> g < e_id e"
  by (auto simp: unread_def)

text \<open>Reading splits the unread entries: the first \<open>count\<close> become pending, the rest stay unread.\<close>

lemma unread_xreadgroup:
  assumes "stream_ok s" "xreadgroup now c n s = (es, s')"
  shows "unread s' = drop n (unread s)"
proof (cases "take n (unread s) = []")
  case True
  with assms(2) have "unread s' = unread s"
    by (auto simp: xreadgroup_def Let_def unread_def split: option.splits)
  with True show ?thesis by auto
next
  case False
  let ?l = "e_id (last (take n (unread s)))"
  have u: "unread s' = filter (\<lambda>e. ?l < e_id e) (x_entries s)"
    using assms(2) False by (auto simp: xreadgroup_def Let_def unread_def)
  have "last (take n (unread s)) \<in> set (unread s)" using False by (meson in_set_takeD last_in_set)
  then have "filter (\<lambda>e. ?l < e_id e) (x_entries s) = filter (\<lambda>e. ?l < e_id e) (unread s)"
    by (auto simp: unread_def split: option.splits intro!: filter_cong)
  then show ?thesis using u filter_above_last [OF unread_sorted [OF assms(1)] False] by simp
qed

lemma xreadgroup_sel:
  assumes "xreadgroup now c n s = (es, s')"
  shows "es = take n (unread s)" "x_entries s' = x_entries s" "x_last s' = x_last s"
    "map p_id (x_pel s') = map p_id (x_pel s) @ map e_id es"
    "x_group s' = (if es = [] then x_group s else Some (e_id (last es)))"
  using assms by (auto simp: xreadgroup_def Let_def)

lemma outstanding_xreadgroup:
  assumes "stream_ok s" "xreadgroup now c n s = (es, s')"
  shows "outstanding s' = outstanding s"
proof -
  have e: "set (unread s) = set es \<union> set (unread s')"
    using unread_xreadgroup [OF assms] xreadgroup_sel(1) [OF assms(2)]
    by (metis append_take_drop_id set_append)
  have p: "p_id ` set (x_pel s') = p_id ` set (x_pel s) \<union> e_id ` set es"
    using xreadgroup_sel(4) [OF assms(2)] by (metis image_set set_append)
  have inj: "inj_on e_id (set (x_entries s))"
    using assms(1) by (simp add: stream_ok_def strict_sorted_iff distinct_map)
  have es: "set es \<subseteq> set (x_entries s)" using e set_unread [of s] by blast
  have in_es: "x \<in> set es" if x: "x \<in> set (x_entries s)" "e_id x \<in> e_id ` set es" for x
    
  proof -
    obtain y where "y \<in> set es" "e_id x = e_id y" using x(2) by blast
    then show ?thesis using inj_onD [OF inj, of x y] x(1) es by auto
  qed
  have "owed s' x = owed s x" if "x \<in> set (x_entries s)" for x
    using in_es [OF that] imageI [of x "set es" e_id] unfolding owed_def e p Un_iff by argo
  then show ?thesis by (rule outstanding_cong [OF xreadgroup_sel(2) [OF assms(2)]])
qed

lemma stream_ok_xreadgroup:
  assumes "stream_ok s" "xreadgroup now c n s = (es, s')" "x_group s \<noteq> None"
  shows "stream_ok s'"
proof (cases "es = []")
  case True
  then have "s' = s" using assms(2) by (auto simp: xreadgroup_def Let_def)
  then show ?thesis using assms(1) by simp
next
  case False
  obtain g where g: "x_group s = Some g" using assms(3) by auto
  note sel = xreadgroup_sel [OF assms(2)]
  have sub: "set es \<subseteq> set (x_entries s)" "\<forall>e \<in> set es. g < e_id e"
    using sel(1) g set_unread [of s] by (auto simp: unread_above dest!: in_set_takeD)
  have es: "sorted_wrt (<) (map e_id es)"
    unfolding sel(1) take_map [symmetric] using unread_sorted [OF assms(1)] by (rule sorted_wrt_take)
  have last: "e_id (last es) \<in> e_id ` set es" using False by simp
  have pel: "\<forall>p \<in> set (x_pel s). p_id p \<le> g" "sorted_wrt (<) (map p_id (x_pel s))"
    "p_id ` set (x_pel s) \<subseteq> e_id ` set (x_entries s)"
    using assms(1) g by (auto simp: stream_ok_def)
  have top: "\<forall>e \<in> set es. e_id e \<le> e_id (last es)"
  proof -
    obtain xs x where "es = xs @ [x]" using False by (metis append_butlast_last_id)
    then show ?thesis using es by (auto simp: sorted_wrt_append less_imp_le)
  qed
  have mem: "p_id ` set (x_pel s') = p_id ` set (x_pel s) \<union> e_id ` set es"
    using sel(4) by (metis image_set set_append)
  have "sorted_wrt (<) (map p_id (x_pel s'))"
    unfolding sel(4) using es pel sub by (auto simp: sorted_wrt_append intro: le_less_trans)
  moreover have "p_id ` set (x_pel s') \<subseteq> e_id ` set (x_entries s')"
    unfolding mem sel(2) using pel sub by auto
  moreover have "\<forall>p \<in> set (x_pel s'). p_id p \<le> e_id (last es)"
  proof
    fix p assume "p \<in> set (x_pel s')"
    then have "p_id p \<in> p_id ` set (x_pel s) \<union> e_id ` set es" using mem by blast
    then show "p_id p \<le> e_id (last es)"
    proof
      assume "p_id p \<in> p_id ` set (x_pel s)"
      then have "p_id p \<le> g" using pel(1) by auto
      also have "g < e_id (last es)" using sub(2) False by simp
      finally show ?thesis by simp
    qed (use top in auto)
  qed
  moreover have "e_id (last es) \<le> x_last s'"
  proof -
    have "last es \<in> set (x_entries s)" using sub(1) False by auto
    then show ?thesis using assms(1) sel(3) by (simp add: stream_ok_def)
  qed
  ultimately show ?thesis
    using assms(1) False sel by (simp add: stream_ok_def)
qed

lemma stream_ok_ack: "stream_ok s \<Longrightarrow> stream_ok (ack_delivery i s)"
  by (auto simp: stream_ok_def ack_delivery_def sorted_filter split: option.splits)

lemma owed_ack:
  "owed (ack_delivery i s) e \<longleftrightarrow> (if e_id e = i then e \<in> set (unread s) else owed s e)"
  by (auto simp: owed_def ack_delivery_def unread_def split: option.splits)

lemma ack_entries [simp]: "x_entries (ack_delivery i s) = x_entries s"
  by (simp add: ack_delivery_def)

lemma owed_unread: "e \<in> set (unread s) \<Longrightarrow> owed s e"
  by (simp add: owed_def)

lemma outstanding_ack:
  "outstanding (ack_delivery i s) \<subseteq> outstanding s"
  "(j, d) \<in> outstanding s \<Longrightarrow> j \<noteq> i \<Longrightarrow> (j, d) \<in> outstanding (ack_delivery i s)"
  using owed_unread by (auto simp: outstanding_def owed_ack ack_entries split: if_splits)

lemma read_not_unread:
  assumes "stream_ok s" "e \<in> set (x_entries s)" "e_id e \<in> p_id ` set (x_pel s)"
  shows "e \<notin> set (unread s)"
  using assms by (auto simp: stream_ok_def unread_def split: option.splits)

text \<open>A message that has been read is settled by its acknowledgement.\<close>

lemma outstanding_ack_read:
  assumes "stream_ok s" "i \<in> p_id ` set (x_pel s)"
  shows "outstanding (ack_delivery i s) = {x \<in> outstanding s. fst x \<noteq> i}"
proof -
  have "owed (ack_delivery i s) x \<longleftrightarrow> owed s x \<and> e_id x \<noteq> i" if "x \<in> set (x_entries s)" for x
    using read_not_unread [OF assms(1) that] assms(2) by (auto simp: owed_ack)
  then show ?thesis by (auto simp: outstanding_def)
qed

definition stale :: "nat \<Rightarrow> nat \<Rightarrow> pending_entry \<Rightarrow> bool" where
  "stale now_ms min_idle_ms p \<longleftrightarrow> min_idle_ms \<le> now_ms - p_delivered_ms p"

lemma autoclaim_pel_ids:
  "p_id ` set ps \<subseteq> e_id ` set entries \<Longrightarrow>
   map p_id (snd (autoclaim now c m entries att n ps)) = map p_id ps"
proof (induction ps arbitrary: att n)
  case (Cons p ps)
  then have "find_by e_id (p_id p) entries \<noteq> None" by (simp add: find_by_None_iff)
  with Cons show ?case by (auto split: prod.splits) (metis snd_conv)+
qed simp

text \<open>What a sweep returns: the first \<open>count\<close> stale ones among the first \<open>10 * count\<close> pending.\<close>

lemma autoclaim_claimed:
  "p_id ` set ps \<subseteq> e_id ` set entries \<Longrightarrow>
   map e_id (fst (autoclaim now c m entries att n ps)) = map p_id (take n (filter (stale now m) (take att ps)))"
proof (induction ps arbitrary: att n)
  case (Cons p ps)
  then obtain e where e: "find_by e_id (p_id p) entries = Some e"
    by (metis find_by_None_iff image_eqI list.set_intros(1) not_Some_eq subsetD)
  then have "e_id e = p_id p" by (auto dest: find_by_SomeD)
  with Cons e show ?case
    by (cases att; cases n)
       (auto simp: stale_def not_less split: prod.splits; metis fst_conv)+
qed simp

lemma xautoclaim_sel:
  assumes "stream_ok s" "xautoclaim now c m n s = (es, s')"
  shows "x_entries s' = x_entries s" "x_last s' = x_last s" "x_group s' = x_group s"
    "map p_id (x_pel s') = map p_id (x_pel s)"
    "map e_id es = map p_id (take n (filter (stale now m) (take (10 * n) (x_pel s))))"
proof -
  have sub: "p_id ` set (x_pel s) \<subseteq> e_id ` set (x_entries s)" using assms(1) by (simp add: stream_ok_def)
  show "x_entries s' = x_entries s" "x_last s' = x_last s" "x_group s' = x_group s"
    "map p_id (x_pel s') = map p_id (x_pel s)"
    "map e_id es = map p_id (take n (filter (stale now m) (take (10 * n) (x_pel s))))"
    using assms(2) autoclaim_pel_ids [OF sub, of now c m "10 * n" n]
      autoclaim_claimed [OF sub, of now c m "10 * n" n]
    by (auto simp: xautoclaim_def split: prod.splits)
qed

lemma same_pel_ids:
  assumes "x_entries s' = x_entries s" "x_last s' = x_last s" "x_group s' = x_group s"
    and "map p_id (x_pel s') = map p_id (x_pel s)"
  shows "outstanding s' = outstanding s" "stream_ok s \<Longrightarrow> stream_ok s'"
proof -
  have ids: "p_id ` set (x_pel s') = p_id ` set (x_pel s)" using assms(4) by (metis set_map)
  have "unread s' = unread s" using assms by (simp add: unread_def split: option.split)
  then have "owed s' e = owed s e" for e using ids by (simp add: owed_def)
  then show "outstanding s' = outstanding s" using assms(1) by (intro outstanding_cong)
  have "(\<forall>p \<in> set (x_pel s'). p_id p \<le> g) \<longleftrightarrow> (\<forall>p \<in> set (x_pel s). p_id p \<le> g)" for g
    using ids by (metis (no_types, lifting) image_iff)
  moreover have "x_pel s' = [] \<longleftrightarrow> x_pel s = []" using assms(4) by (metis list.map_disc_iff)
  ultimately show "stream_ok s \<Longrightarrow> stream_ok s'"
    using assms ids by (simp add: stream_ok_def split: option.splits)
qed

lemma xautoclaim_keeps:
  assumes "stream_ok s" "xautoclaim now c m n s = (es, s')"
  shows "stream_ok s'" "outstanding s' = outstanding s"
  using same_pel_ids [OF xautoclaim_sel(1-4) [OF assms]] assms(1) by simp_all

lemma parse_entry_Inr: "parse_entry e = Inr m \<Longrightarrow> m_id m = e_id e \<and> e_fields e \<noteq> []"
  by (auto simp: parse_entry_def split: option.splits)

lemma parse_entries_ok:
  "\<forall>e \<in> set es. delivery_of e \<noteq> None \<Longrightarrow>
   \<exists>ms. parse_entries es = Inr ms \<and> map m_id ms = map e_id es \<and>
        map (\<lambda>m. Some (m_delivery_id m)) ms = map delivery_of es"
proof (induction es)
  case (Cons e es)
  then obtain ms where ms: "parse_entries es = Inr ms" "map m_id ms = map e_id es"
      "map (\<lambda>m. Some (m_delivery_id m)) ms = map delivery_of es"
    by auto
  obtain m where m: "parse_entry e = Inr m"
    using Cons.prems by (cases "parse_entry e") (auto simp: delivery_of_def)
  with ms parse_entry_Inr [OF m] show ?case by (auto simp: delivery_of_def)
qed simp

subsection \<open>The contract: an obligation stays until it is settled\<close>

text \<open>
  The interface the workers rely on: a component with a state and operations that owes things,
  each of which only the operations that settle it may take away.
\<close>

locale obligations =
  fixes step :: "'op \<Rightarrow> 's \<Rightarrow> 's"
    and ok :: "'s \<Rightarrow> bool"
    and owes :: "'s \<Rightarrow> 'm set"
    and settles :: "'op \<Rightarrow> 'm \<Rightarrow> bool"
  assumes ok_step: "ok s \<Longrightarrow> ok (step op s)"
    and owes_step: "ok s \<Longrightarrow> m \<in> owes s \<Longrightarrow> \<not> settles op m \<Longrightarrow> m \<in> owes (step op s)"
begin

lemma ok_run: "ok s \<Longrightarrow> ok (fold step ops s)"
  by (induction ops arbitrary: s) (auto intro: ok_step)

lemma owes_run:
  "ok s \<Longrightarrow> m \<in> owes s \<Longrightarrow> \<forall>op \<in> set ops. \<not> settles op m \<Longrightarrow> m \<in> owes (fold step ops s)"
  by (induction ops arbitrary: s) (auto intro: ok_step owes_step)

lemma settled_somewhere:
  "ok s \<Longrightarrow> m \<in> owes s \<Longrightarrow> m \<notin> owes (fold step ops s) \<Longrightarrow> \<exists>op \<in> set ops. settles op m"
  using owes_run by blast

end

datatype stream_op =
    EnsureGroup
  | Enqueue nat uuid "string option"
  | ReadDeliveries nat string nat
  | ClaimStale nat string nat nat
  | AckDelivery message_id

fun stream_step :: "stream_op \<Rightarrow> redis_stream \<Rightarrow> redis_stream" where
  "stream_step EnsureGroup s = ensure_consumer_group s"
| "stream_step (Enqueue now d c) s = snd (enqueue_delivery now d c s)"
| "stream_step (ReadDeliveries now consumer count) s = snd (read_deliveries now consumer count s)"
| "stream_step (ClaimStale now consumer min_idle_ms count) s =
     snd (claim_stale_deliveries now consumer min_idle_ms count s)"
| "stream_step (AckDelivery i) s = ack_delivery i s"

definition stream_run :: "stream_op list \<Rightarrow> redis_stream \<Rightarrow> redis_stream" where
  "stream_run ops s = fold stream_step ops s"

definition settles_message :: "stream_op \<Rightarrow> message_id \<times> uuid \<Rightarrow> bool" where
  "settles_message op m \<longleftrightarrow> op = AckDelivery (fst m)"

lemma read_deliveries_keeps:
  assumes "stream_ok s"
  shows "stream_ok (snd (read_deliveries now c n s))"
    "outstanding (snd (read_deliveries now c n s)) = outstanding s"
  using stream_ok_xreadgroup [OF assms] outstanding_xreadgroup [OF assms] assms
  by (auto simp: read_deliveries_def split: prod.splits)

lemma claim_stale_keeps:
  assumes "stream_ok s"
  shows "stream_ok (snd (claim_stale_deliveries now c m n s))"
    "outstanding (snd (claim_stale_deliveries now c m n s)) = outstanding s"
  using xautoclaim_keeps [OF assms] assms
  by (auto simp: claim_stale_deliveries_def split: prod.splits)

interpretation stream: obligations stream_step stream_ok outstanding settles_message
proof
  fix op s
  assume ok: "stream_ok s"
  then show "stream_ok (stream_step op s)"
    by (cases op) (auto intro: stream_ok_ensure stream_ok_enqueue stream_ok_ack read_deliveries_keeps claim_stale_keeps)
  fix m
  assume "m \<in> outstanding s" "\<not> settles_message op m"
  with ok show "m \<in> outstanding (stream_step op s)"
    by (cases op; cases m)
       (auto simp: settles_message_def outstanding_ensure outstanding_enqueue read_deliveries_keeps
         claim_stale_keeps intro: outstanding_ack(2))
qed

subsection \<open>Properties\<close>

text \<open>
  C13. A published message is never lost: whatever the workers do to the stream afterwards, in any
  order and with any crashes in between (reads by any consumer, reclaims, other messages, other
  acknowledgements), it stays owed to the group, unread or pending, with the delivery it names,
  until that very message is acknowledged.
\<close>

theorem unacked_message_is_never_lost:
  assumes "stream_ok s" and "enqueue_delivery now d c s = (i, s')" and "AckDelivery i \<notin> set ops"
  shows "(i, d) \<in> outstanding (stream_run ops s')"
  using stream.owes_run [of s' "(i, d)" ops] stream_ok_enqueue [OF assms(1), of now d c]
    outstanding_enqueue [OF assms(1), of now d c] assms(2,3)
  by (auto simp: stream_run_def settles_message_def)

theorem unacked_message_is_never_lost_witness:
  "(MessageId 5 0, 9) \<in> outstanding (stream_run
      [EnsureGroup, ReadDeliveries 6 ''d1'' 10, ClaimStale 40000 ''r1'' 30000 50, AckDelivery (MessageId 4 0)]
      (snd (enqueue_delivery 5 9 None empty_stream)))"
proof -
  have e: "enqueue_delivery 5 9 None empty_stream =
      (MessageId 5 0, snd (enqueue_delivery 5 9 None empty_stream))"
    by (simp add: enqueue_delivery_def empty_stream_def next_id_def Let_def)
  show ?thesis by (rule unacked_message_is_never_lost [OF stream_ok_empty e]) simp
qed

text \<open>
  The reaper's sweeps at the times \<open>ts\<close> when nothing it reclaims is ever acknowledged: the
  identifiers each sweep returns.
\<close>

fun claim_sweeps :: "nat list \<Rightarrow> string \<Rightarrow> nat \<Rightarrow> nat \<Rightarrow> redis_stream \<Rightarrow> message_id list list" where
  "claim_sweeps [] consumer min_idle_ms count s = []"
| "claim_sweeps (t # ts) consumer min_idle_ms count s =
     (let (es, s') = xautoclaim t consumer min_idle_ms count s
      in map e_id es # claim_sweeps ts consumer min_idle_ms count s')"

lemma take_filter_all:
  assumes "\<forall>x \<in> set (take n xs). P x" "n \<le> length xs"
  shows "take n (filter P (take (10 * n) xs)) = take n xs"
proof -
  have "take (10 * n) xs = take n xs @ take (9 * n) (drop n xs)"
    using take_add [of n "9 * n" xs] by simp
  moreover have "filter P (take n xs) = take n xs" using assms(1) by (simp add: filter_id_conv)
  moreover have "length (take n xs) = n" using assms(2) by simp
  ultimately show ?thesis by (simp only: filter_append take_append diff_self_eq_0 take_0 append_Nil2 take_all order_refl)
qed

lemma autoclaim_refreshes:
  "p_id ` set ps \<subseteq> e_id ` set entries \<Longrightarrow> \<forall>p \<in> set (take n ps). stale now m p \<Longrightarrow> n \<le> att \<Longrightarrow>
   \<forall>p \<in> set (take n (snd (autoclaim now c m entries att n ps))). p_delivered_ms p = now"
proof (induction ps arbitrary: att n)
  case (Cons p ps)
  show ?case
  proof (cases n)
    case (Suc k)
    then obtain att' where att: "att = Suc att'" using Cons.prems(3) by (cases att) auto
    have "p_id p \<in> e_id ` set entries" using Cons.prems(1) by simp
    then obtain e where e: "find_by e_id (p_id p) entries = Some e"
      using find_by_None_iff [of e_id "p_id p" entries] by (cases "find_by e_id (p_id p) entries") auto
    have st: "\<not> now - p_delivered_ms p < m"
      using Cons.prems(2) Suc by (simp add: stale_def)
    have IH: "\<forall>q \<in> set (take k (snd (autoclaim now c m entries att' k ps))). p_delivered_ms q = now"
      using Cons.prems Suc att by (intro Cons.IH) auto
    obtain es ps' where r: "autoclaim now c m entries att' k ps = (es, ps')" by fastforce
    have "snd (autoclaim now c m entries att n (p # ps)) =
        p\<lparr>p_consumer := c, p_delivered_ms := now, p_count := p_count p + 1\<rparr> # ps'"
      by (simp add: Suc att e st r)
    then show ?thesis using IH by (simp add: Suc r del: autoclaim.simps)
  qed simp
qed simp

lemma map_take_filter_pos:
  assumes "k < length xs" "P (xs ! k)" "k < m" "length (filter P (take k xs)) < n"
  shows "xs ! k \<in> set (take n (filter P (take m xs)))"
proof -
  have "take m xs = take k xs @ xs ! k # take (m - Suc k) (drop (Suc k) xs)"
  proof -
    have "k < length (take m xs)" using assms(1,3) by simp
    from id_take_nth_drop [OF this] assms(3) show ?thesis by (simp add: drop_take min_def)
  qed
  then have "filter P (take m xs) =
      filter P (take k xs) @ xs ! k # filter P (take (m - Suc k) (drop (Suc k) xs))"
    using assms(2) by simp
  then show ?thesis using assms(4) by (cases "n - length (filter P (take k xs))") auto
qed

text \<open>
  What a dead worker left behind is picked up: a pending message that has been idle for
  \<open>min_idle\<close>, with fewer than \<open>count\<close> idle ones before it and fewer than ten times that many
  pending ones, is in the answer of the next sweep, under its identifier and with its delivery.
\<close>

theorem stale_message_is_reclaimed:
  assumes "stream_ok s" and "k < length (x_pel s)" and "(p_id (x_pel s ! k), d) \<in> outstanding s"
    and "stale now min_idle (x_pel s ! k)" and "k < 10 * n"
    and "length (filter (stale now min_idle) (take k (x_pel s))) < n"
  shows "\<exists>ms m. fst (claim_stale_deliveries now c min_idle n s) = Inr ms \<and> m \<in> set ms \<and>
           m_id m = p_id (x_pel s ! k) \<and> m_delivery_id m = d"
proof -
  let ?p = "x_pel s ! k"
  obtain es s' where run: "xautoclaim now c min_idle n s = (es, s')" by fastforce
  have grp: "x_group s \<noteq> None" using assms(1,2) by (cases "x_group s") (auto simp: stream_ok_def)
  have es: "set es \<subseteq> set (x_entries s)"
  proof -
    have "set (fst (autoclaim now c min_idle (x_entries s) att j ps)) \<subseteq> set (x_entries s)" for att j ps
    proof (induction ps arbitrary: att j)
      case (Cons p ps)
      then show ?case
        by (auto split: option.splits prod.splits dest: find_by_SomeD) (metis fst_conv subsetD)+
    qed simp
    then show ?thesis using run by (auto simp: xautoclaim_def split: prod.splits) (metis fst_conv subsetD)
  qed
  then obtain ms where ms: "parse_entries es = Inr ms" "map m_id ms = map e_id es"
      "map (\<lambda>m. Some (m_delivery_id m)) ms = map delivery_of es"
    using parse_entries_ok [of es] assms(1) by (auto simp: stream_ok_def)
  have "?p \<in> set (take n (filter (stale now min_idle) (take (10 * n) (x_pel s))))"
    using map_take_filter_pos [OF assms(2,4,5,6)] .
  then have "p_id ?p \<in> set (map e_id es)"
    unfolding xautoclaim_sel(5) [OF assms(1) run] by simp
  then obtain j where j: "j < length es" "e_id (es ! j) = p_id ?p"
    by (auto simp: in_set_conv_nth)
  have len: "length ms = length es" using ms(2) by (metis length_map)
  have mj: "m_id (ms ! j) = e_id (es ! j)" "Some (m_delivery_id (ms ! j)) = delivery_of (es ! j)"
    using arg_cong [OF ms(2), of "\<lambda>l. l ! j"] arg_cong [OF ms(3), of "\<lambda>l. l ! j"] j len by auto
  obtain e where e: "e \<in> set (x_entries s)" "e_id e = p_id ?p" "delivery_of e = Some d"
    using assms(3) by (auto simp: outstanding_def)
  have "inj_on e_id (set (x_entries s))"
    using assms(1) by (simp add: stream_ok_def strict_sorted_iff distinct_map)
  then have "e = es ! j" using e j es by (metis inj_onD nth_mem subsetD)
  then show ?thesis
    using ms(1) mj e(3) j len run grp
    by (intro exI [of _ ms] exI [of _ "ms ! j"]) (simp add: claim_stale_deliveries_def)
qed

definition demo_stream :: redis_stream where
  "demo_stream =
     snd (read_deliveries 6 ''d1'' 10 (snd (enqueue_delivery 5 9 None (ensure_consumer_group empty_stream))))"

lemma demo_stream_facts:
  "stream_ok demo_stream" "(MessageId 5 0, 9) \<in> outstanding demo_stream"
  "x_pel demo_stream = [\<lparr>p_id = MessageId 5 0, p_consumer = ''d1'', p_delivered_ms = 6, p_count = 1\<rparr>]"
proof -
  let ?s = "ensure_consumer_group empty_stream"
  have ok: "stream_ok ?s" by (rule stream_ok_ensure [OF stream_ok_empty])
  have e: "fst (enqueue_delivery 5 9 None ?s) = MessageId 5 0"
    by (simp add: enqueue_delivery_def ensure_consumer_group_def empty_stream_def next_id_def Let_def)
  show "stream_ok demo_stream"
    unfolding demo_stream_def by (intro read_deliveries_keeps stream_ok_enqueue ok)
  show "(MessageId 5 0, 9) \<in> outstanding demo_stream"
    unfolding demo_stream_def read_deliveries_keeps(2) [OF stream_ok_enqueue [OF ok]]
      outstanding_enqueue [OF ok] e by simp
  show "x_pel demo_stream = [\<lparr>p_id = MessageId 5 0, p_consumer = ''d1'', p_delivered_ms = 6, p_count = 1\<rparr>]"
    by (simp add: demo_stream_def read_deliveries_def xreadgroup_def unread_def enqueue_delivery_def
        ensure_consumer_group_def empty_stream_def next_id_def Let_def less_message_id_def)
qed

theorem stale_message_is_reclaimed_witness:
  "\<exists>ms m. fst (claim_stale_deliveries 40000 ''r1'' 30000 50 demo_stream) = Inr ms \<and> m \<in> set ms \<and>
     m_id m = MessageId 5 0 \<and> m_delivery_id m = 9"
  using stale_message_is_reclaimed [OF demo_stream_facts(1), of 0 9 40000 30000 50 "''r1''"]
  by (simp add: demo_stream_facts stale_def)

text \<open>
  Every sweep starts over at the oldest pending entry, so messages that are never acknowledged
  can starve the rest: if the first \<open>count\<close> pending entries are idle at the first sweep and the
  sweeps are at least \<open>min_idle\<close> apart, then every sweep returns exactly those same entries and
  nothing behind them is ever reclaimed, however long it has been idle.
\<close>

theorem unacked_messages_starve_the_sweep:
  assumes "stream_ok s" and "n \<le> length (x_pel s)"
    and "\<forall>t \<in> set (take 1 ts). \<forall>p \<in> set (take n (x_pel s)). stale t min_idle p"
    and "successively (\<lambda>t t'. t + min_idle \<le> t') ts"
  shows "\<forall>ids \<in> set (claim_sweeps ts c min_idle n s). ids = map p_id (take n (x_pel s))"
  using assms
proof (induction ts arbitrary: s)
  case (Cons t ts)
  obtain es s' where run: "xautoclaim t c min_idle n s = (es, s')" by fastforce
  have st: "\<forall>p \<in> set (take n (x_pel s)). stale t min_idle p" using Cons.prems(3) by simp
  note sel = xautoclaim_sel [OF Cons.prems(1) run]
  have ids: "map p_id (take n (x_pel s')) = map p_id (take n (x_pel s))"
    using sel(4) by (simp only: take_map [symmetric])
  have "map e_id es = map p_id (take n (x_pel s))"
    unfolding sel(5) take_filter_all [OF st Cons.prems(2)] ..
  moreover have "\<forall>l \<in> set (claim_sweeps ts c min_idle n s'). l = map p_id (take n (x_pel s'))"
  proof (rule Cons.IH)
    show "stream_ok s'" using xautoclaim_keeps(1) [OF Cons.prems(1) run] .
    show "n \<le> length (x_pel s')" using Cons.prems(2) sel(4) by (metis length_map)
    show "successively (\<lambda>t t'. t + min_idle \<le> t') ts" using Cons.prems(4) by (auto simp: successively_Cons)
    have "p_id ` set (x_pel s) \<subseteq> e_id ` set (x_entries s)" using Cons.prems(1) by (simp add: stream_ok_def)
    from autoclaim_refreshes [OF this st, of "10 * n" c]
    have fresh: "\<forall>p \<in> set (take n (x_pel s')). p_delivered_ms p = t"
      using run by (auto simp: xautoclaim_def split: prod.splits)
    show "\<forall>t \<in> set (take 1 ts). \<forall>p \<in> set (take n (x_pel s')). stale t min_idle p"
      using Cons.prems(4) fresh by (cases ts) (auto simp: stale_def)
  qed
  ultimately show ?case using ids by (simp add: run)
qed simp

theorem unacked_messages_starve_the_sweep_witness:
  "set (claim_sweeps [40000, 70000, 100000] ''r1'' 30000 1 demo_stream) \<subseteq> {[MessageId 5 0]}"
proof -
  have "\<forall>ids \<in> set (claim_sweeps [40000, 70000, 100000] ''r1'' 30000 1 demo_stream). ids = [MessageId 5 0]"
    using unacked_messages_starve_the_sweep [OF demo_stream_facts(1), of 1 "[40000, 70000, 100000]" 30000 "''r1''"]
    by (simp add: demo_stream_facts stale_def)
  then show ?thesis by blast
qed

end
