(* ===== verification/RelayWorker.thy ===== *)
theory RelayWorker
  imports EventIngest Streams
begin

section \<open>The relay worker: from the outbox to the stream\<close>

text \<open>
  \<open>relay/workers/relay.py\<close>. One run claims due outbox rows and, inside one transaction, creates
  a delivery per subscribed endpoint, publishes its message at once, and marks the row processed.
  The stream is not transactional: what was published stays published when the transaction is
  rolled back. The run's clocks, the rows other transactions hold and the identifiers it draws
  (any function of event and endpoint) are one record.
\<close>

record relay_env =
  re_now :: timestamp
  re_now_ms :: nat
  re_locked :: "uuid list"
  re_new_id :: "uuid \<Rightarrow> uuid \<Rightarrow> uuid"

type_synonym 'a streaming = "session \<times> redis_stream \<Rightarrow> (error + 'a) \<times> session \<times> redis_stream"

fun fan_out :: "relay_env \<Rightarrow> event \<Rightarrow> endpoint list \<Rightarrow> unit streaming" where
  "fan_out env ev [] (s, x) = (Inr (), s, x)"
| "fan_out env ev (ep # eps) (s, x) =
     (case repoT (deliveries_create (re_new_id env (ev_id ev) (ep_id ep)) (re_now env) (ev_id ev) (ep_id ep)) s of
        (Inl e, s') \<Rightarrow> (Inl e, s', x)
      | (Inr d, s') \<Rightarrow>
          fan_out env ev eps (s', snd (enqueue_delivery (re_now_ms env) (d_id d) (ev_correlation_id ev) x)))"

definition process_entry :: "relay_env \<Rightarrow> outbox_entry \<Rightarrow> unit streaming" where
  "process_entry env entry sx =
     (case sx of (s, x) \<Rightarrow>
        (case events_get (ob_event_id entry) (se_pending s) of
           None \<Rightarrow> (let (r, s') = repoT (outbox_mark_processed (ob_id entry)) s in (r, s', x))
         | Some ev \<Rightarrow>
             (case fan_out env ev
                     (endpoints_list_active_subscribed (ev_tenant_id ev) (ev_type ev) (se_pending s)) (s, x) of
                (Inl e, s', x') \<Rightarrow> (Inl e, s', x')
              | (Inr _, s', x') \<Rightarrow>
                  (let (r, s'') = repoT (outbox_mark_processed (ob_id entry)) s' in (r, s'', x')))))"

fun process_entries :: "relay_env \<Rightarrow> outbox_entry list \<Rightarrow> unit streaming" where
  "process_entries env [] sx = (Inr (), sx)"
| "process_entries env (entry # entries) sx =
     (case process_entry env entry sx of
        (Inl e, sx') \<Rightarrow> (Inl e, sx')
      | (Inr _, sx') \<Rightarrow> process_entries env entries sx')"

definition claimT :: "timestamp \<Rightarrow> uuid list \<Rightarrow> nat \<Rightarrow> outbox_entry list tx" where
  "claimT now locked limit s =
     (let (rows, d) = outbox_claim_due now locked limit (se_pending s) in (Inr rows, s\<lparr>se_pending := d\<rparr>))"

text \<open>The run up to its commit, so that a crash can be placed between publishing and committing.\<close>

definition relay_open ::
  "relay_env \<Rightarrow> nat \<Rightarrow> store \<Rightarrow> redis_stream \<Rightarrow> (error + nat) \<times> session \<times> redis_stream" where
  "relay_open env batch_size st x =
     (case claimT (re_now env) (re_locked env) batch_size (uow_enter st) of
        (Inl e, s) \<Rightarrow> (Inl e, s, x)
      | (Inr entries, s) \<Rightarrow>
          (case process_entries env entries (s, x) of
             (Inl e, s', x') \<Rightarrow> (Inl e, s', x')
           | (Inr _, s', x') \<Rightarrow> (Inr (length entries), s', x')))"

definition relay_run_once ::
  "relay_env \<Rightarrow> nat \<Rightarrow> store \<Rightarrow> redis_stream \<Rightarrow> (error + nat) \<times> store \<times> redis_stream" where
  "relay_run_once env batch_size st x =
     (case relay_open env batch_size st x of
        (Inl e, s, x') \<Rightarrow> (Inl e, uow_exit s, x')
      | (Inr n, s, x') \<Rightarrow> (Inr n, uow_exit (snd (uow_commit s)), x'))"

subsection \<open>What a run publishes and writes\<close>

text \<open>Messages are only ever appended: the stream grows by enqueues.\<close>

inductive grown :: "redis_stream \<Rightarrow> uuid list \<Rightarrow> redis_stream \<Rightarrow> bool" where
  none: "grown x [] x"
| more: "grown x ds y \<Longrightarrow> grown x (ds @ [d]) (snd (enqueue_delivery now d c y))"

lemma grown_trans: "grown y es z \<Longrightarrow> grown x ds y \<Longrightarrow> grown x (ds @ es) z"
proof (induction rule: grown.induct)
  case (more y es z d now c)
  then show ?case using grown.more [of x "ds @ es" z d now c] by simp
qed simp

lemma grown_one: "grown x [d] (snd (enqueue_delivery now d c x))"
  using grown.more [OF grown.none] by fastforce

lemma grown_ok: "grown x ds y \<Longrightarrow> stream_ok x \<Longrightarrow> stream_ok y"
  by (induction rule: grown.induct) (auto intro: stream_ok_enqueue)

lemma grown_outstanding:
  "grown x ds y \<Longrightarrow> stream_ok x \<Longrightarrow> outstanding x \<subseteq> outstanding y \<and> snd ` outstanding y = snd ` outstanding x \<union> set ds"
proof (induction rule: grown.induct)
  case (more x ds y d now c)
  then have "stream_ok y" using grown_ok by blast
  then show ?case using more by (auto simp: outstanding_enqueue)
qed simp

text \<open>The deliveries of one event to some endpoints, as the fan-out creates them.\<close>

definition fresh_delivery :: "relay_env \<Rightarrow> event \<Rightarrow> endpoint \<Rightarrow> delivery" where
  "fresh_delivery env ev ep =
     \<lparr>d_id = re_new_id env (ev_id ev) (ep_id ep), d_event_id = ev_id ev, d_endpoint_id = ep_id ep,
      d_state = PENDING, d_attempt_count = 0, d_created_at = re_now env, d_next_retry_at = None\<rparr>"

lemma deliveries_create_Inr:
  "deliveries_create i now e ep s = Inr (d, s') \<Longrightarrow>
   d = \<lparr>d_id = i, d_event_id = e, d_endpoint_id = ep, d_state = PENDING, d_attempt_count = 0,
        d_created_at = now, d_next_retry_at = None\<rparr> \<and>
   s' = s\<lparr>db_deliveries := db_deliveries s @ [d]\<rparr>"
  by (auto simp: deliveries_create_def Let_def split: if_splits)

lemma fan_out_spec:
  "fan_out env ev eps (s, x) = (r, s', x') \<Longrightarrow>
   \<exists>done. grown x (map (\<lambda>ep. re_new_id env (ev_id ev) (ep_id ep)) done) x' \<and>
     s' = s\<lparr>se_pending := se_pending s\<lparr>db_deliveries :=
            db_deliveries (se_pending s) @ map (fresh_delivery env ev) done\<rparr>\<rparr> \<and>
     (db_ok (se_pending s) \<longrightarrow> db_ok (se_pending s')) \<and>
     (case r of Inl e \<Rightarrow> True | Inr _ \<Rightarrow> done = eps)"
proof (induction eps arbitrary: s x)
  case Nil
  then show ?case by (auto intro: grown.none exI [of _ "[]"])
next
  case (Cons ep eps)
  let ?i = "re_new_id env (ev_id ev) (ep_id ep)"
  show ?case
  proof (cases "deliveries_create ?i (re_now env) (ev_id ev) (ep_id ep) (se_pending s)")
    case (Inl e)
    with Cons.prems show ?thesis
      by (auto simp: repoT_def intro!: exI [of _ "[]"] grown.none)
  next
    case (Inr dd)
    obtain d p where dd: "dd = (d, p)" by (cases dd)
    note c = deliveries_create_Inr [OF Inr [unfolded dd]]
    have d: "d = fresh_delivery env ev ep" using c by (simp add: fresh_delivery_def)
    have ok: "db_ok (se_pending s) \<longrightarrow> db_ok p"
      using db_ok_deliveries_create [OF Inr [unfolded dd]] by simp
    let ?x = "snd (enqueue_delivery (re_now_ms env) (d_id d) (ev_correlation_id ev) x)"
    have "fan_out env ev eps (s\<lparr>se_pending := p\<rparr>, ?x) = (r, s', x')"
      using Cons.prems Inr dd by (simp add: repoT_def)
    from Cons.IH [OF this] obtain dn where dn:
      "grown ?x (map (\<lambda>ep. re_new_id env (ev_id ev) (ep_id ep)) dn) x'"
      "s' = s\<lparr>se_pending := p\<lparr>db_deliveries := db_deliveries p @ map (fresh_delivery env ev) dn\<rparr>\<rparr>"
      "db_ok p \<longrightarrow> db_ok (se_pending s')" "case r of Inl e \<Rightarrow> True | Inr _ \<Rightarrow> dn = eps"
      by auto
    have "grown x (map (\<lambda>ep. re_new_id env (ev_id ev) (ep_id ep)) (ep # dn)) x'"
      using grown_trans [OF dn(1) grown_one] by (simp add: d fresh_delivery_def)
    with dn c d ok show ?thesis
      by (intro exI [of _ "ep # dn"]) (auto split: sum.splits)
  qed
qed

definition deliveries_for :: "relay_env \<Rightarrow> db \<Rightarrow> outbox_entry \<Rightarrow> delivery list" where
  "deliveries_for env s entry =
     (case events_get (ob_event_id entry) s of
        None \<Rightarrow> []
      | Some ev \<Rightarrow> map (fresh_delivery env ev)
          (endpoints_list_active_subscribed (ev_tenant_id ev) (ev_type ev) s))"

definition processed :: "outbox_entry \<Rightarrow> outbox_entry" where
  "processed e = e\<lparr>ob_status := OUTBOX_PROCESSED\<rparr>"

lemma deliveries_for_cong:
  "db_events s' = db_events s \<Longrightarrow> db_endpoints s' = db_endpoints s \<Longrightarrow> ob_event_id e' = ob_event_id e \<Longrightarrow>
   deliveries_for env s' e' = deliveries_for env s e"
  by (simp add: deliveries_for_def events_get_def endpoints_list_active_subscribed_def split: option.split)

lemma mark_processed_Inr:
  "outbox_mark_processed i s = Inr (u, s') \<Longrightarrow>
   s' = s\<lparr>db_outbox := update_by ob_id i processed (db_outbox s)\<rparr>"
  by (auto simp: outbox_mark_processed_def processed_def [abs_def] split: option.splits)

lemma repoT_Inr: "repoT op s = (Inr y, s') \<Longrightarrow> \<exists>d. op (se_pending s) = Inr (y, d) \<and> s' = s\<lparr>se_pending := d\<rparr>"
  by (auto simp: repoT_def split: sum.splits)

lemma repoT_Inl: "repoT op s = (Inl e, s') \<Longrightarrow> s' = s"
  by (auto simp: repoT_def split: sum.splits)

lemma process_entry_spec:
  assumes "process_entry env entry (s, x) = (r, s', x')"
  shows "\<exists>ds. grown x (map d_id ds) x' \<and> s' = s\<lparr>se_pending := se_pending s'\<rparr> \<and>
     (db_ok (se_pending s) \<longrightarrow> db_ok (se_pending s')) \<and>
     (r = Inr () \<longrightarrow> ds = deliveries_for env (se_pending s) entry \<and>
        se_pending s' = se_pending s\<lparr>db_deliveries := db_deliveries (se_pending s) @ ds,
          db_outbox := update_by ob_id (ob_id entry) processed (db_outbox (se_pending s))\<rparr>)"
proof (cases "events_get (ob_event_id entry) (se_pending s)")
  case None
  have run: "repoT (outbox_mark_processed (ob_id entry)) s = (r, s')" and x': "x' = x"
    using assms None by (auto simp: process_entry_def Let_def split: prod.splits)
  show ?thesis
  proof (cases r)
    case (Inl e)
    with run have "s' = s" by (intro repoT_Inl) simp
    then show ?thesis using Inl x' by (auto intro!: exI [of _ "[]"] grown.none)
  next
    case (Inr u)
    obtain d where d: "outbox_mark_processed (ob_id entry) (se_pending s) = Inr ((), d)" "s' = s\<lparr>se_pending := d\<rparr>"
      using repoT_Inr run Inr by fastforce
    then show ?thesis
      using mark_processed_Inr [OF d(1)] db_ok_outbox_mark_processed [OF d(1)] None x'
      by (auto simp: deliveries_for_def intro!: exI [of _ "[]"] grown.none)
  qed
next
  case (Some ev)
  let ?eps = "endpoints_list_active_subscribed (ev_tenant_id ev) (ev_type ev) (se_pending s)"
  obtain r1 s1 x1 where f: "fan_out env ev ?eps (s, x) = (r1, s1, x1)" by (metis prod_cases3)
  from fan_out_spec [OF f] obtain dn where dn:
    "grown x (map (\<lambda>ep. re_new_id env (ev_id ev) (ep_id ep)) dn) x1"
    "s1 = s\<lparr>se_pending := se_pending s\<lparr>db_deliveries := db_deliveries (se_pending s) @ map (fresh_delivery env ev) dn\<rparr>\<rparr>"
    "db_ok (se_pending s) \<longrightarrow> db_ok (se_pending s1)" "case r1 of Inl e \<Rightarrow> True | Inr _ \<Rightarrow> dn = ?eps"
    by auto
  have g: "grown x (map d_id (map (fresh_delivery env ev) dn)) x1"
    using dn(1) by (simp add: fresh_delivery_def comp_def)
  show ?thesis
  proof (cases r1)
    case (Inl e)
    then have "s' = s1" "x' = x1" "r = Inl e" using assms Some f by (auto simp: process_entry_def)
    then show ?thesis using g dn by (intro exI [of _ "map (fresh_delivery env ev) dn"]) auto
  next
    case (Inr u)
    have run: "repoT (outbox_mark_processed (ob_id entry)) s1 = (r, s')" and x': "x' = x1"
      using assms Some f Inr by (auto simp: process_entry_def Let_def split: prod.splits)
    show ?thesis
    proof (cases r)
      case (Inl e)
      with run have "s' = s1" by (intro repoT_Inl) simp
      then show ?thesis using Inl x' g dn
        by (intro exI [of _ "map (fresh_delivery env ev) dn"]) auto
    next
      case (Inr u')
      obtain d where d: "outbox_mark_processed (ob_id entry) (se_pending s1) = Inr ((), d)" "s' = s1\<lparr>se_pending := d\<rparr>"
        using repoT_Inr run Inr by fastforce
      have "dn = ?eps" using dn(4) \<open>r1 = Inr u\<close> by simp
      then have "map (fresh_delivery env ev) dn = deliveries_for env (se_pending s) entry"
        using Some by (simp add: deliveries_for_def)
      then show ?thesis
        using d dn g x' mark_processed_Inr [OF d(1)] db_ok_outbox_mark_processed [OF d(1)]
        by (intro exI [of _ "map (fresh_delivery env ev) dn"]) simp
    qed
  qed
qed

definition mark_all :: "outbox_entry list \<Rightarrow> outbox_entry list \<Rightarrow> outbox_entry list" where
  "mark_all entries rows = fold (\<lambda>e. update_by ob_id (ob_id e) processed) entries rows"

lemma process_entries_spec:
  "process_entries env entries (s, x) = (r, s', x') \<Longrightarrow>
   \<exists>ds. grown x (map d_id ds) x' \<and> s' = s\<lparr>se_pending := se_pending s'\<rparr> \<and>
     (db_ok (se_pending s) \<longrightarrow> db_ok (se_pending s')) \<and>
     (r = Inr () \<longrightarrow> ds = concat (map (deliveries_for env (se_pending s)) entries) \<and>
        se_pending s' = se_pending s\<lparr>db_deliveries := db_deliveries (se_pending s) @ ds,
          db_outbox := mark_all entries (db_outbox (se_pending s))\<rparr>)"
proof (induction entries arbitrary: s x)
  case Nil
  then show ?case by (auto simp: mark_all_def intro!: exI [of _ "[]"] grown.none)
next
  case (Cons entry entries)
  obtain r1 s1 x1 where p: "process_entry env entry (s, x) = (r1, s1, x1)" by (metis prod_cases3)
  from process_entry_spec [OF p] obtain ds1 where d1: "grown x (map d_id ds1) x1" "s1 = s\<lparr>se_pending := se_pending s1\<rparr>"
    "db_ok (se_pending s) \<longrightarrow> db_ok (se_pending s1)"
    "r1 = Inr () \<longrightarrow> ds1 = deliveries_for env (se_pending s) entry \<and>
        se_pending s1 = se_pending s\<lparr>db_deliveries := db_deliveries (se_pending s) @ ds1,
          db_outbox := update_by ob_id (ob_id entry) processed (db_outbox (se_pending s))\<rparr>"
    by blast
  show ?case
  proof (cases r1)
    case (Inl e)
    then show ?thesis using Cons.prems p d1 by (intro exI [of _ ds1]) auto
  next
    case (Inr u)
    then have "process_entries env entries (s1, x1) = (r, s', x')" using Cons.prems p by simp
    from Cons.IH [OF this] obtain ds2 where d2: "grown x1 (map d_id ds2) x'" "s' = s1\<lparr>se_pending := se_pending s'\<rparr>"
      "db_ok (se_pending s1) \<longrightarrow> db_ok (se_pending s')"
      "r = Inr () \<longrightarrow> ds2 = concat (map (deliveries_for env (se_pending s1)) entries) \<and>
        se_pending s' = se_pending s1\<lparr>db_deliveries := db_deliveries (se_pending s1) @ ds2,
          db_outbox := mark_all entries (db_outbox (se_pending s1))\<rparr>"
      by blast
    have s1: "ds1 = deliveries_for env (se_pending s) entry"
      "se_pending s1 = se_pending s\<lparr>db_deliveries := db_deliveries (se_pending s) @ ds1,
          db_outbox := update_by ob_id (ob_id entry) processed (db_outbox (se_pending s))\<rparr>"
      using d1(4) Inr by auto
    have same: "map (deliveries_for env (se_pending s1)) entries = map (deliveries_for env (se_pending s)) entries"
      by (intro map_cong refl deliveries_for_cong) (simp_all add: s1(2))
    show ?thesis
    proof (intro exI [of _ "ds1 @ ds2"] conjI impI)
      show "grown x (map d_id (ds1 @ ds2)) x'" using grown_trans [OF d2(1) d1(1)] by simp
      show "s' = s\<lparr>se_pending := se_pending s'\<rparr>"
      proof -
        have "s' = (s\<lparr>se_pending := se_pending s1\<rparr>)\<lparr>se_pending := se_pending s'\<rparr>"
          using d1(2) d2(2) by metis
        then show ?thesis by simp
      qed
      show "db_ok (se_pending s')" if "db_ok (se_pending s)" using that d1(3) d2(3) by blast
      assume "r = Inr ()"
      then have ds2: "ds2 = concat (map (deliveries_for env (se_pending s)) entries)"
        "se_pending s' = se_pending s1\<lparr>db_deliveries := db_deliveries (se_pending s1) @ ds2,
          db_outbox := mark_all entries (db_outbox (se_pending s1))\<rparr>"
        using d2(4) same by simp_all
      show "ds1 @ ds2 = concat (map (deliveries_for env (se_pending s)) (entry # entries))"
        using ds2(1) s1(1) by simp
      show "se_pending s' = se_pending s\<lparr>db_deliveries := db_deliveries (se_pending s) @ (ds1 @ ds2),
          db_outbox := mark_all (entry # entries) (db_outbox (se_pending s))\<rparr>"
        unfolding ds2(2) s1(2) by (simp add: mark_all_def)
    qed
  qed
qed

lemma processed_sel [simp]:
  "ob_id (processed e) = ob_id e" "ob_status (processed e) = OUTBOX_PROCESSED"
  "processed (processed e) = processed e" "ob_event_id (processed e) = ob_event_id e"
  by (simp_all add: processed_def)

lemma mark_all_map:
  "mark_all entries rows = map (\<lambda>r. if ob_id r \<in> ob_id ` set entries then processed r else r) rows"
proof (induction entries arbitrary: rows)
  case (Cons e es)
  have "mark_all (e # es) rows = mark_all es (update_by ob_id (ob_id e) processed rows)"
    by (simp add: mark_all_def)
  then show ?case unfolding Cons.IH by (auto simp: update_by_def)
qed (simp add: mark_all_def)

lemma uow_exit_pending: "uow_exit ((uow_enter st)\<lparr>se_pending := p\<rparr>) = st"
  by (simp add: uow_exit_def uow_rollback_def uow_enter_def store.defs session.defs)

lemma session_pending_twice: "s\<lparr>se_pending := p, se_pending := q\<rparr> = s\<lparr>se_pending := q\<rparr>"
  by simp

lemma relay_open_spec:
  assumes "relay_open env n st x = (r, s, x')"
  shows "\<exists>ds. grown x (map d_id ds) x' \<and> uow_exit s = st \<and> s = (uow_enter st)\<lparr>se_pending := se_pending s\<rparr> \<and>
    (db_ok (st_db st) \<longrightarrow> db_ok (se_pending s)) \<and>
    (\<forall>k. r = Inr k \<longrightarrow>
       k = length (outbox_due (re_locked env) n (st_db st)) \<and>
       ds = concat (map (deliveries_for env (st_db st)) (outbox_due (re_locked env) n (st_db st))) \<and>
       se_pending s = (st_db st)\<lparr>db_deliveries := db_deliveries (st_db st) @ ds,
         db_outbox := map (\<lambda>e. if ob_id e \<in> ob_id ` set (outbox_due (re_locked env) n (st_db st))
                               then processed (mark_claimed (re_now env) e) else e) (db_outbox (st_db st))\<rparr>)"
proof -
  let ?due = "outbox_due (re_locked env) n (st_db st)"
  let ?rows = "map (mark_claimed (re_now env)) ?due"
  let ?out = "map (\<lambda>e. if ob_id e \<in> set (map ob_id ?due) then mark_claimed (re_now env) e else e) (db_outbox (st_db st))"
  let ?p = "(st_db st)\<lparr>db_outbox := ?out\<rparr>"
  let ?s0 = "(uow_enter st)\<lparr>se_pending := ?p\<rparr>"
  have claim: "outbox_claim_due (re_now env) (re_locked env) n (st_db st) = (?rows, ?p)"
    by (simp add: outbox_claim_due_def Let_def)
  have ok0: "db_ok (st_db st) \<longrightarrow> db_ok ?p" using db_ok_outbox_claim_due [OF claim] by blast
  obtain r1 s1 x1 where p: "process_entries env ?rows (?s0, x) = (r1, s1, x1)"
    by (cases "process_entries env ?rows (?s0, x)") auto
  have open': "s = s1" "x' = x1" "r = (case r1 of Inl e \<Rightarrow> Inl e | Inr _ \<Rightarrow> Inr (length ?due))"
    using assms p by (auto simp: relay_open_def claimT_def claim split: sum.splits)
  have pend: "se_pending ?s0 = ?p" by simp
  from process_entries_spec [OF p, unfolded pend] obtain ds where ds: "grown x (map d_id ds) x1"
    "s1 = ?s0\<lparr>se_pending := se_pending s1\<rparr>" "db_ok ?p \<longrightarrow> db_ok (se_pending s1)"
    "r1 = Inr () \<longrightarrow> ds = concat (map (deliveries_for env ?p) ?rows) \<and>
        se_pending s1 = ?p\<lparr>db_deliveries := db_deliveries ?p @ ds, db_outbox := mark_all ?rows (db_outbox ?p)\<rparr>"
    by (elim exE conjE) (rule that)
  have s1: "s1 = (uow_enter st)\<lparr>se_pending := se_pending s1\<rparr>" by (rule trans [OF ds(2)]) (rule session_pending_twice)
  have exit: "uow_exit s1 = st" by (rule trans [OF arg_cong [OF s1, of uow_exit] uow_exit_pending])
  have same: "map (deliveries_for env ?p) ?rows = map (deliveries_for env (st_db st)) ?due"
    unfolding map_map comp_def by (intro map_cong refl deliveries_for_cong) simp_all
  have out: "mark_all ?rows ?out = map (\<lambda>e. if ob_id e \<in> ob_id ` set ?due
      then processed (mark_claimed (re_now env) e) else e) (db_outbox (st_db st))"
    unfolding mark_all_map by (auto simp: image_image)
  show ?thesis
    unfolding open'
  proof (intro exI [of _ ds] conjI allI impI)
    show "grown x (map d_id ds) x1" "uow_exit s1 = st" by (rule ds(1)) (rule exit)
    show "s1 = (uow_enter st)\<lparr>se_pending := se_pending s1\<rparr>" by (rule s1)
    show "db_ok (se_pending s1)" if "db_ok (st_db st)" using that ok0 ds(3) by blast
    fix k assume k: "(case r1 of Inl e \<Rightarrow> Inl e | Inr _ \<Rightarrow> Inr (length ?due)) = Inr k"
    then have r1: "r1 = Inr ()" by (cases r1) auto
    show "k = length ?due" using k r1 by simp
    have ds1: "ds = concat (map (deliveries_for env ?p) ?rows)"
      "se_pending s1 = ?p\<lparr>db_deliveries := db_deliveries ?p @ ds, db_outbox := mark_all ?rows (db_outbox ?p)\<rparr>"
      using ds(4) r1 by blast+
    show "ds = concat (map (deliveries_for env (st_db st)) ?due)" unfolding ds1(1) same ..
    show "se_pending s1 = (st_db st)\<lparr>db_deliveries := db_deliveries (st_db st) @ ds,
         db_outbox := map (\<lambda>e. if ob_id e \<in> ob_id ` set ?due
            then processed (mark_claimed (re_now env) e) else e) (db_outbox (st_db st))\<rparr>"
      unfolding ds1(2) using out by simp
  qed
qed

subsection \<open>A run over fresh identifiers returns\<close>

lemma fan_out_total:
  assumes "ev_id ev \<in> ev_id ` set (db_events (se_pending s))"
    and "set eps \<subseteq> set (db_endpoints (se_pending s))"
    and "distinct (map (\<lambda>ep. re_new_id env (ev_id ev) (ep_id ep)) eps)"
    and "\<forall>ep \<in> set eps. re_new_id env (ev_id ev) (ep_id ep) \<notin> d_id ` set (db_deliveries (se_pending s))"
  shows "fst (fan_out env ev eps (s, x)) = Inr ()"
  using assms
proof (induction eps arbitrary: s x)
  case (Cons ep eps)
  let ?d = "fresh_delivery env ev ep"
  have c: "deliveries_create (re_new_id env (ev_id ev) (ep_id ep)) (re_now env) (ev_id ev) (ep_id ep) (se_pending s) =
      Inr (?d, (se_pending s)\<lparr>db_deliveries := db_deliveries (se_pending s) @ [?d]\<rparr>)"
    using Cons.prems by (auto simp: deliveries_create_def fresh_delivery_def Let_def image_iff)
  show ?case
    using Cons.prems by (simp add: repoT_def c) (rule Cons.IH; (auto simp: fresh_delivery_def; metis image_eqI))
qed simp

lemma mark_processed_total: "i \<in> ob_id ` set (db_outbox s) \<Longrightarrow> \<exists>s'. outbox_mark_processed i s = Inr ((), s')"
  by (cases "find_by ob_id i (db_outbox s)") (auto simp: outbox_mark_processed_def find_by_None_iff)

lemma process_entry_total:
  assumes "ob_id entry \<in> ob_id ` set (db_outbox (se_pending s))"
    and "distinct (map d_id (deliveries_for env (se_pending s) entry))"
    and "d_id ` set (deliveries_for env (se_pending s) entry) \<inter> d_id ` set (db_deliveries (se_pending s)) = {}"
  shows "fst (process_entry env entry (s, x)) = Inr ()"
proof (cases "events_get (ob_event_id entry) (se_pending s)")
  case None
  with mark_processed_total [OF assms(1)] show ?thesis by (auto simp: process_entry_def repoT_def)
next
  case (Some ev)
  let ?eps = "endpoints_list_active_subscribed (ev_tenant_id ev) (ev_type ev) (se_pending s)"
  have ds: "deliveries_for env (se_pending s) entry = map (fresh_delivery env ev) ?eps"
    by (simp add: deliveries_for_def Some)
  have new: "re_new_id env (ev_id ev) (ep_id ep) = d_id (fresh_delivery env ev ep)" for ep
    by (simp add: fresh_delivery_def)
  have "fst (fan_out env ev ?eps (s, x)) = Inr ()"
  proof (rule fan_out_total)
    show "ev_id ev \<in> ev_id ` set (db_events (se_pending s))"
      using Some by (auto simp: events_get_def dest: find_by_SomeD)
    show "set ?eps \<subseteq> set (db_endpoints (se_pending s))"
      by (auto simp: endpoints_list_active_subscribed_def)
    show "distinct (map (\<lambda>ep. re_new_id env (ev_id ev) (ep_id ep)) ?eps)"
      using assms(2) by (simp add: ds new comp_def)
    show "\<forall>ep \<in> set ?eps. re_new_id env (ev_id ev) (ep_id ep) \<notin> d_id ` set (db_deliveries (se_pending s))"
      using assms(3) unfolding ds new by auto
  qed
  then obtain s1 x1 where f: "fan_out env ev ?eps (s, x) = (Inr (), s1, x1)"
    by (cases "fan_out env ev ?eps (s, x)") auto
  have "db_outbox (se_pending s1) = db_outbox (se_pending s)" using fan_out_spec [OF f] by auto
  with mark_processed_total [of "ob_id entry" "se_pending s1"] assms(1) show ?thesis
    by (auto simp: process_entry_def Some f repoT_def)
qed

lemma process_entries_total:
  assumes "ob_id ` set entries \<subseteq> ob_id ` set (db_outbox (se_pending s))"
    and "distinct (map d_id (concat (map (deliveries_for env (se_pending s)) entries)))"
    and "d_id ` set (concat (map (deliveries_for env (se_pending s)) entries)) \<inter>
         d_id ` set (db_deliveries (se_pending s)) = {}"
  shows "fst (process_entries env entries (s, x)) = Inr ()"
  using assms
proof (induction entries arbitrary: s x)
  case (Cons entry entries)
  have "fst (process_entry env entry (s, x)) = Inr ()"
    using Cons.prems by (intro process_entry_total) (auto simp: Int_Un_distrib2 image_Un)
  then obtain s1 x1 where p: "process_entry env entry (s, x) = (Inr (), s1, x1)"
    by (cases "process_entry env entry (s, x)") auto
  have s1: "se_pending s1 = se_pending s\<lparr>
      db_deliveries := db_deliveries (se_pending s) @ deliveries_for env (se_pending s) entry,
      db_outbox := update_by ob_id (ob_id entry) processed (db_outbox (se_pending s))\<rparr>"
    using process_entry_spec [OF p] by auto
  have same: "map (deliveries_for env (se_pending s1)) entries = map (deliveries_for env (se_pending s)) entries"
    by (intro map_cong refl deliveries_for_cong) (simp_all add: s1)
  have ids: "ob_id ` set (db_outbox (se_pending s1)) = ob_id ` set (db_outbox (se_pending s))"
    by (simp add: s1)
  have "fst (process_entries env entries (s1, x1)) = Inr ()"
  proof (rule Cons.IH)
    show "ob_id ` set entries \<subseteq> ob_id ` set (db_outbox (se_pending s1))" using Cons.prems(1) ids by simp
    show "distinct (map d_id (concat (map (deliveries_for env (se_pending s1)) entries)))"
      unfolding same using Cons.prems(2) by simp
    show "d_id ` set (concat (map (deliveries_for env (se_pending s1)) entries)) \<inter>
        d_id ` set (db_deliveries (se_pending s1)) = {}"
      unfolding same using Cons.prems(2,3) by (simp add: s1 image_Un) blast
  qed
  then show ?case by (simp add: p)
qed simp

lemma deliveries_for_claimed:
  "map (deliveries_for env (s\<lparr>db_outbox := rows\<rparr>)) (map (mark_claimed now) es) = map (deliveries_for env s) es"
  unfolding map_map comp_def by (intro map_cong refl deliveries_for_cong) simp_all

definition planned :: "relay_env \<Rightarrow> nat \<Rightarrow> db \<Rightarrow> delivery list" where
  "planned env n s = concat (map (deliveries_for env s) (outbox_due (re_locked env) n s))"

lemma relay_open_total:
  assumes "distinct (map d_id (planned env n (st_db st)))"
    and "d_id ` set (planned env n (st_db st)) \<inter> d_id ` set (db_deliveries (st_db st)) = {}"
  shows "fst (relay_open env n st x) = Inr (length (outbox_due (re_locked env) n (st_db st)))"
proof -
  let ?due = "outbox_due (re_locked env) n (st_db st)"
  obtain rows d where claim: "outbox_claim_due (re_now env) (re_locked env) n (st_db st) = (rows, d)" by fastforce
  then have rows: "rows = map (mark_claimed (re_now env)) ?due"
    and d: "\<exists>out. d = (st_db st)\<lparr>db_outbox := out\<rparr> \<and> map ob_id out = map ob_id (db_outbox (st_db st))"
    by (auto simp: outbox_claim_due_def Let_def intro!: exI)
  from d obtain out where out: "d = (st_db st)\<lparr>db_outbox := out\<rparr>" "map ob_id out = map ob_id (db_outbox (st_db st))"
    by blast
  have "set ?due \<subseteq> set (db_outbox (st_db st))"
    by (auto simp: outbox_due_def dest: in_set_takeD)
  moreover have "ob_id ` set out = ob_id ` set (db_outbox (st_db st))" using out(2) by (metis set_map)
  ultimately have "ob_id ` set rows \<subseteq> ob_id ` set (db_outbox d)" by (auto simp: rows out(1))
  moreover have "map (deliveries_for env d) rows = map (deliveries_for env (st_db st)) ?due"
    unfolding out(1) rows by (rule deliveries_for_claimed)
  ultimately have "fst (process_entries env rows ((uow_enter st)\<lparr>se_pending := d\<rparr>, x)) = Inr ()"
    using assms by (intro process_entries_total) (simp_all add: planned_def out(1))
  then show ?thesis
    by (auto simp: relay_open_def claimT_def claim rows split: prod.splits sum.splits)
qed

subsection \<open>Properties\<close>

text \<open>What a run returns, commits and publishes.\<close>

lemma relay_run_planned:
  assumes "distinct (map d_id (planned env n (st_db st)))"
    and "d_id ` set (planned env n (st_db st)) \<inter> d_id ` set (db_deliveries (st_db st)) = {}"
  shows "\<exists>st' x'. relay_run_once env n st x = (Inr (length (outbox_due (re_locked env) n (st_db st))), st', x') \<and>
    st_db st' = (st_db st)\<lparr>db_deliveries := db_deliveries (st_db st) @ planned env n (st_db st),
      db_outbox := map (\<lambda>e. if ob_id e \<in> ob_id ` set (outbox_due (re_locked env) n (st_db st))
                            then processed (mark_claimed (re_now env) e) else e) (db_outbox (st_db st))\<rparr> \<and>
    grown x (map d_id (planned env n (st_db st))) x'"
proof -
  obtain r s x' where op: "relay_open env n st x = (r, s, x')" by (metis prod_cases3)
  have r: "r = Inr (length (outbox_due (re_locked env) n (st_db st)))"
    using relay_open_total [OF assms(1,2), of x] op by simp
  from relay_open_spec [OF op] r have g: "grown x (map d_id (planned env n (st_db st))) x'"
    and p: "se_pending s = (st_db st)\<lparr>db_deliveries := db_deliveries (st_db st) @ planned env n (st_db st),
      db_outbox := map (\<lambda>e. if ob_id e \<in> ob_id ` set (outbox_due (re_locked env) n (st_db st))
                            then processed (mark_claimed (re_now env) e) else e) (db_outbox (st_db st))\<rparr>"
    unfolding planned_def by blast+
  have run: "relay_run_once env n st x =
      (Inr (length (outbox_due (re_locked env) n (st_db st))), uow_exit (snd (uow_commit s)), x')"
    by (simp add: relay_run_once_def op r)
  show ?thesis
    using g
    by (intro exI [of _ "uow_exit (snd (uow_commit s))"] exI [of _ x'] conjI run)
       (simp_all add: uow_commit_def p)
qed


definition demo_due :: store where
  "demo_due =
     \<lparr>st_db = empty_db\<lparr>
        db_tenants := [demo_tenant],
        db_endpoints := [\<lparr>ep_id = 3, ep_tenant_id = 1, ep_url = ''https://example.com/hook'',
          ep_secret = ''s3cret'', ep_event_types = [''order.paid''], ep_created_at = 2,
          ep_status = ACTIVE, ep_breaker_state = CLOSED, ep_opened_at = None,
          ep_consecutive_failures = 0\<rparr>],
        db_events := [accepted_event 7 5 1 ''order.paid'' (JObj []) ''k1'' None],
        db_outbox := [\<lparr>ob_id = 8, ob_event_id = 7, ob_status = OUTBOX_PENDING, ob_attempts = 0,
          ob_created_at = 5, ob_locked_at = None\<rparr>]\<rparr>,
      st_breaker_gauge = [], st_attempts_total = []\<rparr>"

definition demo_relay_env :: relay_env where
  "demo_relay_env = \<lparr>re_now = 6, re_now_ms = 6, re_locked = [], re_new_id = (\<lambda>e ep. 9)\<rparr>"

lemma demo_due_planned:
  "map d_id (planned demo_relay_env 50 (st_db demo_due)) = [9]"
  "db_deliveries (st_db demo_due) = []"
  by (simp_all add: planned_def demo_due_def demo_relay_env_def outbox_due_def deliveries_for_def
      fresh_delivery_def accepted_event_def events_get_def endpoints_list_active_subscribed_def
      is_active_def is_subscribed_to_def empty_db_def)


text \<open>
  A failed run loses nothing and commits nothing: whatever raises in the middle of a batch,
  the database is the one before, so every due row is still due; messages already published for
  the rolled-back deliveries stay in the stream, and nothing it owed is lost.
\<close>

theorem relay_run_error_rolls_back:
  assumes "relay_run_once env n st x = (Inl e, st', x')" and "stream_ok x"
  shows "st' = st \<and> stream_ok x' \<and> outstanding x \<subseteq> outstanding x'"
proof -
  obtain r s y where op: "relay_open env n st x = (r, s, y)" by (metis prod_cases3)
  with assms(1) have "st' = uow_exit s" "x' = y"
    by (auto simp: relay_run_once_def split: sum.splits)
  then show ?thesis
    using relay_open_spec [OF op] grown_ok [OF _ assms(2)] grown_outstanding [OF _ assms(2)] by blast
qed

text \<open>The identifier drawn for the delivery is one that is taken.\<close>

definition demo_clash :: store where
  "demo_clash = demo_due\<lparr>st_db := (st_db demo_due)\<lparr>db_deliveries :=
     [\<lparr>d_id = 9, d_event_id = 7, d_endpoint_id = 3, d_state = PENDING, d_attempt_count = 0,
       d_created_at = 5, d_next_retry_at = None\<rparr>]\<rparr>\<rparr>"

theorem relay_run_error_rolls_back_witness:
  "relay_run_once demo_relay_env 50 demo_clash empty_stream = (Inl IntegrityError, demo_clash, empty_stream)"
proof -
  obtain r st' x' where run: "relay_run_once demo_relay_env 50 demo_clash empty_stream = (r, st', x')"
    by (metis prod_cases3)
  have "r = Inl IntegrityError \<and> x' = empty_stream"
    using run
    by (simp add: relay_run_once_def relay_open_def claimT_def outbox_claim_due_def outbox_due_def
        demo_clash_def demo_due_def demo_relay_env_def Let_def process_entry_def events_get_def
        accepted_event_def mark_claimed_def endpoints_list_active_subscribed_def is_active_def
        is_subscribed_to_def empty_db_def repoT_def deliveries_create_def)
  with run relay_run_error_rolls_back [OF _ stream_ok_empty, of demo_relay_env 50 demo_clash] show ?thesis
    by auto
qed

end
