(* ===== verification/RetrySchedule.thy ===== *)
theory RetrySchedule
  imports Domain Wire "HOL-Library.List_Lexorder"
begin

section \<open>The retry schedule\<close>

text \<open>
  \<open>relay/infra/retry_schedule.py\<close>: the sorted set of retries scored by \<open>next_retry_at\<close>,
  \<open>ZADD\<close> and the Lua script \<open>_POP_DUE_SCRIPT\<close>, which Redis runs as one step. A member is the
  JSON envelope the code writes, kept as its two fields, or a bare string of the format before
  it; members are equal when their texts are, and \<open>ZRANGEBYSCORE\<close> orders equal scores by text.
  A score is the timestamp itself.
\<close>

datatype retry_member = Envelope uuid "string option" | Bare string

type_synonym retry_set = "(retry_member \<times> timestamp) list"

record due_retry =
  r_delivery_id :: uuid
  r_correlation_id :: "string option"

fun member_text :: "retry_member \<Rightarrow> string" where
  "member_text (Envelope d c) =
     json_dumps (\<lambda>_. []) (JObj [(''delivery_id'', JStr (uuid_str d)),
        (''correlation_id'', case c of None \<Rightarrow> JNull | Some s \<Rightarrow> JStr s)])"
| "member_text (Bare s) = s"

definition zadd :: "retry_member \<Rightarrow> timestamp \<Rightarrow> retry_set \<Rightarrow> retry_set" where
  "zadd m score z = filter (\<lambda>p. fst p \<noteq> m) z @ [(m, score)]"

definition schedule_retry :: "uuid \<Rightarrow> timestamp \<Rightarrow> string option \<Rightarrow> retry_set \<Rightarrow> retry_set" where
  "schedule_retry delivery_id next_retry_at correlation_id z =
     zadd (Envelope delivery_id correlation_id) next_retry_at z"

definition score_order :: "retry_member \<times> timestamp \<Rightarrow> timestamp \<times> nat list" where
  "score_order p = (snd p, map of_char (member_text (fst p)))"

definition pop_due_script :: "timestamp \<Rightarrow> nat \<Rightarrow> retry_set \<Rightarrow> retry_member list \<times> retry_set" where
  "pop_due_script now limit z =
     (let due = take limit (sort_key score_order (filter (\<lambda>p. snd p \<le> now) z))
      in (map fst due, filter (\<lambda>p. p \<notin> set due) z))"

fun parse_member :: "retry_member \<Rightarrow> error + due_retry" where
  "parse_member (Envelope d c) = Inr \<lparr>r_delivery_id = d, r_correlation_id = c\<rparr>"
| "parse_member (Bare s) =
     (case uuid_parse s of
        None \<Rightarrow> Inl (ValueError ''badly formed hexadecimal UUID string'')
      | Some d \<Rightarrow> Inr \<lparr>r_delivery_id = d, r_correlation_id = None\<rparr>)"

fun parse_members :: "retry_member list \<Rightarrow> error + due_retry list" where
  "parse_members [] = Inr []"
| "parse_members (m # ms) =
     res_bind (parse_member m) (\<lambda>r. res_bind (parse_members ms) (\<lambda>rs. Inr (r # rs)))"

definition pop_due_retries :: "timestamp \<Rightarrow> nat \<Rightarrow> retry_set \<Rightarrow> (error + due_retry list) \<times> retry_set" where
  "pop_due_retries now limit z =
     (let (ms, z') = pop_due_script now limit z in (parse_members ms, z'))"

text \<open>A member occurs once; the code writes envelopes.\<close>

definition retry_ok :: "retry_set \<Rightarrow> bool" where
  "retry_ok z \<longleftrightarrow> distinct (map fst z) \<and> (\<forall>m \<in> fst ` set z. \<exists>d c. m = Envelope d c)"

definition scheduled :: "retry_set \<Rightarrow> uuid set" where
  "scheduled z = {d. \<exists>c. Envelope d c \<in> fst ` set z}"

lemma retry_ok_zadd: "retry_ok z \<Longrightarrow> retry_ok (schedule_retry d t c z)"
  by (auto simp: retry_ok_def schedule_retry_def zadd_def intro: distinct_map_filterI)

lemma scheduled_schedule [simp]: "scheduled (schedule_retry d t c z) = insert d (scheduled z)"
  by (force simp: scheduled_def schedule_retry_def zadd_def)

subsection \<open>The contract of a due-time queue\<close>

text \<open>
  What the scheduler relies on: a queue of items with due times whose \<open>pop\<close> takes out due items
  only, splits the contents, prefers earlier items, and leaves no due item while it has room.
\<close>

locale due_queue =
  fixes items :: "'q \<Rightarrow> ('m \<times> 't :: linorder) set"
    and pop :: "'t \<Rightarrow> nat \<Rightarrow> 'q \<Rightarrow> ('m \<times> 't) list \<times> 'q"
  assumes pop_splits: "pop now n q = (ps, q') \<Longrightarrow> set ps \<union> items q' = items q \<and> set ps \<inter> items q' = {}"
    and pop_due: "pop now n q = (ps, q') \<Longrightarrow> p \<in> set ps \<Longrightarrow> snd p \<le> now"
    and pop_earliest: "pop now n q = (ps, q') \<Longrightarrow> p \<in> set ps \<Longrightarrow> r \<in> items q' \<Longrightarrow> snd r \<le> now \<Longrightarrow> snd p \<le> snd r"
    and pop_room: "pop now n q = (ps, q') \<Longrightarrow> length ps < n \<Longrightarrow> r \<in> items q' \<Longrightarrow> \<not> snd r \<le> now"
begin

text \<open>Two pops in a row never hand out the same item.\<close>

lemma pops_disjoint:
  assumes "pop t n q = (ps, q')" "pop t' n' q' = (ps', q'')"
  shows "set ps \<inter> set ps' = {}"
  using pop_splits [OF assms(1)] pop_splits [OF assms(2)] by blast

text \<open>An item stays until it is due.\<close>

lemma not_due_stays:
  assumes "pop now n q = (ps, q')" "r \<in> items q" "now < snd r"
  shows "r \<in> items q'"
proof -
  have "r \<notin> set ps" using pop_due [OF assms(1), of r] assms(3) by (meson leD)
  then show ?thesis using pop_splits [OF assms(1)] assms(2) by blast
qed

lemma due_leaves_or_full:
  assumes "pop now n q = (ps, q')" "r \<in> items q" "snd r \<le> now"
  shows "r \<in> set ps \<or> n \<le> length ps"
  using pop_splits [OF assms(1)] pop_room [OF assms(1), of r] assms(2,3) by force

end

definition pop_items :: "timestamp \<Rightarrow> nat \<Rightarrow> retry_set \<Rightarrow> (retry_member \<times> timestamp) list \<times> retry_set" where
  "pop_items now limit z =
     (let due = take limit (sort_key score_order (filter (\<lambda>p. snd p \<le> now) z))
      in (due, filter (\<lambda>p. p \<notin> set due) z))"

lemma pop_due_script_items:
  "pop_due_script now n z = map_prod (map fst) id (pop_items now n z)"
  by (simp add: pop_due_script_def pop_items_def Let_def)

lemma take_sort_key_least:
  assumes "p \<in> set (take n (sort_key f xs))" "r \<in> set xs" "r \<notin> set (take n (sort_key f xs))"
  shows "f p \<le> f r"
proof -
  let ?s = "sort_key f xs"
  have "sorted (map f (take n ?s @ drop n ?s))" by simp
  then have "\<forall>x \<in> set (take n ?s). \<forall>y \<in> set (drop n ?s). f x \<le> f y"
    unfolding map_append sorted_append by auto
  moreover have "r \<in> set (drop n ?s)"
    using assms(2,3) by (metis Un_iff append_take_drop_id set_append set_sort)
  ultimately show ?thesis using assms(1) by blast
qed

interpretation retries: due_queue set pop_items
proof
  fix now :: timestamp and n :: nat and q q' :: retry_set and ps
  assume run: "pop_items now n q = (ps, q')"
  let ?due = "filter (\<lambda>p. snd p \<le> now) q"
  have ps: "ps = take n (sort_key score_order ?due)" and q': "q' = filter (\<lambda>p. p \<notin> set ps) q"
    using run by (auto simp: pop_items_def Let_def)
  have sub: "set ps \<subseteq> set ?due" unfolding ps using set_take_subset by fastforce
  show "set ps \<union> set q' = set q \<and> set ps \<inter> set q' = {}" using sub by (auto simp: q')
  fix p assume p: "p \<in> set ps"
  then show "snd p \<le> now" using sub by auto
  fix r assume r: "r \<in> set q'" "snd r \<le> now"
  then have "score_order p \<le> score_order r"
    using p take_sort_key_least [of p n score_order ?due r] by (auto simp: q' ps)
  then show "snd p \<le> snd r" by (auto simp: score_order_def less_eq_prod_def)
next
  fix now :: timestamp and n :: nat and q q' :: retry_set and ps r
  assume run: "pop_items now n q = (ps, q')" and len: "length ps < n" and r: "r \<in> set q'"
  have "ps = sort_key score_order (filter (\<lambda>p. snd p \<le> now) q)"
    using run len by (auto simp: pop_items_def Let_def)
  then show "\<not> snd r \<le> now" using run r by (auto simp: pop_items_def Let_def)
qed

lemma parse_members_envelopes:
  "\<forall>m \<in> set ms. \<exists>d c. m = Envelope d c \<Longrightarrow>
   \<exists>rs. parse_members ms = Inr rs \<and>
     map (\<lambda>r. Envelope (r_delivery_id r) (r_correlation_id r)) rs = ms"
  by (induction ms) auto

lemma pop_due_retries_ok:
  assumes "retry_ok z" "pop_items now n z = (ps, z')"
  shows "\<exists>rs. pop_due_retries now n z = (Inr rs, z') \<and>
    map (\<lambda>r. Envelope (r_delivery_id r) (r_correlation_id r)) rs = map fst ps \<and> retry_ok z'"
proof -
  have sub: "set ps \<subseteq> set z" "set z' \<subseteq> set z" using retries.pop_splits [OF assms(2)] by auto
  then have "\<forall>m \<in> set (map fst ps). \<exists>d c. m = Envelope d c"
    using assms(1) by (auto simp: retry_ok_def)
  then obtain rs where rs: "parse_members (map fst ps) = Inr rs"
      "map (\<lambda>r. Envelope (r_delivery_id r) (r_correlation_id r)) rs = map fst ps"
    using parse_members_envelopes by blast
  have "retry_ok z'"
    using assms sub by (auto simp: retry_ok_def pop_items_def Let_def distinct_map_filterI)
  with rs show ?thesis using assms(2) by (simp add: pop_due_retries_def pop_due_script_items)
qed

subsection \<open>Properties\<close>

text \<open>
  C14. Popping due retries is exact: on a set of envelopes the answer and what is left are a
  partition of the scheduled deliveries by member, everything answered was due, the answer is at
  most \<open>limit\<close> long, what was not yet due is still scheduled, and a due member is left behind
  only if \<open>limit\<close> others, none of them due later, were answered instead.
\<close>

theorem pop_due_retries_is_exact:
  assumes "retry_ok z"
  shows "\<exists>rs z'. pop_due_retries now limit z = (Inr rs, z') \<and>
    set (map (\<lambda>r. Envelope (r_delivery_id r) (r_correlation_id r)) rs) \<union> fst ` set z' = fst ` set z \<and>
    set (map (\<lambda>r. Envelope (r_delivery_id r) (r_correlation_id r)) rs) \<inter> fst ` set z' = {} \<and>
    length rs \<le> limit \<and>
    (\<forall>r \<in> set rs. \<exists>t. (Envelope (r_delivery_id r) (r_correlation_id r), t) \<in> set z \<and> t \<le> now) \<and>
    (\<forall>(m, t) \<in> set z. now < t \<longrightarrow> (m, t) \<in> set z') \<and>
    (\<forall>(m, t) \<in> set z'. t \<le> now \<longrightarrow> length rs = limit \<and>
       (\<forall>r \<in> set rs. \<forall>u. (Envelope (r_delivery_id r) (r_correlation_id r), u) \<in> set z \<longrightarrow> u \<le> t))"
proof -
  obtain ps z' where run: "pop_items now limit z = (ps, z')" by fastforce
  then obtain rs where rs: "pop_due_retries now limit z = (Inr rs, z')"
      "map (\<lambda>r. Envelope (r_delivery_id r) (r_correlation_id r)) rs = map fst ps"
    using pop_due_retries_ok [OF assms] by blast
  let ?env = "\<lambda>r. Envelope (r_delivery_id r) (r_correlation_id r)"
  have len: "length rs = length ps" using rs(2) by (metis length_map)
  have lim: "length ps \<le> limit" using run by (auto simp: pop_items_def Let_def)
  have split: "set ps \<union> set z' = set z" "set ps \<inter> set z' = {}"
    using retries.pop_splits [OF run] by auto
  have inj: "inj_on fst (set z)" using assms by (simp add: retry_ok_def distinct_map)
  have env: "?env r \<in> fst ` set ps" if "r \<in> set rs" for r
  proof -
    have "?env r \<in> set (map ?env rs)" using that by simp
    then show ?thesis unfolding rs(2) by simp
  qed
  have unique: "(?env r, u) \<in> set ps" if ru: "r \<in> set rs" "(?env r, u) \<in> set z" for r u
  proof -
    obtain p where p: "p \<in> set ps" "fst p = ?env r" using env [OF ru(1)] by (metis imageE)
    then have "p = (?env r, u)" using inj_onD [OF inj, of p "(?env r, u)"] ru(2) split(1) by auto
    then show ?thesis using p(1) by simp
  qed
  have "fst ` set ps \<union> fst ` set z' = fst ` set z" using split(1) by auto
  moreover have "fst ` set ps \<inter> fst ` set z' = {}"
  proof -
    have "p = q" if "p \<in> set ps" "q \<in> set z'" "fst p = fst q" for p q
      using inj_onD [OF inj that(3)] that split(1) by blast
    then show ?thesis using split(2) by blast
  qed
  moreover have "\<forall>r \<in> set rs. \<exists>t. (?env r, t) \<in> set z \<and> t \<le> now"
    using env split(1) retries.pop_due [OF run] by fastforce
  moreover have "\<forall>(m, t) \<in> set z. now < t \<longrightarrow> (m, t) \<in> set z'"
    using retries.not_due_stays [OF run] by auto
  moreover have "\<forall>(m, t) \<in> set z'. t \<le> now \<longrightarrow> length rs = limit"
    using retries.pop_room [OF run] len lim by fastforce
  moreover have "\<forall>(m, t) \<in> set z'. t \<le> now \<longrightarrow> (\<forall>r \<in> set rs. \<forall>u. (?env r, u) \<in> set z \<longrightarrow> u \<le> t)"
    using retries.pop_earliest [OF run] unique by fastforce
  ultimately show ?thesis using rs len lim by (intro exI [of _ rs] exI [of _ z']) auto
qed

theorem pop_due_retries_is_exact_witness:
  "retry_ok (schedule_retry 1 100 None (schedule_retry 2 50 (Some ''t'') [])) \<and>
   (\<exists>rs z'. pop_due_retries 60 10 (schedule_retry 1 100 None (schedule_retry 2 50 (Some ''t'') [])) = (Inr rs, z') \<and>
      (Envelope 1 None, 100) \<in> set z')"
proof -
  let ?z = "schedule_retry 1 100 None (schedule_retry 2 50 (Some ''t'') [])"
  have ok: "retry_ok ?z" by (intro retry_ok_zadd) (simp add: retry_ok_def)
  moreover have "(Envelope 1 None, 100) \<in> set ?z" by (simp add: schedule_retry_def zadd_def)
  ultimately show ?thesis using pop_due_retries_is_exact [OF ok, of 60 10] by fastforce
qed

end
