(* ===== verification/Pool.thy ===== *)
theory Pool
  imports Domain
begin

section \<open>The dispatcher's pool of tasks\<close>

text \<open>
  The loop of \<open>run_forever\<close> in \<open>relay/workers/dispatcher.py\<close> and the semaphores that
  \<open>_handle_and_ack\<close> takes and releases around one delivery. The global semaphore is taken before
  the task is created; the task looks the endpoint up, creates that endpoint's semaphore on first
  use and takes it; both are released in the \<open>finally\<close> block, on every path. A state is the value
  of the global semaphore, the dict of endpoint semaphores and the tasks with the point each is
  suspended at; a step is one task (or the loop) running to its next suspension point.
\<close>

datatype phase = Looking | Waiting uuid | Running "uuid option"

record pool =
  po_permits :: nat
  po_endpoints :: "uuid \<rightharpoonup> nat"
  po_tasks :: "phase list"

definition pool_init :: "nat \<Rightarrow> pool" where
  "pool_init concurrency = \<lparr>po_permits = concurrency, po_endpoints = Map.empty, po_tasks = []\<rparr>"

text \<open>\<open>endpoint_semaphore\<close>: the value of the endpoint's semaphore, a new one on first use.\<close>

definition endpoint_semaphore :: "nat \<Rightarrow> uuid \<Rightarrow> pool \<Rightarrow> nat \<times> pool" where
  "endpoint_semaphore per_endpoint endpoint_id po =
     (case po_endpoints po endpoint_id of
        Some v \<Rightarrow> (v, po)
      | None \<Rightarrow> (per_endpoint, po\<lparr>po_endpoints := (po_endpoints po)(endpoint_id \<mapsto> per_endpoint)\<rparr>))"

definition set_task :: "nat \<Rightarrow> phase \<Rightarrow> pool \<Rightarrow> pool" where
  "set_task i ph po = po\<lparr>po_tasks := (po_tasks po)[i := ph]\<rparr>"

definition drop_task :: "nat \<Rightarrow> pool \<Rightarrow> pool" where
  "drop_task i po = po\<lparr>po_tasks := take i (po_tasks po) @ drop (Suc i) (po_tasks po)\<rparr>"

text \<open>\<open>await semaphore.acquire()\<close> and \<open>create_task\<close> in the loop.\<close>

definition spawn :: "pool \<Rightarrow> pool option" where
  "spawn po =
     (if po_permits po = 0 then None
      else Some (po\<lparr>po_permits := po_permits po - 1, po_tasks := po_tasks po @ [Looking]\<rparr>))"

text \<open>
  The task after its lookup: it runs ungated, takes the endpoint's semaphore, or waits for it.
\<close>

definition looked_up :: "nat \<Rightarrow> nat \<Rightarrow> uuid option \<Rightarrow> pool \<Rightarrow> pool" where
  "looked_up per_endpoint i endpoint_id po =
     (case endpoint_id of
        None \<Rightarrow> set_task i (Running None) po
      | Some ep \<Rightarrow>
          (let (v, po') = endpoint_semaphore per_endpoint ep po in
           if v = 0 then set_task i (Waiting ep) po'
           else set_task i (Running (Some ep)) (po'\<lparr>po_endpoints := (po_endpoints po')(ep \<mapsto> v - 1)\<rparr>)))"

text \<open>The \<open>finally\<close> block.\<close>

definition finish_task :: "nat \<Rightarrow> uuid option \<Rightarrow> pool \<Rightarrow> pool" where
  "finish_task i acquired po =
     (let po' = (case acquired of
                   None \<Rightarrow> po
                 | Some ep \<Rightarrow> po\<lparr>po_endpoints := (po_endpoints po)(ep := map_option Suc (po_endpoints po ep))\<rparr>)
      in drop_task i (po'\<lparr>po_permits := po_permits po' + 1\<rparr>))"

inductive pool_step :: "nat \<Rightarrow> pool \<Rightarrow> pool \<Rightarrow> bool" for per_endpoint where
  spawn: "spawn po = Some po' \<Longrightarrow> pool_step per_endpoint po po'"
| looked: "i < length (po_tasks po) \<Longrightarrow> po_tasks po ! i = Looking \<Longrightarrow>
    pool_step per_endpoint po (looked_up per_endpoint i endpoint_id po)"
| lookup_raises: "i < length (po_tasks po) \<Longrightarrow> po_tasks po ! i = Looking \<Longrightarrow>
    pool_step per_endpoint po (finish_task i None po)"
| acquired: "i < length (po_tasks po) \<Longrightarrow> po_tasks po ! i = Waiting ep \<Longrightarrow>
    po_endpoints po ep = Some (Suc v) \<Longrightarrow>
    pool_step per_endpoint po (set_task i (Running (Some ep)) (po\<lparr>po_endpoints := (po_endpoints po)(ep \<mapsto> v)\<rparr>))"
| finished: "i < length (po_tasks po) \<Longrightarrow> po_tasks po ! i = Running gate \<Longrightarrow>
    pool_step per_endpoint po (finish_task i gate po)"

inductive_cases pool_step_cases: "pool_step per_endpoint po po'"

subsection \<open>Invariant\<close>

definition running :: "pool \<Rightarrow> uuid \<Rightarrow> nat" where
  "running po ep = count_list (po_tasks po) (Running (Some ep))"

definition pool_ok :: "nat \<Rightarrow> nat \<Rightarrow> pool \<Rightarrow> bool" where
  "pool_ok concurrency per_endpoint po \<longleftrightarrow>
     po_permits po + length (po_tasks po) = concurrency \<and>
     (\<forall>ep. case po_endpoints po ep of
        None \<Rightarrow> running po ep = 0 \<and> Waiting ep \<notin> set (po_tasks po)
      | Some v \<Rightarrow> v + running po ep = per_endpoint)"

lemma count_list_update:
  "i < length xs \<Longrightarrow> count_list (xs[i := y]) x + (if xs ! i = x then 1 else 0) =
     count_list xs x + (if y = x then 1 else 0)"
proof (induction xs arbitrary: i)
  case (Cons a xs)
  show ?case
  proof (cases i)
    case (Suc j)
    then show ?thesis using Cons.IH [of j] Cons.prems by (auto split: if_splits)
  qed (auto split: if_splits)
qed simp

lemma count_list_drop_at:
  "i < length xs \<Longrightarrow> count_list (take i xs @ drop (Suc i) xs) x + (if xs ! i = x then 1 else 0) = count_list xs x"
proof (induction xs arbitrary: i)
  case (Cons a xs)
  show ?case
  proof (cases i)
    case (Suc j)
    then show ?thesis using Cons.IH [of j] Cons.prems by (auto split: if_splits)
  qed (auto split: if_splits)
qed simp

lemma set_update_other: "i < length xs \<Longrightarrow> set (xs[i := y]) \<subseteq> insert y (set xs)"
  by (meson set_update_subset_insert)

lemma set_drop_at: "set (take i xs @ drop (Suc i) xs) \<subseteq> set xs"
  using set_take_subset set_drop_subset by fastforce

lemma pool_ok_init: "pool_ok c p (pool_init c)"
  by (simp add: pool_ok_def pool_init_def running_def)

text \<open>
  A task moves from one phase to another with the semaphores adjusted: what must be shown of the
  counts, once for every step that keeps the number of tasks.
\<close>

lemma pool_ok_set_task:
  assumes ok: "pool_ok c p po" and i: "i < length (po_tasks po)"
    and old: "\<And>e. po_tasks po ! i \<noteq> Running (Some e)"
    and eps: "\<And>e. case m e of
        None \<Rightarrow> po_endpoints po e = None \<and> ph \<noteq> Running (Some e) \<and> ph \<noteq> Waiting e
      | Some v \<Rightarrow> v + (if ph = Running (Some e) then 1 else 0) = (case po_endpoints po e of None \<Rightarrow> p | Some u \<Rightarrow> u)"
  shows "pool_ok c p (set_task i ph (po\<lparr>po_endpoints := m\<rparr>))"
  unfolding pool_ok_def
proof (intro conjI allI)
  show "po_permits (set_task i ph (po\<lparr>po_endpoints := m\<rparr>)) +
      length (po_tasks (set_task i ph (po\<lparr>po_endpoints := m\<rparr>))) = c"
    using ok by (simp add: pool_ok_def set_task_def)
  fix e
  have cnt: "running (set_task i ph (po\<lparr>po_endpoints := m\<rparr>)) e =
      running po e + (if ph = Running (Some e) then 1 else 0)"
    using count_list_update [OF i, of ph "Running (Some e)"] old [of e]
    by (simp add: running_def set_task_def)
  have sub: "set (po_tasks (set_task i ph (po\<lparr>po_endpoints := m\<rparr>))) \<subseteq> insert ph (set (po_tasks po))"
    using set_update_other [OF i] by (simp add: set_task_def)
  have inv: "case po_endpoints po e of
        None \<Rightarrow> running po e = 0 \<and> Waiting e \<notin> set (po_tasks po)
      | Some v \<Rightarrow> v + running po e = p" using ok by (simp add: pool_ok_def)
  show "case po_endpoints (set_task i ph (po\<lparr>po_endpoints := m\<rparr>)) e of
        None \<Rightarrow> running (set_task i ph (po\<lparr>po_endpoints := m\<rparr>)) e = 0 \<and>
          Waiting e \<notin> set (po_tasks (set_task i ph (po\<lparr>po_endpoints := m\<rparr>)))
      | Some v \<Rightarrow> v + running (set_task i ph (po\<lparr>po_endpoints := m\<rparr>)) e = p"
    using eps [of e] inv sub cnt
    by (auto simp: set_task_def split: option.splits if_splits)
qed

lemma pool_ok_finish:
  assumes ok: "pool_ok c p po" and i: "i < length (po_tasks po)"
    and gate: "\<And>e. po_tasks po ! i = Running (Some e) \<longleftrightarrow> gate = Some e"
  shows "pool_ok c p (finish_task i gate po)"
  unfolding pool_ok_def
proof (intro conjI allI)
  show "po_permits (finish_task i gate po) + length (po_tasks (finish_task i gate po)) = c"
    using ok i by (auto simp: pool_ok_def finish_task_def drop_task_def Let_def split: option.splits)
  fix e
  have tasks: "po_tasks (finish_task i gate po) = take i (po_tasks po) @ drop (Suc i) (po_tasks po)"
    by (simp add: finish_task_def drop_task_def Let_def split: option.splits)
  have cnt: "running (finish_task i gate po) e + (if gate = Some e then 1 else 0) = running po e"
    using count_list_drop_at [OF i, of "Running (Some e)"] gate [of e] by (simp add: running_def tasks)
  have sub: "set (po_tasks (finish_task i gate po)) \<subseteq> set (po_tasks po)"
    unfolding tasks by (rule set_drop_at)
  have eps: "po_endpoints (finish_task i gate po) e =
      (if gate = Some e then map_option Suc (po_endpoints po e) else po_endpoints po e)"
    by (auto simp: finish_task_def drop_task_def Let_def split: option.splits)
  have inv: "case po_endpoints po e of
        None \<Rightarrow> running po e = 0 \<and> Waiting e \<notin> set (po_tasks po)
      | Some v \<Rightarrow> v + running po e = p" using ok by (simp add: pool_ok_def)
  show "case po_endpoints (finish_task i gate po) e of
        None \<Rightarrow> running (finish_task i gate po) e = 0 \<and> Waiting e \<notin> set (po_tasks (finish_task i gate po))
      | Some v \<Rightarrow> v + running (finish_task i gate po) e = p"
    using inv sub cnt eps by (auto split: option.splits if_splits)
qed

lemma set_task_same: "set_task i ph po = set_task i ph (po\<lparr>po_endpoints := po_endpoints po\<rparr>)"
  by simp

lemma pool_ok_looked_up:
  assumes "pool_ok c p po" "i < length (po_tasks po)" "po_tasks po ! i = Looking"
  shows "pool_ok c p (looked_up p i endpoint_id po)"
proof (cases endpoint_id)
  case None
  have "pool_ok c p (set_task i (Running None) (po\<lparr>po_endpoints := po_endpoints po\<rparr>))"
    using assms by (intro pool_ok_set_task) (auto split: option.split)
  then show ?thesis by (simp add: looked_up_def None)
next
  case (Some ep)
  let ?v = "case po_endpoints po ep of None \<Rightarrow> p | Some v \<Rightarrow> v"
  let ?m = "(po_endpoints po)(ep \<mapsto> if ?v = 0 then 0 else ?v - 1)"
  let ?ph = "if ?v = 0 then Waiting ep else Running (Some ep)"
  have "pool_ok c p (set_task i ?ph (po\<lparr>po_endpoints := ?m\<rparr>))"
    using assms by (intro pool_ok_set_task) (auto split: option.split)
  moreover have "looked_up p i endpoint_id po = set_task i ?ph (po\<lparr>po_endpoints := ?m\<rparr>)"
    by (auto simp: looked_up_def Some endpoint_semaphore_def set_task_def Let_def fun_upd_idem split: option.split)
  ultimately show ?thesis by simp
qed

lemma pool_ok_step: "pool_step p po po' \<Longrightarrow> pool_ok c p po \<Longrightarrow> pool_ok c p po'"
proof (induction rule: pool_step.induct)
  case (spawn po po')
  then have "0 < po_permits po"
    and po': "po' = po\<lparr>po_permits := po_permits po - 1, po_tasks := po_tasks po @ [Looking]\<rparr>"
    by (auto simp: spawn_def split: if_splits)
  have same: "running po' e = running po e" "Waiting e \<in> set (po_tasks po') \<longleftrightarrow> Waiting e \<in> set (po_tasks po)"
    "po_endpoints po' e = po_endpoints po e" for e
    by (simp_all add: po' running_def)
  have "po_permits po' + length (po_tasks po') = po_permits po + length (po_tasks po)"
    using \<open>0 < po_permits po\<close> by (simp add: po')
  with spawn.prems show ?case unfolding pool_ok_def same by simp
next
  case (acquired i po ep v)
  then show ?case by (intro pool_ok_set_task) (auto split: option.split)
qed (auto intro: pool_ok_looked_up pool_ok_finish)

text \<open>Every step but \<open>spawn\<close> brings the tasks closer to their end.\<close>

fun phase_weight :: "phase \<Rightarrow> nat" where
  "phase_weight Looking = 3"
| "phase_weight (Waiting _) = 2"
| "phase_weight (Running _) = 1"

definition pool_work :: "pool \<Rightarrow> nat" where
  "pool_work po = sum_list (map phase_weight (po_tasks po))"

definition drain_step :: "nat \<Rightarrow> pool \<Rightarrow> pool \<Rightarrow> bool" where
  "drain_step per_endpoint po po' \<longleftrightarrow> pool_step per_endpoint po po' \<and> spawn po \<noteq> Some po'"

lemma sum_weight_update:
  "i < length xs \<Longrightarrow> sum_list (map phase_weight (xs[i := y])) + phase_weight (xs ! i) =
     sum_list (map phase_weight xs) + phase_weight y"
proof (induction xs arbitrary: i)
  case (Cons a xs)
  show ?case
  proof (cases i)
    case (Suc j)
    then show ?thesis using Cons.IH [of j] Cons.prems by (auto split: if_splits)
  qed (auto split: if_splits)
qed simp

lemma sum_weight_drop_at:
  "i < length xs \<Longrightarrow> sum_list (map phase_weight (take i xs @ drop (Suc i) xs)) + phase_weight (xs ! i) =
     sum_list (map phase_weight xs)"
proof (induction xs arbitrary: i)
  case (Cons a xs)
  show ?case
  proof (cases i)
    case (Suc j)
    then show ?thesis using Cons.IH [of j] Cons.prems by (auto split: if_splits)
  qed (auto split: if_splits)
qed simp

lemma set_task_work:
  "i < length (po_tasks po) \<Longrightarrow> phase_weight ph < phase_weight (po_tasks po ! i) \<Longrightarrow>
   pool_work (set_task i ph (po\<lparr>po_endpoints := m\<rparr>)) < pool_work po"
  using sum_weight_update [of i "po_tasks po" ph] by (simp add: pool_work_def set_task_def)

lemma finish_work: "i < length (po_tasks po) \<Longrightarrow> pool_work (finish_task i gate po) < pool_work po"
proof -
  assume i: "i < length (po_tasks po)"
  have "0 < phase_weight (po_tasks po ! i)" by (cases "po_tasks po ! i") auto
  then show ?thesis
    using sum_weight_drop_at [OF i]
    by (simp add: pool_work_def finish_task_def drop_task_def Let_def split: option.splits)
qed

lemma looked_up_work:
  assumes "i < length (po_tasks po)" "po_tasks po ! i = Looking"
  shows "pool_work (looked_up p i endpoint_id po) < pool_work po"
proof -
  have "\<exists>ph m. looked_up p i endpoint_id po = set_task i ph (po\<lparr>po_endpoints := m\<rparr>) \<and> ph \<noteq> Looking"
  proof (cases endpoint_id)
    case None
    then show ?thesis by (intro exI [of _ "Running None"] exI [of _ "po_endpoints po"]) (simp add: looked_up_def)
  next
    case (Some ep)
    then show ?thesis
      by (cases "po_endpoints po ep")
         (fastforce simp: looked_up_def endpoint_semaphore_def Let_def
           intro: exI [of _ "po_endpoints po"])+
  qed
  then obtain ph m where l: "looked_up p i endpoint_id po = set_task i ph (po\<lparr>po_endpoints := m\<rparr>)" "ph \<noteq> Looking"
    by blast
  have "phase_weight ph < phase_weight (po_tasks po ! i)" using l(2) assms(2) by (cases ph) auto
  then show ?thesis unfolding l(1) by (rule set_task_work [OF assms(1)])
qed

lemma drain_decreases: "drain_step p po po' \<Longrightarrow> pool_work po' < pool_work po"
  unfolding drain_step_def
  by (elim conjE pool_step_cases) (auto intro: looked_up_work finish_work set_task_work)

lemma drain_length:
  "(drain_step p ^^ n) po po' \<Longrightarrow> n + pool_work po' \<le> pool_work po"
proof (induction n arbitrary: po')
  case (Suc n)
  then obtain z where "(drain_step p ^^ n) po z" "drain_step p z po'" by auto
  then show ?case using Suc.IH drain_decreases by fastforce
qed simp

lemma pool_work_bound: "pool_work po \<le> 3 * length (po_tasks po)"
proof -
  have "sum_list (map phase_weight xs) \<le> 3 * length xs" for xs
  proof (induction xs)
    case (Cons ph xs)
    then show ?case by (cases ph) auto
  qed simp
  then show ?thesis by (simp add: pool_work_def)
qed

lemma drain_progress:
  assumes ok: "pool_ok c p po" and "0 < p" and "po_tasks po \<noteq> []"
  shows "\<exists>po'. drain_step p po po'"
proof -
  have not_spawn: "drain_step p po po'" if "pool_step p po po'" "pool_work po' < pool_work po" for po'
    using that by (auto simp: drain_step_def spawn_def pool_work_def split: if_splits)
  consider (look) "Looking \<in> set (po_tasks po)" | (run) gate where "Running gate \<in> set (po_tasks po)"
    | (wait) ep where "Waiting ep \<in> set (po_tasks po)" "\<forall>gate. Running gate \<notin> set (po_tasks po)"
    using assms(3) by (metis list.set_intros(1) neq_Nil_conv phase.exhaust)
  then show ?thesis
  proof cases
    case look
    then obtain i where "i < length (po_tasks po)" "po_tasks po ! i = Looking" by (metis in_set_conv_nth)
    then show ?thesis using not_spawn [OF pool_step.looked looked_up_work] by blast
  next
    case run
    then obtain i where "i < length (po_tasks po)" "po_tasks po ! i = Running gate" by (metis in_set_conv_nth)
    then show ?thesis using not_spawn [OF pool_step.finished finish_work] by blast
  next
    case wait
    then obtain i where i: "i < length (po_tasks po)" "po_tasks po ! i = Waiting ep" by (metis in_set_conv_nth)
    have "running po ep = 0" using wait(2) by (simp add: running_def count_list_0_iff)
    then have "po_endpoints po ep = Some p"
      using ok wait(1) by (auto simp: pool_ok_def split: option.splits dest!: spec [of _ ep])
    then obtain v where "po_endpoints po ep = Some (Suc v)" using assms(2) by (cases p) auto
    then show ?thesis
      using not_spawn [OF pool_step.acquired set_task_work] i by fastforce
  qed
qed

interpretation pool_run: step_invariant "pool_step p" "pool_ok c p" for p c
  by unfold_locales (rule pool_ok_step)

lemma pool_ok_reachable: "(pool_step p)\<^sup>*\<^sup>* (pool_init c) po \<Longrightarrow> pool_ok c p po"
  by (rule pool_run.reachable_inv [OF _ pool_ok_init])

subsection \<open>Properties\<close>


lemma pool_step_demo:
  "(pool_step 3)\<^sup>*\<^sup>* (pool_init 10)
     \<lparr>po_permits = 9, po_endpoints = Map.empty, po_tasks = [Looking]\<rparr>"
  by (rule r_into_rtranclp, rule pool_step.spawn) (simp add: spawn_def pool_init_def)


text \<open>
  C30. Shutdown's \<open>gather\<close> returns: from any reachable state, once the loop has stopped spawning,
  the tasks make at most three steps each, and as long as one is left some step can be taken, so
  every run of them that is not cut short ends with no task in flight.
\<close>

theorem pool_drains:
  assumes "(pool_step per_endpoint)\<^sup>*\<^sup>* (pool_init concurrency) po" and "0 < per_endpoint"
  shows "((drain_step per_endpoint ^^ n) po po' \<longrightarrow> n \<le> 3 * length (po_tasks po)) \<and>
    ((drain_step per_endpoint)\<^sup>*\<^sup>* po po' \<and> po_tasks po' \<noteq> [] \<longrightarrow> (\<exists>po''. drain_step per_endpoint po' po''))"
proof (intro conjI impI)
  show "n \<le> 3 * length (po_tasks po)" if "(drain_step per_endpoint ^^ n) po po'"
    using drain_length [OF that] pool_work_bound [of po] by simp
  assume "(drain_step per_endpoint)\<^sup>*\<^sup>* po po' \<and> po_tasks po' \<noteq> []"
  then have run: "(drain_step per_endpoint)\<^sup>*\<^sup>* po po'" and busy: "po_tasks po' \<noteq> []" by simp_all
  have "(pool_step per_endpoint)\<^sup>*\<^sup>* po po'"
    using run by (rule rtranclp_mono [THEN predicate2D, rotated]) (auto simp: drain_step_def)
  then have "pool_ok concurrency per_endpoint po'"
    using assms(1) by (intro pool_ok_reachable) (rule rtranclp_trans)
  then show "\<exists>po''. drain_step per_endpoint po' po''" by (rule drain_progress [OF _ assms(2) busy])
qed

theorem pool_drains_witness:
  "\<exists>po''. drain_step 3 \<lparr>po_permits = 9, po_endpoints = Map.empty, po_tasks = [Looking]\<rparr> po''"
  using pool_drains [OF pool_step_demo, of 0 "\<lparr>po_permits = 9, po_endpoints = Map.empty, po_tasks = [Looking]\<rparr>"]
  by simp

text \<open>The pool after \<open>n\<close> messages for one and the same endpoint.\<close>

definition hogged :: "nat \<Rightarrow> nat \<Rightarrow> uuid \<Rightarrow> nat \<Rightarrow> pool" where
  "hogged concurrency per_endpoint ep n =
     \<lparr>po_permits = concurrency - n,
      po_endpoints = (if n = 0 then Map.empty else [ep \<mapsto> per_endpoint - n]),
      po_tasks = replicate (min n per_endpoint) (Running (Some ep)) @ replicate (n - per_endpoint) (Waiting ep)\<rparr>"

lemma hogged_reachable:
  "n \<le> concurrency \<Longrightarrow> 0 < per_endpoint \<Longrightarrow>
   (pool_step per_endpoint)\<^sup>*\<^sup>* (pool_init concurrency) (hogged concurrency per_endpoint ep n)"
proof (induction n)
  case 0
  then show ?case by (simp add: hogged_def pool_init_def)
next
  case (Suc n)
  let ?h = "hogged concurrency per_endpoint ep n"
  let ?s = "?h\<lparr>po_permits := po_permits ?h - 1, po_tasks := po_tasks ?h @ [Looking]\<rparr>"
  have len: "length (po_tasks ?h) = n" by (simp add: hogged_def)
  have "spawn ?h = Some ?s" using Suc.prems by (simp add: spawn_def hogged_def)
  then have s1: "pool_step per_endpoint ?h ?s" by (rule pool_step.spawn)
  have s2: "pool_step per_endpoint ?s (looked_up per_endpoint n (Some ep) ?s)"
    by (rule pool_step.looked) (simp_all add: len nth_append)
  have "looked_up per_endpoint n (Some ep) ?s = hogged concurrency per_endpoint ep (Suc n)"
  proof (cases "n < per_endpoint")
    case True
    then have "replicate n (Running (Some ep)) @ [Running (Some ep)] = replicate (Suc n) (Running (Some ep))"
      by (simp add: replicate_append_same)
    then show ?thesis
      using True len Suc.prems
      by (auto simp: looked_up_def endpoint_semaphore_def hogged_def set_task_def Let_def list_update_append)
  next
    case False
    then have "replicate (n - per_endpoint) (Waiting ep) @ [Waiting ep] = replicate (Suc n - per_endpoint) (Waiting ep)"
      by (simp add: replicate_append_same Suc_diff_le)
    then show ?thesis
      using False len Suc.prems
      by (auto simp: looked_up_def endpoint_semaphore_def hogged_def set_task_def Let_def list_update_append)
  qed
  with s2 have "pool_step per_endpoint ?s (hogged concurrency per_endpoint ep (Suc n))" by simp
  with Suc s1 show ?case by (meson Suc_leD rtranclp.rtrancl_into_rtrancl)
qed

text \<open>
  The per-endpoint cap does not keep one slow destination from taking the whole pool: because a
  task holds its global permit while it waits for its endpoint's semaphore, enough messages for
  one endpoint leave no permit for any other, although only \<open>per_endpoint\<close> of them are being
  attempted; the loop cannot spawn, and stays so until one of those attempts ends.
\<close>

theorem one_endpoint_exhausts_the_pool:
  assumes "0 < per_endpoint"
  shows "\<exists>po. (pool_step per_endpoint)\<^sup>*\<^sup>* (pool_init concurrency) po \<and> spawn po = None \<and>
    length (po_tasks po) = concurrency \<and> set (po_tasks po) \<subseteq> {Running (Some ep), Waiting ep} \<and>
    count_list (po_tasks po) (Running (Some ep)) = min concurrency per_endpoint"
proof (intro exI [of _ "hogged concurrency per_endpoint ep concurrency"] conjI)
  show "(pool_step per_endpoint)\<^sup>*\<^sup>* (pool_init concurrency) (hogged concurrency per_endpoint ep concurrency)"
    using assms by (intro hogged_reachable) simp_all
  have "count_list (replicate k x) y = (if x = y then k else 0)" for k and x y :: phase
    by (induction k) auto
  then show "count_list (po_tasks (hogged concurrency per_endpoint ep concurrency)) (Running (Some ep)) =
      min concurrency per_endpoint"
    by (simp add: hogged_def)
qed (auto simp: hogged_def spawn_def)

theorem one_endpoint_exhausts_the_pool_witness:
  "\<exists>po. (pool_step 3)\<^sup>*\<^sup>* (pool_init 10) po \<and> spawn po = None \<and>
    count_list (po_tasks po) (Running (Some 7)) = 3"
  using one_endpoint_exhausts_the_pool [of 3 10 7] by auto

end
