(* ===== verification/Workers.thy ===== *)
theory Workers
  imports DeliveryAttempts RelayWorker RetrySchedule
begin

section \<open>Dispatcher, reaper, scheduler and replay\<close>

text \<open>
  \<open>relay/workers/dispatcher.py\<close>, \<open>relay/workers/reaper.py\<close>, \<open>relay/workers/scheduler.py\<close> and
  \<open>relay/services/deliveries/replay_service.py\<close>, over one world: the store, the delivery stream,
  the retry schedule and what was published on the live feed. A dispatcher task is its whole
  \<open>_handle_and_ack\<close> (the semaphores are in the pool), a reaper or scheduler run its \<open>run_once\<close>.
\<close>

record world =
  w_store :: store
  w_stream :: redis_stream
  w_retries :: retry_set
  w_feed :: "(string \<times> string) list"

text \<open>One attempt with its effects before the retry is scheduled, then the whole message.\<close>

definition attempt_in ::
  "settings \<Rightarrow> attempt_env \<Rightarrow> uuid \<Rightarrow> world \<Rightarrow> (error + delivery) \<times> world" where
  "attempt_in cfg env delivery_id w =
     (case attempt cfg env delivery_id (w_store w) of
        (r, st, pubs) \<Rightarrow> (r, w\<lparr>w_store := st, w_feed := w_feed w @ pubs\<rparr>))"

definition schedule_if_retrying :: "delivery \<Rightarrow> string option \<Rightarrow> world \<Rightarrow> world" where
  "schedule_if_retrying d correlation_id w =
     (if d_state d = RETRYING
      then (case d_next_retry_at d of
              None \<Rightarrow> w
            | Some t \<Rightarrow> w\<lparr>w_retries := schedule_retry (d_id d) t correlation_id (w_retries w)\<rparr>)
      else w)"

definition process_delivery_message ::
  "settings \<Rightarrow> attempt_env \<Rightarrow> uuid \<Rightarrow> string option \<Rightarrow> world \<Rightarrow> (error + unit) \<times> world" where
  "process_delivery_message cfg env delivery_id correlation_id w =
     (case attempt_in cfg env delivery_id w of
        (Inl e, w') \<Rightarrow> (Inl e, w')
      | (Inr d, w') \<Rightarrow> (Inr (), schedule_if_retrying d correlation_id w'))"

subsection \<open>The dispatcher\<close>

definition lookup_endpoint_id :: "uuid \<Rightarrow> store \<Rightarrow> uuid option" where
  "lookup_endpoint_id delivery_id st = map_option d_endpoint_id (deliveries_get delivery_id (st_db st))"

definition ack_message :: "delivery_message \<Rightarrow> world \<Rightarrow> world" where
  "ack_message m w = w\<lparr>w_stream := ack_delivery (m_id m) (w_stream w)\<rparr>"

definition handle_and_ack :: "settings \<Rightarrow> attempt_env \<Rightarrow> delivery_message \<Rightarrow> world \<Rightarrow> world" where
  "handle_and_ack cfg env m w =
     (case process_delivery_message cfg env (m_delivery_id m) (m_correlation_id m) w of
        (Inl e, w') \<Rightarrow> w'
      | (Inr _, w') \<Rightarrow> ack_message m w')"

definition sample_queue_metrics :: "redis_stream \<Rightarrow> error + nat \<times> nat" where
  "sample_queue_metrics s = res_bind (pending_count s) (\<lambda>p. Inr (stream_depth s, p))"

text \<open>One turn of the loop: what was read, the two gauges, and the new stream.\<close>

definition dispatcher_poll ::
  "nat \<Rightarrow> string \<Rightarrow> nat \<Rightarrow> world \<Rightarrow> (error + delivery_message list \<times> nat \<times> nat) \<times> world" where
  "dispatcher_poll now_ms consumer concurrency w =
     (case read_deliveries now_ms consumer concurrency (w_stream w) of
        (Inl e, x) \<Rightarrow> (Inl e, w\<lparr>w_stream := x\<rparr>)
      | (Inr ms, x) \<Rightarrow>
          (res_bind (sample_queue_metrics x) (\<lambda>(depth, pending). Inr (ms, depth, pending)), w\<lparr>w_stream := x\<rparr>))"

subsection \<open>The reaper\<close>

definition DEFAULT_CLAIM_COUNT :: nat where "DEFAULT_CLAIM_COUNT = 50"

definition reap_message :: "settings \<Rightarrow> attempt_env \<Rightarrow> delivery_message \<Rightarrow> world \<Rightarrow> world" where
  "reap_message cfg env m w =
     (case process_delivery_message cfg env (m_delivery_id m) (m_correlation_id m) w of
        (Inr _, w') \<Rightarrow> ack_message m w'
      | (Inl (NotFoundError _), w') \<Rightarrow> ack_message m w'
      | (Inl _, w') \<Rightarrow> w')"

fun reap_messages :: "settings \<Rightarrow> (message_id \<Rightarrow> attempt_env) \<Rightarrow> delivery_message list \<Rightarrow> world \<Rightarrow> world" where
  "reap_messages cfg envs [] w = w"
| "reap_messages cfg envs (m # ms) w = reap_messages cfg envs ms (reap_message cfg (envs (m_id m)) m w)"

definition reaper_run_once ::
  "settings \<Rightarrow> (message_id \<Rightarrow> attempt_env) \<Rightarrow> nat \<Rightarrow> string \<Rightarrow> nat \<Rightarrow> world \<Rightarrow> (error + nat) \<times> world" where
  "reaper_run_once cfg envs now_ms consumer min_idle_ms w =
     (case claim_stale_deliveries now_ms consumer min_idle_ms DEFAULT_CLAIM_COUNT (w_stream w) of
        (Inl e, x) \<Rightarrow> (Inl e, w\<lparr>w_stream := x\<rparr>)
      | (Inr claimed, x) \<Rightarrow> (Inr (length claimed), reap_messages cfg envs claimed (w\<lparr>w_stream := x\<rparr>)))"

subsection \<open>The scheduler\<close>

fun fire_retries :: "nat \<Rightarrow> due_retry list \<Rightarrow> redis_stream \<Rightarrow> redis_stream" where
  "fire_retries now_ms [] x = x"
| "fire_retries now_ms (r # rs) x =
     fire_retries now_ms rs (snd (enqueue_delivery now_ms (r_delivery_id r) (r_correlation_id r) x))"

definition scheduler_run_once :: "timestamp \<Rightarrow> nat \<Rightarrow> nat \<Rightarrow> world \<Rightarrow> (error + nat) \<times> world" where
  "scheduler_run_once now now_ms limit w =
     (case pop_due_retries now limit (w_retries w) of
        (Inl e, z) \<Rightarrow> (Inl e, w\<lparr>w_retries := z\<rparr>)
      | (Inr due, z) \<Rightarrow>
          (Inr (length due), w\<lparr>w_retries := z, w_stream := fire_retries now_ms due (w_stream w)\<rparr>))"

subsection \<open>Replay of a dead delivery\<close>

definition replay_body :: "uuid \<Rightarrow> uuid \<Rightarrow> delivery tx" where
  "replay_body delivery_id tenant_id =
     bindT (readT (deliveries_get delivery_id)) (\<lambda>d0.
     bindT (requireT (NotFoundError delivery_id) d0) (\<lambda>d.
     bindT (readT (events_get (d_event_id d))) (\<lambda>ev0.
     bindT (requireT (NotFoundError delivery_id)
              (case ev0 of None \<Rightarrow> None | Some ev \<Rightarrow> if ev_tenant_id ev = tenant_id then Some ev else None)) (\<lambda>_.
     if d_state d \<noteq> DEAD then raiseT (DeliveryNotDeadError delivery_id (d_state d))
     else bindT (repoT (deliveries_reset_for_replay delivery_id)) (\<lambda>replayed.
          bindT uow_commit (\<lambda>_. returnT replayed))))))"

definition replay :: "nat \<Rightarrow> uuid \<Rightarrow> uuid \<Rightarrow> world \<Rightarrow> (error + delivery) \<times> world" where
  "replay now_ms delivery_id tenant_id w =
     (case with_uow (replay_body delivery_id tenant_id) (w_store w) of
        (Inl e, st) \<Rightarrow> (Inl e, w\<lparr>w_store := st\<rparr>)
      | (Inr d, st) \<Rightarrow>
          (Inr d, w\<lparr>w_store := st, w_stream := snd (enqueue_delivery now_ms (d_id d) None (w_stream w))\<rparr>))"

end
