(* ===== verification/Url.thy ===== *)
theory Url
  imports Wire
begin

section \<open>URLs and IP addresses of the standard library\<close>

text \<open>
  What the code uses of Python 3.12's \<open>urllib.parse\<close> (\<open>urlsplit\<close>, \<open>urlparse\<close>, \<open>urljoin\<close>,
  \<open>hostname\<close>, \<open>port\<close>) and \<open>ipaddress\<close> (\<open>ip_address\<close> and the properties of an address). A
  \<open>str\<close> is a list of code points below 256, for which the NFKC check of \<open>urlsplit\<close> never raises.
  An address is its 32-bit or 128-bit value; a scope identifier after \<open>%\<close> is checked and dropped.
\<close>

subsection \<open>Strings\<close>

definition py_lower_char :: "char \<Rightarrow> char" where
  "py_lower_char c =
     (let n = of_char c :: nat in
      if (65 \<le> n \<and> n \<le> 90) \<or> (192 \<le> n \<and> n \<le> 222 \<and> n \<noteq> 215) then char_of (n + 32) else c)"

definition py_lower :: "string \<Rightarrow> string" where
  "py_lower s = map py_lower_char s"

definition is_ascii_alpha :: "char \<Rightarrow> bool" where
  "is_ascii_alpha c = (let n = of_char c :: nat in (65 \<le> n \<and> n \<le> 90) \<or> (97 \<le> n \<and> n \<le> 122))"

text \<open>\<open>s.split(sep)\<close>.\<close>

fun split_on :: "char \<Rightarrow> string \<Rightarrow> string list" where
  "split_on sep [] = [[]]"
| "split_on sep (c # cs) =
     (if c = sep then [] # split_on sep cs
      else case split_on sep cs of [] \<Rightarrow> [[c]] | p # ps \<Rightarrow> (c # p) # ps)"

text \<open>\<open>repr\<close> of a string.\<close>

definition repr_char :: "char \<Rightarrow> char \<Rightarrow> string" where
  "repr_char quote c =
     (let n = of_char c :: nat in
      if c = quote \<or> n = 92 then [CHR 92, c]
      else if n = 10 then [CHR 92, CHR ''n''] else if n = 13 then [CHR 92, CHR ''r'']
      else if n = 9 then [CHR 92, CHR ''t'']
      else if n < 32 \<or> (127 \<le> n \<and> n \<le> 160) \<or> n = 173
      then [CHR 92, CHR ''x''] @ byte_hex (of_nat n) else [c])"

definition py_repr :: "string \<Rightarrow> string" where
  "py_repr s =
     (let quote = (if CHR 39 \<in> set s \<and> CHR 34 \<notin> set s then CHR 34 else CHR 39)
      in [quote] @ concat (map (repr_char quote) s) @ [quote])"

text \<open>\<open>s.partition(sep)\<close> as the pair around the first separator, and \<open>s.rpartition(sep)[2]\<close>.\<close>

definition py_partition :: "char \<Rightarrow> string \<Rightarrow> string \<times> bool \<times> string" where
  "py_partition sep s = (case partition_at sep s of None \<Rightarrow> (s, False, []) | Some (a, b) \<Rightarrow> (a, True, b))"

definition after_last :: "char \<Rightarrow> string \<Rightarrow> string" where
  "after_last sep s = rev (takeWhile (\<lambda>c. c \<noteq> sep) (rev s))"

subsection \<open>IP addresses\<close>

datatype ip_address = IPv4 "32 word" | IPv6 "128 word"

definition parse_octet :: "string \<Rightarrow> nat option" where
  "parse_octet s =
     (if s = [] \<or> \<not> list_all is_digit s \<or> 3 < length s \<or> (s \<noteq> ''0'' \<and> hd s = CHR ''0'') \<or> 255 < decimal_value s
      then None else Some (decimal_value s))"

definition parse_ipv4 :: "string \<Rightarrow> 32 word option" where
  "parse_ipv4 s =
     (case map parse_octet (split_on CHR ''.'' s) of
        [Some a, Some b, Some c, Some d] \<Rightarrow> Some (of_nat (((a * 256 + b) * 256 + c) * 256 + d))
      | _ \<Rightarrow> None)"

definition parse_hextet :: "string \<Rightarrow> nat option" where
  "parse_hextet s =
     (if 4 < length s then None else case digits16 False 0 s of
        Some n \<Rightarrow> if CHR ''_'' \<in> set s then None else Some n | None \<Rightarrow> None)"

text \<open>
  The parts between the colons: a dotted quad at the end stands for two of them, and one empty
  part in the middle for the missing zeros, with the empty ones next to it at either end.
\<close>

definition hextets :: "nat option list \<Rightarrow> nat option" where
  "hextets hs = foldl (\<lambda>acc h. case (acc, h) of (Some n, Some v) \<Rightarrow> Some (n * 65536 + v) | _ \<Rightarrow> None) (Some 0) hs"

definition ipv6_parts :: "string list \<Rightarrow> nat option list option" where
  "ipv6_parts ps =
     (if length ps < 3 then None
      else if CHR ''.'' \<in> set (last ps)
      then (case parse_ipv4 (last ps) of
              None \<Rightarrow> None
            | Some v \<Rightarrow> Some (map (\<lambda>p. if p = [] then None else parse_hextet p) (butlast ps) @
                              [Some (unat v div 65536), Some (unat v mod 65536)]))
      else Some (map (\<lambda>p. if p = [] then None else parse_hextet p) ps))"

definition parse_ipv6_body :: "string \<Rightarrow> 128 word option" where
  "parse_ipv6_body s =
     (let ps = split_on CHR '':'' s;
          quad = CHR ''.'' \<in> set (last ps);
          n = length ps + (if quad then 1 else 0)
      in case ipv6_parts ps of
           None \<Rightarrow> None
         | Some hs \<Rightarrow>
             if 9 < n then None
             else case filter (\<lambda>i. i < length ps \<and> ps ! i = []) [1 ..< n - 1] of
               [] \<Rightarrow> if n \<noteq> 8 then None else map_option of_nat (hextets hs)
             | [k] \<Rightarrow>
                 let lead = ps ! 0 = []; trail = \<not> quad \<and> last ps = [];
                     hi = (if lead then k - 1 else k);
                     lo = (if trail then n - k - 2 else n - k - 1)
                 in if (lead \<and> 0 < hi) \<or> (trail \<and> 0 < lo) \<or> 8 \<le> hi + lo then None
                    else map_option of_nat
                      (hextets (take hi hs @ replicate (8 - (hi + lo)) (Some 0) @
                                (if trail then [] else drop (k + 1) hs)))
             | _ \<Rightarrow> None)"

definition parse_ipv6 :: "string \<Rightarrow> 128 word option" where
  "parse_ipv6 s =
     (let (addr, sep, scope) = py_partition CHR ''%'' s
      in if sep \<and> (scope = [] \<or> CHR ''%'' \<in> set scope) then None else parse_ipv6_body addr)"

definition parse_ip :: "string \<Rightarrow> error + ip_address" where
  "parse_ip s =
     (if CHR ''/'' \<in> set s then Inl (ValueError ''not an IPv4 or IPv6 address'')
      else case parse_ipv4 s of
        Some a \<Rightarrow> Inr (IPv4 a)
      | None \<Rightarrow> (case parse_ipv6 s of
                  Some a \<Rightarrow> Inr (IPv6 a)
                | None \<Rightarrow> Inl (ValueError ''not an IPv4 or IPv6 address'')))"

text \<open>Membership in the network \<open>base / len\<close>.\<close>

definition in_net :: "('a::len) word \<Rightarrow> nat \<Rightarrow> 'a word \<Rightarrow> bool" where
  "in_net base len a \<longleftrightarrow> drop_bit (LENGTH('a) - len) a = drop_bit (LENGTH('a) - len) base"

definition v4 :: "nat \<Rightarrow> nat \<Rightarrow> nat \<Rightarrow> nat \<Rightarrow> 32 word" where
  "v4 a b c d = of_nat (((a * 256 + b) * 256 + c) * 256 + d)"

text \<open>An IPv6 network is written by its leading 16-bit groups.\<close>

definition v6 :: "nat list \<Rightarrow> 128 word" where
  "v6 gs = of_nat (foldl (\<lambda>n g. n * 65536 + g) 0 gs * 65536 ^ (8 - length gs))"

definition private4 :: "(32 word \<times> nat) list" where
  "private4 =
     [(v4 0 0 0 0, 8), (v4 10 0 0 0, 8), (v4 127 0 0 0, 8), (v4 169 254 0 0, 16), (v4 172 16 0 0, 12),
      (v4 192 0 0 0, 24), (v4 192 0 0 170, 31), (v4 192 0 2 0, 24), (v4 192 168 0 0, 16),
      (v4 198 18 0 0, 15), (v4 198 51 100 0, 24), (v4 203 0 113 0, 24), (v4 240 0 0 0, 4),
      (v4 255 255 255 255, 32)]"

definition is_private4 :: "32 word \<Rightarrow> bool" where
  "is_private4 a \<longleftrightarrow>
     list_ex (\<lambda>(b, n). in_net b n a) private4 \<and> a \<noteq> v4 192 0 0 9 \<and> a \<noteq> v4 192 0 0 10"

definition private6 :: "(128 word \<times> nat) list" where
  "private6 =
     [(v6 [0, 0, 0, 0, 0, 0, 0, 1], 128), (v6 [0], 128), (v6 [0, 0, 0, 0, 0, 65535], 96),
      (v6 [100, 65435, 1], 48), (v6 [256], 64), (v6 [8193], 23), (v6 [8193, 3512], 32),
      (v6 [8194], 16), (v6 [64512], 7), (v6 [65152], 10)]"

definition public6 :: "(128 word \<times> nat) list" where
  "public6 =
     [(v6 [8193, 1, 0, 0, 0, 0, 0, 1], 128), (v6 [8193, 1, 0, 0, 0, 0, 0, 2], 128), (v6 [8193, 3], 32),
      (v6 [8193, 4, 274], 48), (v6 [8193, 32], 28), (v6 [8193, 48], 28)]"

definition reserved6 :: "(128 word \<times> nat) list" where
  "reserved6 =
     [(v6 [0], 8), (v6 [256], 8), (v6 [512], 7), (v6 [1024], 6), (v6 [2048], 5), (v6 [4096], 4),
      (v6 [16384], 3), (v6 [24576], 3), (v6 [32768], 3), (v6 [40960], 3), (v6 [49152], 3),
      (v6 [57344], 4), (v6 [61440], 5), (v6 [63488], 6), (v6 [65024], 9)]"

definition ipv4_mapped :: "128 word \<Rightarrow> 32 word option" where
  "ipv4_mapped a = (if drop_bit 32 a = 65535 then Some (ucast a) else None)"

definition is_private6 :: "128 word \<Rightarrow> bool" where
  "is_private6 a =
     (case ipv4_mapped a of
        Some m \<Rightarrow> is_private4 m
      | None \<Rightarrow> list_ex (\<lambda>(b, n). in_net b n a) private6 \<and> \<not> list_ex (\<lambda>(b, n). in_net b n a) public6)"

fun is_loopback :: "ip_address \<Rightarrow> bool" where
  "is_loopback (IPv4 a) = in_net (v4 127 0 0 0) 8 a"
| "is_loopback (IPv6 a) = (a = 1)"

fun is_link_local :: "ip_address \<Rightarrow> bool" where
  "is_link_local (IPv4 a) = in_net (v4 169 254 0 0) 16 a"
| "is_link_local (IPv6 a) = in_net (v6 [65152]) 10 a"

fun is_private :: "ip_address \<Rightarrow> bool" where
  "is_private (IPv4 a) = is_private4 a"
| "is_private (IPv6 a) = is_private6 a"

fun is_reserved :: "ip_address \<Rightarrow> bool" where
  "is_reserved (IPv4 a) = in_net (v4 240 0 0 0) 4 a"
| "is_reserved (IPv6 a) = list_ex (\<lambda>(b, n). in_net b n a) reserved6"

fun is_multicast :: "ip_address \<Rightarrow> bool" where
  "is_multicast (IPv4 a) = in_net (v4 224 0 0 0) 4 a"
| "is_multicast (IPv6 a) = in_net (v6 [65280]) 8 a"

fun is_unspecified :: "ip_address \<Rightarrow> bool" where
  "is_unspecified (IPv4 a) = (a = 0)"
| "is_unspecified (IPv6 a) = (a = 0)"

subsection \<open>Splitting a URL\<close>

record url_parts =
  u_scheme :: string
  u_netloc :: string
  u_path :: string
  u_query :: string
  u_fragment :: string

definition is_c0_or_space :: "char \<Rightarrow> bool" where
  "is_c0_or_space c \<longleftrightarrow> (of_char c :: nat) \<le> 32"

definition is_scheme_char :: "char \<Rightarrow> bool" where
  "is_scheme_char c \<longleftrightarrow> is_ascii_alpha c \<or> is_digit c \<or> c \<in> {CHR ''+'', CHR ''-'', CHR ''.''}"

definition split_scheme :: "string \<Rightarrow> string \<Rightarrow> string \<times> string" where
  "split_scheme dflt url =
     (case partition_at CHR '':'' url of
        Some (s, rest) \<Rightarrow>
          if s \<noteq> [] \<and> is_ascii_alpha (hd s) \<and> list_all is_scheme_char s
          then (py_lower s, rest) else (dflt, url)
      | None \<Rightarrow> (dflt, url))"

text \<open>A bracketed host is an IPv6 address or an \<open>IPvFuture\<close> one.\<close>

definition bracketed_host_ok :: "string \<Rightarrow> bool" where
  "bracketed_host_ok h =
     (if h \<noteq> [] \<and> hd h = CHR ''v''
      then (case partition_at CHR ''.'' (tl h) of
              Some (a, b) \<Rightarrow> a \<noteq> [] \<and> list_all (\<lambda>c. hex_value c \<noteq> None) a \<and> b \<noteq> [] \<and> CHR 0x0A \<notin> set b
            | None \<Rightarrow> False)
      else case parse_ip h of Inr (IPv6 a) \<Rightarrow> True | _ \<Rightarrow> False)"

definition brackets_ok :: "string \<Rightarrow> bool" where
  "brackets_ok netloc =
     (if (CHR ''['' \<in> set netloc) \<noteq> (CHR '']'' \<in> set netloc) then False
      else if CHR ''['' \<in> set netloc
      then bracketed_host_ok (fst (py_partition CHR '']'' (snd (snd (py_partition CHR ''['' netloc)))))
      else True)"

definition urlsplit_with :: "string \<Rightarrow> string \<Rightarrow> error + url_parts" where
  "urlsplit_with dflt url0 =
     (let url1 = filter (\<lambda>c. c \<notin> {CHR 0x09, CHR 0x0D, CHR 0x0A}) (dropWhile is_c0_or_space url0);
          (scheme, url2) = split_scheme dflt url1;
          slashes = take 2 url2 = ''//'';
          body = (if slashes then drop 2 url2 else url2);
          netloc = (if slashes then takeWhile (\<lambda>c. c \<notin> {CHR ''/'', CHR ''?'', CHR ''#''}) body else []);
          rest = drop (length netloc) body;
          (r1, _, fragment) = py_partition CHR ''#'' rest;
          (path, _, query) = py_partition CHR ''?'' r1
      in if \<not> brackets_ok netloc then Inl (ValueError ''Invalid IPv6 URL'')
         else Inr \<lparr>u_scheme = scheme, u_netloc = netloc, u_path = path, u_query = query, u_fragment = fragment\<rparr>)"

definition urlsplit :: "string \<Rightarrow> error + url_parts" where
  "urlsplit url = urlsplit_with [] url"

definition hostinfo :: "string \<Rightarrow> string \<times> string" where
  "hostinfo netloc =
     (let h = after_last CHR ''@'' netloc in
      case partition_at CHR ''['' h of
        Some (_, b) \<Rightarrow>
          (let (host, _, p) = py_partition CHR '']'' b in (host, snd (snd (py_partition CHR '':'' p))))
      | None \<Rightarrow> (let (host, _, p) = py_partition CHR '':'' h in (host, p)))"

definition url_hostname :: "url_parts \<Rightarrow> string option" where
  "url_hostname u =
     (let h = fst (hostinfo (u_netloc u)) in
      if h = [] then None
      else let (name, pct, zone) = py_partition CHR ''%'' h
        in Some (py_lower name @ (if pct then ''%'' else []) @ zone))"

definition url_port :: "url_parts \<Rightarrow> error + nat option" where
  "url_port u =
     (let p = snd (hostinfo (u_netloc u)) in
      if p = [] then Inr None
      else if \<not> list_all is_digit p then Inl (ValueError ''Port could not be cast to integer value'')
      else if 65535 < decimal_value p then Inl (ValueError ''Port out of range 0-65535'')
      else Inr (Some (decimal_value p)))"

subsection \<open>Joining a redirect target\<close>

definition uses_relative :: "string list" where
  "uses_relative = [[], ''ftp'', ''http'', ''gopher'', ''nntp'', ''imap'', ''wais'', ''file'', ''https'',
     ''shttp'', ''mms'', ''prospero'', ''rtsp'', ''rtsps'', ''rtspu'', ''sftp'', ''svn'', ''svn+ssh'', ''ws'', ''wss'']"

definition uses_netloc :: "string list" where
  "uses_netloc = [[], ''ftp'', ''http'', ''gopher'', ''nntp'', ''telnet'', ''imap'', ''wais'', ''file'', ''mms'',
     ''https'', ''shttp'', ''snews'', ''prospero'', ''rtsp'', ''rtsps'', ''rtspu'', ''rsync'', ''svn'',
     ''svn+ssh'', ''sftp'', ''nfs'', ''git'', ''git+ssh'', ''ws'', ''wss'']"

definition uses_params :: "string list" where
  "uses_params = [[], ''ftp'', ''hdl'', ''prospero'', ''http'', ''imap'', ''https'', ''shttp'', ''rtsp'',
     ''rtsps'', ''rtspu'', ''sip'', ''sips'', ''mms'', ''sftp'', ''tel'']"

definition split_params :: "string \<Rightarrow> string \<Rightarrow> string \<times> string" where
  "split_params scheme path =
     (if scheme \<in> set uses_params
      then (let tail = after_last CHR ''/'' path; (a, _, b) = py_partition CHR '';'' tail
            in (take (length path - length tail) path @ a, b))
      else (path, []))"

definition urlunsplit :: "string \<Rightarrow> string \<Rightarrow> string \<Rightarrow> string \<Rightarrow> string \<Rightarrow> string" where
  "urlunsplit scheme netloc url query fragment =
     (let u1 = (if netloc \<noteq> [] \<or> (scheme \<noteq> [] \<and> scheme \<in> set uses_netloc) \<or> take 2 url = ''//''
                then ''//'' @ netloc @ (if url \<noteq> [] \<and> hd url \<noteq> CHR ''/'' then ''/'' else []) @ url else url);
          u2 = (if scheme \<noteq> [] then scheme @ '':'' @ u1 else u1);
          u3 = (if query \<noteq> [] then u2 @ ''?'' @ query else u2)
      in if fragment \<noteq> [] then u3 @ ''#'' @ fragment else u3)"

definition urlunparse :: "string \<Rightarrow> string \<Rightarrow> string \<Rightarrow> string \<Rightarrow> string \<Rightarrow> string \<Rightarrow> string" where
  "urlunparse scheme netloc path params query fragment =
     urlunsplit scheme netloc (if params \<noteq> [] then path @ '';'' @ params else path) query fragment"

fun resolve_dots :: "string list \<Rightarrow> string list \<Rightarrow> string list" where
  "resolve_dots acc [] = rev acc"
| "resolve_dots acc (s # ss) =
     (if s = ''..'' then resolve_dots (drop 1 acc) ss
      else if s = ''.'' then resolve_dots acc ss
      else resolve_dots (s # acc) ss)"

definition merge_segments :: "string \<Rightarrow> string \<Rightarrow> string list" where
  "merge_segments bpath path =
     (if take 1 path = ''/'' then split_on CHR ''/'' path
      else let bs = split_on CHR ''/'' bpath;
               bs' = (if last bs \<noteq> [] then butlast bs else bs);
               ss = bs' @ split_on CHR ''/'' path
        in if length ss < 3 then ss
           else hd ss # filter (\<lambda>s. s \<noteq> []) (butlast (tl ss)) @ [last ss])"

definition urljoin :: "string \<Rightarrow> string \<Rightarrow> error + string" where
  "urljoin base url =
     (if base = [] then Inr url else if url = [] then Inr base
      else res_bind (urlsplit base) (\<lambda>b.
        res_bind (urlsplit_with (u_scheme b) url) (\<lambda>u.
        let (bpath, bparams) = split_params (u_scheme b) (u_path b);
            (path, params) = split_params (u_scheme u) (u_path u)
        in Inr (
          if u_scheme u \<noteq> u_scheme b \<or> u_scheme u \<notin> set uses_relative then url
          else if u_scheme u \<in> set uses_netloc \<and> u_netloc u \<noteq> []
          then urlunparse (u_scheme u) (u_netloc u) path params (u_query u) (u_fragment u)
          else
            let netloc = (if u_scheme u \<in> set uses_netloc then u_netloc b else u_netloc u) in
            if path = [] \<and> params = []
            then urlunparse (u_scheme u) netloc bpath bparams
                   (if u_query u = [] then u_query b else u_query u) (u_fragment u)
            else
              let ss = merge_segments bpath path;
                  out = resolve_dots [] ss @ (if last ss \<in> {''.'', ''..''} then [[]] else []);
                  joined = join_with ''/'' out
              in urlunparse (u_scheme u) netloc (if joined = [] then ''/'' else joined) params
                   (u_query u) (u_fragment u)))))"

end
