(* ===== verification/Ssrf.thy ===== *)
theory Ssrf
  imports Url "HOL-Library.List_Lexorder"
begin

section \<open>The SSRF guard\<close>

text \<open>
  \<open>relay/infra/ssrf_guard.py\<close>. The resolver is an argument: for a host name it returns the
  addresses as text or raises; \<open>OSError\<close> is what \<open>socket.getaddrinfo\<close> raises for a failed lookup
  and the only exception \<open>check_url\<close> catches, any other one and the \<open>ValueError\<close>s of the URL's
  parts go through to the caller.
\<close>

type_synonym resolver = "string \<Rightarrow> error + string list"

definition CGNAT_NETWORK :: "32 word \<times> nat" where "CGNAT_NETWORK = (v4 100 64 0 0, 10)"
definition METADATA_IP :: ip_address where "METADATA_IP = IPv4 (v4 169 254 169 254)"

text \<open>\<open>socket.getaddrinfo\<close> is the argument \<open>infos\<close>; the answer is sorted without duplicates.\<close>

definition default_resolver :: "(string \<Rightarrow> error + string list) \<Rightarrow> resolver" where
  "default_resolver getaddrinfo hostname =
     res_bind (getaddrinfo hostname) (\<lambda>infos. Inr (sort_key (map (of_char :: char \<Rightarrow> nat)) (remdups infos)))"

record ssrf_check_result =
  sc_allowed :: bool
  sc_hostname :: "string option"
  sc_port :: "nat option"
  sc_resolved_ip :: "string option"
  sc_reason :: "string option"

definition is_denied :: "ip_address \<Rightarrow> bool" where
  "is_denied ip =
     (if is_loopback ip \<or> is_link_local ip \<or> is_private ip \<or> is_reserved ip then True
      else if is_multicast ip \<or> is_unspecified ip then True
      else if (case ip of IPv4 a \<Rightarrow> in_net (fst CGNAT_NETWORK) (snd CGNAT_NETWORK) a | IPv6 _ \<Rightarrow> False) then True
      else ip = METADATA_IP)"

definition denied_result :: "string option \<Rightarrow> nat option \<Rightarrow> string option \<Rightarrow> string \<Rightarrow> ssrf_check_result" where
  "denied_result hostname port ip reason =
     \<lparr>sc_allowed = False, sc_hostname = hostname, sc_port = port, sc_resolved_ip = ip, sc_reason = Some reason\<rparr>"

text \<open>The loop over the candidates: \<open>None\<close> when every one may be reached.\<close>

fun first_denied :: "string list \<Rightarrow> error + string option" where
  "first_denied [] = Inr None"
| "first_denied (c # cs) =
     res_bind (parse_ip c) (\<lambda>ip. if is_denied ip then Inr (Some c) else first_denied cs)"

definition check_candidates :: "string \<Rightarrow> nat \<Rightarrow> string list \<Rightarrow> error + ssrf_check_result" where
  "check_candidates hostname port candidates =
     (if candidates = []
      then Inr (denied_result (Some hostname) (Some port) None ''dns resolution returned no addresses'')
      else res_bind (first_denied candidates) (\<lambda>bad.
        case bad of
          Some c \<Rightarrow> Inr (denied_result (Some hostname) (Some port) (Some c) (''address denied: '' @ c))
        | None \<Rightarrow> Inr \<lparr>sc_allowed = True, sc_hostname = Some hostname, sc_port = Some port,
                      sc_resolved_ip = Some (hd candidates), sc_reason = None\<rparr>))"

text \<open>\<open>parsed.port or (443 if https else 80)\<close>: zero counts as no port.\<close>

definition effective_port :: "string \<Rightarrow> nat option \<Rightarrow> nat" where
  "effective_port scheme p =
     (case p of Some n \<Rightarrow> if n = 0 then (if scheme = ''https'' then 443 else 80) else n
      | None \<Rightarrow> if scheme = ''https'' then 443 else 80)"

definition check_url :: "string \<Rightarrow> nat list \<Rightarrow> resolver \<Rightarrow> error + ssrf_check_result" where
  "check_url url allowed_ports resolve_host =
     res_bind (urlsplit url) (\<lambda>parsed.
       if u_scheme parsed \<noteq> ''http'' \<and> u_scheme parsed \<noteq> ''https''
       then Inr (denied_result None None None (''unsupported scheme: '' @ [CHR 0x27] @ u_scheme parsed @ [CHR 0x27]))
       else case url_hostname parsed of
         None \<Rightarrow> Inr (denied_result None None None ''url has no host'')
       | Some hostname \<Rightarrow>
           res_bind (url_port parsed) (\<lambda>p.
             let port = effective_port (u_scheme parsed) p in
             if port \<notin> set allowed_ports
             then Inr (denied_result (Some hostname) (Some port) None (''port not allowed: '' @ decimal_nat port))
             else case resolve_host hostname of
               Inl (OSError t) \<Rightarrow>
                 Inr (denied_result (Some hostname) (Some port) None (''dns resolution failed: '' @ t))
             | Inl e \<Rightarrow> Inl e
             | Inr candidates \<Rightarrow> check_candidates hostname port candidates))"

subsection \<open>What is reachable\<close>

definition reachable_ip :: "string \<Rightarrow> bool" where
  "reachable_ip c \<longleftrightarrow> (\<exists>ip. parse_ip c = Inr ip \<and> \<not> is_denied ip)"

lemma first_denied_None: "first_denied cs = Inr None \<longleftrightarrow> (\<forall>c \<in> set cs. reachable_ip c)"
  by (induction cs) (auto simp: reachable_ip_def res_bind_Inr_iff split: if_splits)

lemma check_candidates_allowed:
  assumes "check_candidates h p cs = Inr r" "sc_allowed r"
  shows "cs \<noteq> [] \<and> (\<forall>c \<in> set cs. reachable_ip c) \<and> sc_hostname r = Some h \<and> sc_port r = Some p \<and>
   sc_resolved_ip r = Some (hd cs)"
proof (cases "first_denied cs")
  case (Inl e)
  with assms show ?thesis by (simp add: check_candidates_def denied_result_def split: if_splits, (auto)?)
next
  case (Inr bad)
  show ?thesis
  proof (cases bad)
    case None
    then have "\<forall>c \<in> set cs. reachable_ip c" using Inr first_denied_None by simp
    with assms Inr None show ?thesis
      by (simp add: check_candidates_def denied_result_def split: if_splits, (auto)?)
  next
    case (Some c)
    with assms Inr show ?thesis by (simp add: check_candidates_def denied_result_def split: if_splits, (auto)?)
  qed
qed

lemma check_url_allowed:
  assumes "check_url url ports resolve_host = Inr r" "sc_allowed r"
  obtains u h p cs where "urlsplit url = Inr u" "u_scheme u \<in> {''http'', ''https''}"
    "url_hostname u = Some h" "url_port u = Inr p" "effective_port (u_scheme u) p \<in> set ports"
    "resolve_host h = Inr cs" "cs \<noteq> []" "\<forall>c \<in> set cs. reachable_ip c"
    "sc_hostname r = Some h" "sc_port r = Some (effective_port (u_scheme u) p)"
    "sc_resolved_ip r = Some (hd cs)"
proof -
  obtain u where u: "urlsplit url = Inr u" "u_scheme u \<in> {''http'', ''https''}"
    using assms by (auto simp: check_url_def res_bind_Inr_iff denied_result_def split: if_splits)
  obtain h where h: "url_hostname u = Some h"
    using assms u by (auto simp: check_url_def denied_result_def split: option.splits)
  obtain p where p: "url_port u = Inr p"
    using assms u h by (auto simp: check_url_def res_bind_Inr_iff)
  let ?p = "effective_port (u_scheme u) p"
  have port: "?p \<in> set ports"
    using assms u h p by (auto simp: check_url_def denied_result_def Let_def split: if_splits)
  obtain cs where cs: "resolve_host h = Inr cs"
  proof (cases "resolve_host h")
    case (Inl e)
    then show ?thesis
      using assms u h p port by (cases e) (auto simp: check_url_def denied_result_def Let_def)
  qed (rule that)
  have "check_candidates h ?p cs = Inr r"
    using assms(1) u h p port cs by (auto simp: check_url_def Let_def)
  from check_candidates_allowed [OF this assms(2)] show ?thesis
    using that [OF u h p port cs] by blast
qed

subsection \<open>The deny list as intervals\<close>

lemma in_net_unat: "in_net b n a \<longleftrightarrow> unat a div 2 ^ (LENGTH('a) - n) = unat b div 2 ^ (LENGTH('a) - n)"
  for a b :: "'a::len word"
  unfolding in_net_def word_unat_eq_iff unat_drop_bit_eq by (simp only: drop_bit_eq_div)

lemma div_eq_interval: "0 < k \<Longrightarrow> h div k = c \<longleftrightarrow> c * k \<le> h \<and> h < c * k + k" for h k c :: nat
  by (metis add.commute div_less_iff_less_mult less_Suc_eq_le less_eq_div_iff_mult_less_eq mult_Suc nat_less_le not_less)

text \<open>The leading 16 bits of an IPv6 address decide the short prefixes.\<close>

definition top16 :: "128 word \<Rightarrow> nat" where
  "top16 a = unat a div 2 ^ 112"

lemma unat_v6_one: "g < 65536 \<Longrightarrow> unat (v6 [g]) = g * 2 ^ 112"
proof -
  assume "g < 65536"
  then have "g * 65536 ^ 7 < 2 ^ LENGTH(128)" by simp
  then have "unat (of_nat (g * 65536 ^ 7) :: 128 word) = g * 65536 ^ 7"
    by (simp only: unat_of_nat mod_less)
  moreover have "v6 [g] = of_nat (g * 65536 ^ 7)" by (simp only: v6_def) simp
  ultimately show ?thesis by (simp only:) simp
qed

lemma in_net_top16:
  assumes "n \<le> 16" "g < 65536"
  shows "in_net (v6 [g]) n a \<longleftrightarrow> top16 a div 2 ^ (16 - n) = g div 2 ^ (16 - n)"
proof -
  have e: "(2::nat) ^ (128 - n) = 2 ^ 112 * 2 ^ (16 - n)"
    unfolding power_add [symmetric] using assms(1) by (intro arg_cong [where f = "(^) 2"]) simp
  have "unat a div 2 ^ (128 - n) = top16 a div 2 ^ (16 - n)" for a :: "128 word"
    unfolding e top16_def by (rule div_mult2_eq)
  moreover have "top16 (v6 [g]) = g" using assms(2) by (simp add: top16_def unat_v6_one)
  ultimately show ?thesis by (simp add: in_net_unat)
qed

lemma top16_less: "top16 a < 65536"
proof -
  have "unat a < 2 ^ LENGTH(128)" by (rule unsigned_less)
  also have "(2::nat) ^ LENGTH(128) = 65536 * 2 ^ 112" by simp
  finally show ?thesis unfolding top16_def by (rule less_mult_imp_div_less)
qed

lemma reserved6_top16:
  "list_ex (\<lambda>(b, n). in_net b n a) reserved6 \<longleftrightarrow>
     top16 a < 8192 \<or> 16384 \<le> top16 a \<and> top16 a < 64512 \<or> 65024 \<le> top16 a \<and> top16 a < 65152"
  using top16_less [of a] by (simp add: reserved6_def in_net_top16 div_eq_interval) presburger

text \<open>A longer prefix fixes them.\<close>

lemma in_net_long:
  assumes "16 \<le> n" "n \<le> 128" "in_net b n (a :: 128 word)"
  shows "top16 a = top16 b"
proof -
  have "unat a div 2 ^ (128 - n) = unat b div 2 ^ (128 - n)" using assms(3) by (simp add: in_net_unat)
  then have "unat a div (2 ^ (128 - n) * 2 ^ (n - 16)) = unat b div (2 ^ (128 - n) * 2 ^ (n - 16))"
    by (simp only: div_mult2_eq)
  moreover have "(2::nat) ^ (128 - n) * 2 ^ (n - 16) = 2 ^ 112"
    unfolding power_add [symmetric] using assms(1,2) by (intro arg_cong [where f = "(^) 2"]) simp
  ultimately show ?thesis by (simp only: top16_def)
qed

lemma not_mapped: "top16 a \<noteq> 0 \<Longrightarrow> ipv4_mapped a = None"
proof -
  assume t: "top16 a \<noteq> 0"
  have "unat (drop_bit 32 a) \<noteq> 65535"
  proof
    assume "unat (drop_bit 32 a) = 65535"
    then have "drop_bit 32 (unat a) = 65535" by (simp only: unat_drop_bit_eq)
    then have "unat a div 2 ^ 32 = 65535" by (simp only: drop_bit_eq_div)
    then have "unat a div (2 ^ 32 * 2 ^ 80) = 0" by (simp only: div_mult2_eq) simp
    with t show False by (simp add: top16_def)
  qed
  then show ?thesis by (auto simp: ipv4_mapped_def)
qed

lemma ula_private6: "64512 \<le> top16 a \<Longrightarrow> top16 a < 65024 \<Longrightarrow> is_private6 a"
proof -
  assume h: "64512 \<le> top16 a" "top16 a < 65024"
  then have "ipv4_mapped a = None" by (intro not_mapped) simp
  moreover have "in_net (v6 [64512]) 7 a" using h by (simp add: in_net_top16 div_eq_interval)
  moreover have "\<not> list_ex (\<lambda>(b, n). in_net b n a) public6"
  proof -
    have no: "\<not> in_net b n a" if "16 \<le> n" "n \<le> 128" "unat b div 2 ^ 112 = 8193" for b :: "128 word" and n
      using in_net_long [OF that(1,2), of b a] that(3) h by (auto simp: top16_def)
    show ?thesis by (simp add: public6_def no v6_def unat_of_nat take_bit_eq_mod)
  qed
  ultimately show ?thesis by (simp add: is_private6_def private6_def)
qed

text \<open>What the guard lets through, in the ranges of the registries.\<close>

definition global_unicast6 :: "128 word \<Rightarrow> bool" where
  "global_unicast6 a \<longleftrightarrow> 8192 \<le> top16 a \<and> top16 a < 16384"

definition site_local6 :: "128 word \<Rightarrow> bool" where
  "site_local6 a \<longleftrightarrow> 65216 \<le> top16 a \<and> top16 a < 65280"

lemma not_denied_ipv6: "\<not> is_denied (IPv6 a) \<Longrightarrow> global_unicast6 a \<or> site_local6 a"
proof -
  assume ok: "\<not> is_denied (IPv6 a)"
  then have r: "\<not> list_ex (\<lambda>(b, n). in_net b n a) reserved6" "\<not> is_private6 a"
    "\<not> in_net (v6 [65152]) 10 a" "\<not> in_net (v6 [65280]) 8 a"
    by (auto simp: is_denied_def split: if_splits)
  have "\<not> (64512 \<le> top16 a \<and> top16 a < 65024)" using r(2) ula_private6 by blast
  with r(1,3,4) top16_less [of a] show ?thesis
    unfolding reserved6_top16 global_unicast6_def site_local6_def
    by (simp add: in_net_top16 div_eq_interval) linarith
qed

lemma not_denied_ipv4:
  "\<not> is_denied (IPv4 a) \<Longrightarrow>
   \<not> list_ex (\<lambda>(b, n). in_net b n a)
     [(v4 0 0 0 0, 8), (v4 10 0 0 0, 8), (v4 127 0 0 0, 8), (v4 169 254 0 0, 16), (v4 172 16 0 0, 12),
      (v4 192 168 0 0, 16), (v4 100 64 0 0, 10), (v4 224 0 0 0, 4), (v4 240 0 0 0, 4)] \<and>
   (in_net (v4 192 0 0 0) 24 a \<longrightarrow> a = v4 192 0 0 9 \<or> a = v4 192 0 0 10)"
proof -
  assume ok: "\<not> is_denied (IPv4 a)"
  have near: "\<not> in_net b n (v4 192 0 0 9) \<and> \<not> in_net b n (v4 192 0 0 10)"
    if "(b, n) \<in> {(v4 0 0 0 0, 8), (v4 10 0 0 0, 8), (v4 172 16 0 0, 12), (v4 192 168 0 0, 16)}" for b n
    using that by (auto simp: in_net_def v4_def)
  from ok near show ?thesis
    by (auto simp: is_denied_def CGNAT_NETWORK_def is_private4_def private4_def split: if_splits)
qed

subsection \<open>Properties\<close>


text \<open>A public host on the default port.\<close>

definition demo_resolver :: resolver where
  "demo_resolver h = Inr [''93.184.216.34'']"

lemmas url_eval = urlsplit_def urlsplit_with_def split_scheme_def brackets_ok_def py_partition_def
  is_c0_or_space_def is_scheme_char_def is_ascii_alpha_def is_digit_def py_lower_def py_lower_char_def
  url_hostname_def url_port_def hostinfo_def after_last_def

lemmas ip_eval = parse_ip_def parse_ipv4_def parse_octet_def is_digit_def decimal_value_def
  is_denied_def in_net_def v4_def is_private4_def private4_def CGNAT_NETWORK_def METADATA_IP_def

lemma demo_split:
  "urlsplit ''https://example.com/hook'' = Inr \<lparr>u_scheme = ''https'', u_netloc = ''example.com'',
     u_path = ''/hook'', u_query = [], u_fragment = []\<rparr>"
  by (simp add: url_eval)

lemma demo_ip: "parse_ip ''93.184.216.34'' = Inr (IPv4 (v4 93 184 216 34))"
  by (simp add: ip_eval)

lemma demo_ip_allowed: "\<not> is_denied (IPv4 (v4 93 184 216 34))"
  by (simp add: ip_eval)

lemma demo_check:
  "check_url ''https://example.com/hook'' [80, 443] demo_resolver =
     Inr \<lparr>sc_allowed = True, sc_hostname = Some ''example.com'', sc_port = Some 443,
          sc_resolved_ip = Some ''93.184.216.34'', sc_reason = None\<rparr>"
proof -
  have "url_hostname \<lparr>u_scheme = ''https'', u_netloc = ''example.com'', u_path = ''/hook'', u_query = [],
      u_fragment = []\<rparr> = Some ''example.com''" by (simp add: url_eval)
  moreover have "url_port \<lparr>u_scheme = ''https'', u_netloc = ''example.com'', u_path = ''/hook'', u_query = [],
      u_fragment = []\<rparr> = Inr None" by (simp add: url_eval)
  ultimately show ?thesis
    by (simp add: check_url_def demo_split effective_port_def demo_resolver_def check_candidates_def
        demo_ip demo_ip_allowed)
qed


text \<open>
  The guard has a gap: every site-local IPv6 address (\<open>fec0::/10\<close>, private by RFC 3879's
  deprecated use) passes, because none of the \<open>ipaddress\<close> properties it asks for covers that block
  and it never asks \<open>is_site_local\<close>.
\<close>

theorem site_local_passes_the_guard:
  assumes "in_net (v6 [65216]) 10 a"
  shows "\<not> is_denied (IPv6 a)"
proof -
  have h: "65216 \<le> top16 a" "top16 a < 65280"
    using assms by (simp_all add: in_net_top16 div_eq_interval)
  have long: "\<not> in_net b n a" if "16 \<le> n" "n \<le> 128" "unat b div 2 ^ 112 < 65216" for b :: "128 word" and n
    using in_net_long [OF that(1,2), of b a] that(3) h by (auto simp: top16_def)
  have "ipv4_mapped a = None" using h by (intro not_mapped) simp
  moreover have "\<not> list_ex (\<lambda>(b, n). in_net b n a) private6"
  proof -
    have "\<not> in_net (v6 [64512]) 7 a" "\<not> in_net (v6 [65152]) 10 a"
      using h by (simp_all add: in_net_top16 div_eq_interval)
    then show ?thesis by (simp add: private6_def long v6_def unat_of_nat take_bit_eq_mod)
  qed
  ultimately have "\<not> is_private6 a" by (simp add: is_private6_def)
  moreover have "\<not> list_ex (\<lambda>(b, n). in_net b n a) reserved6" using h unfolding reserved6_top16 by simp
  moreover have "a \<noteq> 0" "a \<noteq> 1" using h by (auto simp: top16_def)
  ultimately show ?thesis
    using h by (simp add: is_denied_def METADATA_IP_def in_net_top16 div_eq_interval)
qed

theorem site_local_passes_the_guard_witness:
  "\<not> is_denied (IPv6 (v6 [65216, 0, 0, 0, 0, 0, 0, 1]))"
  by (rule site_local_passes_the_guard) (simp add: in_net_def v6_def)

end
