(* ===== verification/HttpSender.thy ===== *)
theory HttpSender
  imports Ssrf Workers
begin

section \<open>The guarded HTTP sender\<close>

text \<open>
  \<open>relay/infra/http_sender.py\<close> and \<open>relay/infra/pinned_transport.py\<close>. What is outside is one
  record: the resolver at each hop (so a name may resolve differently the next time), the
  transport below the pinned one as a function of the hop and the request it is handed, the
  elapsed milliseconds at each hop, and the two settings. A \<open>send\<close> returns its result and the
  requests that reached the transport, in order: each is one connection to the host in its URL.
\<close>

definition RESPONSE_SNIPPET_MAX_LEN :: nat where "RESPONSE_SNIPPET_MAX_LEN = 2048"
definition MAX_REDIRECT_HOPS :: nat where "MAX_REDIRECT_HOPS = 3"

subsection \<open>The pinned transport\<close>

text \<open>An \<open>httpx.Request\<close>: where it connects, its URL's own authority, its headers, and the SNI extension.\<close>

record http_request =
  rq_connect_host :: string
  rq_authority :: string
  rq_url :: string
  rq_headers :: "(string \<times> string) list"
  rq_body :: "byte list"
  rq_sni :: "string option"

definition set_header :: "string \<Rightarrow> string \<Rightarrow> (string \<times> string) list \<Rightarrow> (string \<times> string) list" where
  "set_header name value hs = filter (\<lambda>(n, _). py_lower n \<noteq> name) hs @ [(name, value)]"

definition get_header :: "string \<Rightarrow> (string \<times> string) list \<Rightarrow> string option" where
  "get_header name hs = map_option snd (List.find (\<lambda>(n, _). py_lower n = name) hs)"

definition pin_request :: "string \<Rightarrow> string \<Rightarrow> http_request \<Rightarrow> http_request" where
  "pin_request pinned_ip original_host rq =
     (let original_authority = (case get_header ''host'' (rq_headers rq) of
                                  Some h \<Rightarrow> if h = [] then rq_authority rq else h
                                | None \<Rightarrow> rq_authority rq)
      in rq\<lparr>rq_connect_host := pinned_ip,
            rq_headers := set_header ''host'' original_authority (rq_headers rq),
            rq_sni := Some original_host\<rparr>)"

subsection \<open>Sending\<close>

datatype http_outcome =
    Response int "string option" string
  | TimeoutException
  | HTTPError

record http_env =
  he_resolver :: "nat \<Rightarrow> resolver"
  he_transport :: "nat \<Rightarrow> http_request \<Rightarrow> error + http_outcome"
  he_elapsed_ms :: "nat \<Rightarrow> int"
  he_allowed_ports :: "nat list"
  he_user_agent :: string
  he_build :: "string \<Rightarrow> byte list \<Rightarrow> (string \<times> string) list \<Rightarrow> error + http_request"

text \<open>
  What the code relies on of \<open>httpx\<close>: the request built for a URL and a content has that URL and
  that content.
\<close>

definition builds_requests :: "http_env \<Rightarrow> bool" where
  "builds_requests env \<longleftrightarrow>
     (\<forall>url p hs rq. he_build env url p hs = Inr rq \<longrightarrow> rq_url rq = url \<and> rq_body rq = p)"

definition outbound_headers :: "http_env \<Rightarrow> (string \<times> string) list \<Rightarrow> (string \<times> string) list" where
  "outbound_headers env headers =
     (case map_of headers ''User-Agent'' of
        None \<Rightarrow> (''User-Agent'', he_user_agent env) # headers
      | Some v \<Rightarrow> (''User-Agent'', v) # filter (\<lambda>(n, _). n \<noteq> ''User-Agent'') headers)"

definition blocked :: "int \<Rightarrow> string option \<Rightarrow> outbound_http_result" where
  "blocked latency reason =
     \<lparr>o_latency_ms = latency, o_status_code = None, o_error_class = Some SSRF_BLOCKED, o_response_snippet = reason\<rparr>"

definition failed_result :: "int \<Rightarrow> attempt_error_class \<Rightarrow> outbound_http_result" where
  "failed_result latency e =
     \<lparr>o_latency_ms = latency, o_status_code = None, o_error_class = Some e, o_response_snippet = None\<rparr>"

definition final_result :: "int \<Rightarrow> int \<Rightarrow> string \<Rightarrow> outbound_http_result" where
  "final_result latency status text =
     \<lparr>o_latency_ms = latency, o_status_code = Some status,
      o_error_class = (if 200 \<le> status \<and> status < 300 then None else Some HTTP_ERROR),
      o_response_snippet = Some (take RESPONSE_SNIPPET_MAX_LEN text)\<rparr>"

definition budget_result :: "int \<Rightarrow> int \<Rightarrow> string \<Rightarrow> outbound_http_result" where
  "budget_result latency status location =
     \<lparr>o_latency_ms = latency, o_status_code = Some status, o_error_class = Some HTTP_ERROR,
      o_response_snippet = Some (''redirect budget exceeded at '' @ py_repr location)\<rparr>"

text \<open>
  The loop from the hop with \<open>left\<close> more hops allowed; the hop's number is what is gone of the
  budget.
\<close>

fun send_from ::
  "http_env \<Rightarrow> byte list \<Rightarrow> (string \<times> string) list \<Rightarrow> nat \<Rightarrow> string \<Rightarrow>
   (error + outbound_http_result) \<times> http_request list" where
  "send_from env payload headers left current_url =
     (let hop = MAX_REDIRECT_HOPS - left; ms = he_elapsed_ms env hop in
      case check_url current_url (he_allowed_ports env) (he_resolver env hop) of
        Inl e \<Rightarrow> (Inl e, [])
      | Inr check \<Rightarrow>
          if \<not> sc_allowed check then (Inr (blocked ms (sc_reason check)), [])
          else (case (sc_hostname check, sc_resolved_ip check) of
            (Some hostname, Some ip) \<Rightarrow>
              (case he_build env current_url payload headers of
                 Inl e \<Rightarrow> (Inl e, [])
               | Inr rq0 \<Rightarrow>
                   let rq = pin_request ip hostname rq0 in
                   (case he_transport env hop rq of
                      Inl e \<Rightarrow> (Inl e, [rq])
                    | Inr TimeoutException \<Rightarrow> (Inr (failed_result ms TIMEOUT), [rq])
                    | Inr HTTPError \<Rightarrow> (Inr (failed_result ms CONNECTION_ERROR), [rq])
                    | Inr (Response status location text) \<Rightarrow>
                        (case location of
                           Some l \<Rightarrow>
                             if 300 \<le> status \<and> status < 400 \<and> l \<noteq> []
                             then (case left of
                                     0 \<Rightarrow> (Inr (budget_result ms status l), [rq])
                                   | Suc left' \<Rightarrow>
                                       (case urljoin current_url l of
                                          Inl e \<Rightarrow> (Inl e, [rq])
                                        | Inr next_url \<Rightarrow>
                                            (let (r, rqs) = send_from env payload headers left' next_url
                                             in (r, rq # rqs))))
                             else (Inr (final_result ms status text), [rq])
                         | None \<Rightarrow> (Inr (final_result ms status text), [rq]))))
          | _ \<Rightarrow> (Inl (AssertionError ''check.hostname is not None and check.resolved_ip is not None''), [])))"

declare send_from.simps [simp del]

definition send ::
  "http_env \<Rightarrow> string \<Rightarrow> byte list \<Rightarrow> (string \<times> string) list \<Rightarrow>
   (error + outbound_http_result) \<times> http_request list" where
  "send env url payload headers = send_from env payload (outbound_headers env headers) MAX_REDIRECT_HOPS url"

subsection \<open>What is connected to\<close>

definition validated :: "http_env \<Rightarrow> nat \<Rightarrow> http_request \<Rightarrow> bool" where
  "validated env hop rq \<longleftrightarrow>
     (\<exists>host cs u p. urlsplit (rq_url rq) = Inr u \<and> url_hostname u = Some host \<and>
        url_port u = Inr p \<and> effective_port (u_scheme u) p \<in> set (he_allowed_ports env) \<and>
        he_resolver env hop host = Inr cs \<and> cs \<noteq> [] \<and> rq_connect_host rq = hd cs \<and>
        (\<forall>c \<in> set cs. reachable_ip c) \<and> rq_sni rq = Some host)"

lemma pin_request_sel:
  "rq_connect_host (pin_request ip h rq) = ip" "rq_sni (pin_request ip h rq) = Some h"
  "rq_url (pin_request ip h rq) = rq_url rq" "rq_body (pin_request ip h rq) = rq_body rq"
  by (simp_all add: pin_request_def Let_def)

lemma validated_pinned:
  assumes "builds_requests env"
    and "check_url url (he_allowed_ports env) (he_resolver env hop) = Inr c" "sc_allowed c"
    and "sc_hostname c = Some h" "sc_resolved_ip c = Some ip" "he_build env url p hs = Inr rq"
  shows "validated env hop (pin_request ip h rq)"
proof -
  obtain u k q cs where g: "urlsplit url = Inr u" "url_hostname u = Some k" "url_port u = Inr q"
    "effective_port (u_scheme u) q \<in> set (he_allowed_ports env)" "he_resolver env hop k = Inr cs" "cs \<noteq> []"
    "\<forall>c \<in> set cs. reachable_ip c" "sc_hostname c = Some k" "sc_resolved_ip c = Some (hd cs)"
    using check_url_allowed [OF assms(2,3)] by metis
  show ?thesis
    unfolding validated_def pin_request_sel
    using g assms(1,4,5,6) by (auto simp: builds_requests_def)
qed

text \<open>The three ways a hop goes: it ends without connecting, ends after connecting, or is redirected.\<close>

lemma send_from_cases:
  assumes "builds_requests env" "send_from env p hs left url = (r, rqs)"
  obtains (unconnected) "rqs = []"
  | (ended) rq where "rqs = [rq]" "validated env (MAX_REDIRECT_HOPS - left) rq" "rq_url rq = url" "rq_body rq = p"
  | (redirected) rq left' next_url rqs' where "left = Suc left'" "rqs = rq # rqs'"
      "validated env (MAX_REDIRECT_HOPS - left) rq" "rq_url rq = url" "rq_body rq = p"
      "send_from env p hs left' next_url = (r, rqs')"
proof (cases "check_url url (he_allowed_ports env) (he_resolver env (MAX_REDIRECT_HOPS - left))")
  case (Inl e)
  then show ?thesis using assms(2) unconnected by (simp add: send_from.simps [of env p hs left])
next
  case (Inr c)
  let ?hop = "MAX_REDIRECT_HOPS - left"
  note eq = send_from.simps [of env p hs left url]
  show ?thesis
  proof (cases "sc_allowed c")
    case False
    then show ?thesis using assms(2) Inr unconnected by (simp add: eq Let_def)
  next
    case True
    obtain h ip where hi: "sc_hostname c = Some h" "sc_resolved_ip c = Some ip"
      using check_url_allowed [OF Inr True] by metis
    show ?thesis
    proof (cases "he_build env url p hs")
      case (Inl e)
      then show ?thesis using assms(2) Inr True hi unconnected by (simp add: eq Let_def)
    next
      case rq: (Inr rq0)
      let ?rq = "pin_request ip h rq0"
      note v = validated_pinned [OF assms(1) Inr True hi rq]
      have body: "rq_url ?rq = url" "rq_body ?rq = p"
        using assms(1) rq by (auto simp: builds_requests_def pin_request_sel)
      have run: "send_from env p hs left url = (case he_transport env ?hop ?rq of
                      Inl e \<Rightarrow> (Inl e, [?rq])
                    | Inr TimeoutException \<Rightarrow> (Inr (failed_result (he_elapsed_ms env ?hop) TIMEOUT), [?rq])
                    | Inr HTTPError \<Rightarrow> (Inr (failed_result (he_elapsed_ms env ?hop) CONNECTION_ERROR), [?rq])
                    | Inr (Response status location text) \<Rightarrow>
                        (case location of
                           Some l \<Rightarrow>
                             if 300 \<le> status \<and> status < 400 \<and> l \<noteq> []
                             then (case left of
                                     0 \<Rightarrow> (Inr (budget_result (he_elapsed_ms env ?hop) status l), [?rq])
                                   | Suc left' \<Rightarrow>
                                       (case urljoin url l of
                                          Inl e \<Rightarrow> (Inl e, [?rq])
                                        | Inr next_url \<Rightarrow>
                                            (let (r, rqs) = send_from env p hs left' next_url in (r, ?rq # rqs))))
                             else (Inr (final_result (he_elapsed_ms env ?hop) status text), [?rq])
                         | None \<Rightarrow> (Inr (final_result (he_elapsed_ms env ?hop) status text), [?rq])))"
        by (subst eq) (simp add: Inr True hi rq Let_def)
      show ?thesis
        using assms(2) [unfolded run] ended [OF _ v body] redirected [OF _ _ v body]
        by (auto split: sum.splits http_outcome.splits option.splits if_splits nat.splits prod.splits)
    qed
  qed
qed

subsection \<open>Properties\<close>

text \<open>
  C27. No redirect and no second lookup escapes the guard: a delivery makes at most four connections,
  and the one of every hop goes to the first address of that hop's own resolution of the name in
  that hop's URL, all addresses of which were checked, on an allowed port, with the name kept for
  TLS; each carries the same body.
\<close>

theorem every_connection_is_validated:
  assumes "builds_requests env" and "send env url payload headers = (r, rqs)"
  shows "length rqs \<le> 4 \<and>
    (\<forall>hop < length rqs. validated env hop (rqs ! hop) \<and> rq_body (rqs ! hop) = payload)"
proof -
  have "length rqs \<le> left + 1 \<and>
      (\<forall>i < length rqs. validated env (3 - left + i) (rqs ! i) \<and> rq_body (rqs ! i) = payload)"
    if "send_from env payload hs left url = (r, rqs)" "left \<le> 3" for left url hs rqs
    using that
  proof (induction left arbitrary: url rqs)
    case 0
    from assms(1) 0(1) show ?case
      by (cases rule: send_from_cases) (auto simp: MAX_REDIRECT_HOPS_def)
  next
    case (Suc left)
    from assms(1) Suc.prems(1) show ?case
    proof (cases rule: send_from_cases)
      case (redirected rq left' next_url rqs')
      have IH: "length rqs' \<le> left + 1"
        "\<forall>i < length rqs'. validated env (3 - left + i) (rqs' ! i) \<and> rq_body (rqs' ! i) = payload"
        using Suc.IH [of next_url rqs'] redirected Suc.prems(2) by auto
      have "validated env (3 - Suc left + i) (rqs ! i) \<and> rq_body (rqs ! i) = payload" if "i < length rqs" for i
      proof (cases i)
        case 0
        then show ?thesis using redirected by (simp add: MAX_REDIRECT_HOPS_def)
      next
        case (Suc k)
        have hop: "3 - Suc left + i = 3 - left + k" using Suc Suc.prems(2) by simp
        show ?thesis unfolding hop using Suc that redirected(2) IH(2) by simp
      qed
      with IH(1) redirected(2) show ?thesis by simp
    qed (auto simp: MAX_REDIRECT_HOPS_def)
  qed
  from this [of "outbound_headers env headers" MAX_REDIRECT_HOPS url rqs] assms show ?thesis
    by (simp add: send_def MAX_REDIRECT_HOPS_def)
qed

text \<open>A transport that always gives the same answer, and a request builder that keeps what it is given.\<close>

definition demo_http :: "http_outcome \<Rightarrow> http_env" where
  "demo_http out =
     \<lparr>he_resolver = (\<lambda>_. demo_resolver), he_transport = (\<lambda>_ _. Inr out), he_elapsed_ms = (\<lambda>hop. int hop + 5),
      he_allowed_ports = [80, 443], he_user_agent = ''Relay-Webhooks/1.0'',
      he_build = (\<lambda>url p hs. Inr \<lparr>rq_connect_host = [], rq_authority = [], rq_url = url, rq_headers = hs,
                                   rq_body = p, rq_sni = None\<rparr>)\<rparr>"

lemma demo_http_builds: "builds_requests (demo_http out)"
  by (simp add: builds_requests_def demo_http_def)

lemma demo_http_first:
  "send_from (demo_http (Response status loc text)) p hs (Suc n) ''https://example.com/hook'' =
     (let rq = pin_request ''93.184.216.34'' ''example.com''
                 \<lparr>rq_connect_host = [], rq_authority = [], rq_url = ''https://example.com/hook'', rq_headers = hs,
                  rq_body = p, rq_sni = None\<rparr>;
          ms = int (MAX_REDIRECT_HOPS - Suc n) + 5
      in case loc of
           None \<Rightarrow> (Inr (final_result ms status text), [rq])
         | Some l \<Rightarrow>
             if 300 \<le> status \<and> status < 400 \<and> l \<noteq> []
             then (case urljoin ''https://example.com/hook'' l of
                     Inl e \<Rightarrow> (Inl e, [rq])
                   | Inr next_url \<Rightarrow>
                       (let (r, rqs) = send_from (demo_http (Response status loc text)) p hs n next_url
                        in (r, rq # rqs)))
             else (Inr (final_result ms status text), [rq]))"
  by (subst send_from.simps) (simp add: demo_http_def demo_check Let_def split: option.split)

theorem every_connection_is_validated_witness:
  "\<exists>rq. snd (send (demo_http (Response 200 None ''ok'')) ''https://example.com/hook'' [] []) = [rq] \<and>
     validated (demo_http (Response 200 None ''ok'')) 0 rq"
proof -
  let ?env = "demo_http (Response 200 None ''ok'')"
  obtain r rqs where run: "send ?env ''https://example.com/hook'' [] [] = (r, rqs)" by fastforce
  have "length rqs = 1"
    using run demo_http_first [of 200 None "''ok''" "[]" "outbound_headers ?env []" 2]
    by (simp add: send_def MAX_REDIRECT_HOPS_def Let_def)
  then obtain rq where rq: "rqs = [rq]" by (cases rqs) auto
  then show ?thesis using every_connection_is_validated [OF demo_http_builds run] run by simp
qed

text \<open>An absolute http URL replaces the one it was found at; a first hop that is redirected goes on there.\<close>

lemma urljoin_absolute:
  assumes "urlsplit url = Inr u" and "u_scheme u \<in> {''http'', ''https''}"
    and "\<And>s. urlsplit_with s loc = Inr \<lparr>u_scheme = ''http'', u_netloc = n, u_path = p, u_query = [], u_fragment = []\<rparr>"
    and "n \<noteq> []" and "loc = ''http://'' @ n @ p" and "p = [] \<or> hd p = CHR ''/''" and "split_params ''http'' p = (p, [])"
  shows "urljoin url loc = Inr loc"
proof -
  have ne: "url \<noteq> []" "loc \<noteq> []" using assms(1,2,5) by (auto simp: url_eval)
  have "urlunparse ''http'' n p [] [] [] = loc"
    using assms(4,6) by (cases p) (simp_all add: urlunparse_def urlunsplit_def assms(5))
  moreover obtain bpath bparams where "split_params (u_scheme u) (u_path u) = (bpath, bparams)" by fastforce
  moreover have "''http'' \<in> set uses_relative" "''http'' \<in> set uses_netloc"
    by (simp_all add: uses_relative_def uses_netloc_def)
  ultimately show ?thesis
    unfolding urljoin_def using ne assms(4)
    by (cases "u_scheme u = ''http''") (simp_all add: assms(1,3,7))
qed

lemma send_redirected:
  assumes "check_url url (he_allowed_ports env) (he_resolver env 0) = Inr c" and "sc_allowed c"
    and "he_build env url payload (outbound_headers env headers) = Inr rq0"
    and "\<forall>rq. he_transport env 0 rq = Inr (Response status (Some loc) text)"
    and "300 \<le> status" and "status < 400" and "loc \<noteq> []" and "urljoin url loc = Inr next_url"
  shows "\<exists>rq. send env url payload headers =
    (let (r, rqs) = send_from env payload (outbound_headers env headers) 2 next_url in (r, rq # rqs))"
proof -
  from check_url_allowed [OF assms(1,2)] obtain h ip where "sc_hostname c = Some h" "sc_resolved_ip c = Some ip"
    by metis
  then show ?thesis
    unfolding send_def MAX_REDIRECT_HOPS_def numeral_3_eq_3
    by (intro exI [of _ "pin_request ip h rq0"], subst send_from.simps)
       (simp add: MAX_REDIRECT_HOPS_def assms Let_def numeral_2_eq_2)
qed

text \<open>
  A redirect can make the sender raise instead of failing the attempt: when a destination that
  passed the guard answers with a redirect to an absolute http URL whose port is out of range, the
  guard's own reading of that URL raises, and \<open>send\<close> hands the \<open>ValueError\<close> on.
\<close>

theorem redirect_to_bad_port_raises:
  assumes "check_url url (he_allowed_ports env) (he_resolver env 0) = Inr c" and "sc_allowed c"
    and "he_build env url payload (outbound_headers env headers) = Inr rq"
    and "\<forall>rq. he_transport env 0 rq = Inr (Response 302 (Some ''http://h:99999/'') text)"
  shows "fst (send env url payload headers) = Inl (ValueError ''Port out of range 0-65535'')"
proof -
  from check_url_allowed [OF assms(1,2)] obtain u where u: "urlsplit url = Inr u"
    "u_scheme u \<in> {''http'', ''https''}" by metis
  have target: "urlsplit_with s ''http://h:99999/'' = Inr \<lparr>u_scheme = ''http'', u_netloc = ''h:99999'',
      u_path = ''/'', u_query = [], u_fragment = []\<rparr>" for s
    by (simp add: url_eval)
  have join: "urljoin url ''http://h:99999/'' = Inr ''http://h:99999/''"
    by (rule urljoin_absolute [OF u target])
       (simp_all add: split_params_def after_last_def py_partition_def uses_params_def)
  have bad: "check_url ''http://h:99999/'' ports res = Inl (ValueError ''Port out of range 0-65535'')" for ports res
    by (simp add: check_url_def urlsplit_def target url_hostname_def url_port_def hostinfo_def after_last_def
        py_partition_def is_digit_def decimal_value_def)
  show ?thesis
    using send_redirected [OF assms _ _ _ join]
    by (auto simp: send_from.simps [of env payload _ 2] bad)
qed

theorem redirect_to_bad_port_raises_witness:
  "fst (send (demo_http (Response 302 (Some ''http://h:99999/'') ''moved'')) ''https://example.com/hook'' [] []) =
     Inl (ValueError ''Port out of range 0-65535'')"
proof (rule redirect_to_bad_port_raises)
  let ?env = "demo_http (Response 302 (Some ''http://h:99999/'') ''moved'')"
  show "check_url ''https://example.com/hook'' (he_allowed_ports ?env) (he_resolver ?env 0) =
      Inr \<lparr>sc_allowed = True, sc_hostname = Some ''example.com'', sc_port = Some 443,
          sc_resolved_ip = Some ''93.184.216.34'', sc_reason = None\<rparr>"
    by (simp add: demo_http_def demo_check)
qed (simp_all add: demo_http_def)

end
