(* ===== verification/Services.thy ===== *)
theory Services
  imports UnitOfWork Url ApiKeyHash
begin

section \<open>The services over the unit of work\<close>

text \<open>
  \<open>relay/services/endpoints/service.py\<close>, \<open>relay/services/api_keys/service.py\<close>,
  \<open>relay/services/sandbox/service.py\<close>, \<open>relay/services/deliveries/metrics_service.py\<close> and
  \<open>relay/domain/sandbox/quota.py\<close>. The identifiers of new rows, the server's clock and the random
  bytes of \<open>secrets\<close> are arguments of the call that draws them.
\<close>

subsection \<open>Endpoints\<close>

definition validate_url :: "string \<Rightarrow> error + unit" where
  "validate_url url =
     res_bind (urlsplit url) (\<lambda>parsed.
       if u_scheme parsed \<noteq> ''https''
       then Inl (ValidationError (''endpoint url must be https: '' @ py_repr url))
       else if u_netloc parsed = []
       then Inl (ValidationError (''endpoint url must have a host: '' @ py_repr url))
       else Inr ())"

definition validate_event_types :: "string list \<Rightarrow> error + unit" where
  "validate_event_types event_types =
     (if event_types = [] then Inl (ValidationError ''subscribed_event_types must not be empty'')
      else if list_ex (\<lambda>t. strip_set is_py_space t = []) event_types
      then Inl (ValidationError ''subscribed_event_types must not contain blank entries'')
      else Inr ())"

definition checked :: "nat service \<Rightarrow> (nat \<Rightarrow> error + 'a) \<Rightarrow> 'a service" where
  "checked count check st =
     (case count st of (Inl e, st') \<Rightarrow> (Inl e, st') | (Inr n, st') \<Rightarrow> (check n, st'))"

text \<open>Guards that run before the session is opened.\<close>

definition guarded :: "error + unit \<Rightarrow> 'a service \<Rightarrow> 'a service" where
  "guarded g body st = (case g of Inl e \<Rightarrow> (Inl e, st) | Inr _ \<Rightarrow> body st)"

definition endpoint_register ::
  "uuid \<Rightarrow> timestamp \<Rightarrow> byte list \<Rightarrow> uuid \<Rightarrow> string \<Rightarrow> string list \<Rightarrow> endpoint service" where
  "endpoint_register new_id now entropy tenant_id url subscribed_event_types =
     guarded (validate_url url) (guarded (validate_event_types subscribed_event_types)
       (with_uow
         (bindT (repoT (endpoints_create new_id now tenant_id url (token_urlsafe entropy) subscribed_event_types))
           (\<lambda>ep. bindT uow_commit (\<lambda>_. returnT ep)))))"

text \<open>The endpoint when it exists and belongs to the tenant, else the one error.\<close>

definition owned_endpoint :: "uuid \<Rightarrow> uuid \<Rightarrow> db \<Rightarrow> endpoint option" where
  "owned_endpoint endpoint_id tenant_id s =
     (case endpoints_get endpoint_id s of
        None \<Rightarrow> None
      | Some ep \<Rightarrow> if ep_tenant_id ep = tenant_id then Some ep else None)"

definition endpoint_get :: "uuid \<Rightarrow> uuid \<Rightarrow> endpoint service" where
  "endpoint_get endpoint_id tenant_id =
     with_uow (bindT (readT (owned_endpoint endpoint_id tenant_id))
       (\<lambda>ep. requireT (NotFoundError endpoint_id) ep))"

definition endpoint_update ::
  "uuid \<Rightarrow> uuid \<Rightarrow> string option \<Rightarrow> string list option \<Rightarrow> endpoint_status option \<Rightarrow> endpoint service" where
  "endpoint_update endpoint_id tenant_id url subscribed_event_types status =
     guarded (case url of None \<Rightarrow> Inr () | Some u \<Rightarrow> validate_url u)
       (guarded (case subscribed_event_types of None \<Rightarrow> Inr () | Some ts \<Rightarrow> validate_event_types ts)
         (with_uow
           (bindT (readT (owned_endpoint endpoint_id tenant_id)) (\<lambda>existing.
            bindT (requireT (NotFoundError endpoint_id) existing) (\<lambda>_.
            bindT (repoT (endpoints_update endpoint_id url subscribed_event_types status)) (\<lambda>updated.
            bindT uow_commit (\<lambda>_. returnT updated)))))))"

definition endpoint_delete :: "uuid \<Rightarrow> uuid \<Rightarrow> unit service" where
  "endpoint_delete endpoint_id tenant_id =
     with_uow
       (bindT (readT (owned_endpoint endpoint_id tenant_id)) (\<lambda>existing.
        bindT (requireT (NotFoundError endpoint_id) existing) (\<lambda>_.
        bindT (repoT (endpoints_delete endpoint_id)) (\<lambda>_. uow_commit))))"

subsection \<open>API keys\<close>

record key_draw =
  kd_id :: uuid
  kd_now :: timestamp
  kd_prefix_bytes :: "byte list"
  kd_secret_bytes :: "byte list"
  kd_salt :: "byte list"

definition store_new_key ::
  "key_draw \<Rightarrow> uuid \<Rightarrow> string list \<Rightarrow> timestamp option \<Rightarrow> (api_key \<times> string) tx" where
  "store_new_key draw tenant_id scopes expires_at =
     (let (plaintext_key, key_prefix, key_hash) =
        generate_api_key (kd_prefix_bytes draw) (kd_secret_bytes draw) (kd_salt draw)
      in bindT (repoT (api_keys_create (kd_id draw) (kd_now draw) tenant_id key_hash key_prefix scopes expires_at))
           (\<lambda>k. bindT uow_commit (\<lambda>_. returnT (k, plaintext_key))))"

definition api_key_issue ::
  "key_draw \<Rightarrow> uuid \<Rightarrow> string list \<Rightarrow> timestamp option \<Rightarrow> (api_key \<times> string) service" where
  "api_key_issue draw tenant_id scopes expires_at = with_uow (store_new_key draw tenant_id scopes expires_at)"

definition owned_key :: "uuid \<Rightarrow> uuid \<Rightarrow> db \<Rightarrow> api_key option" where
  "owned_key key_id tenant_id s =
     (case api_keys_get key_id s of
        None \<Rightarrow> None
      | Some k \<Rightarrow> if k_tenant_id k = tenant_id then Some k else None)"

definition api_key_rotate :: "key_draw \<Rightarrow> timestamp \<Rightarrow> uuid \<Rightarrow> uuid \<Rightarrow> (api_key \<times> string) service" where
  "api_key_rotate draw now key_id tenant_id =
     with_uow
       (bindT (readT (owned_key key_id tenant_id)) (\<lambda>existing0.
        bindT (requireT (NotFoundError key_id) existing0) (\<lambda>existing.
        bindT (repoT (api_keys_revoke now key_id)) (\<lambda>_.
        store_new_key draw tenant_id (k_scopes existing) None))))"

definition api_key_revoke :: "timestamp \<Rightarrow> uuid \<Rightarrow> uuid \<Rightarrow> api_key service" where
  "api_key_revoke now key_id tenant_id =
     with_uow
       (bindT (readT (owned_key key_id tenant_id)) (\<lambda>existing.
        bindT (requireT (NotFoundError key_id) existing) (\<lambda>_.
        bindT (repoT (api_keys_revoke now key_id)) (\<lambda>revoked.
        bindT uow_commit (\<lambda>_. returnT revoked)))))"

subsection \<open>Sandbox tenants and their quotas\<close>

definition check_quota :: "nat \<Rightarrow> nat \<Rightarrow> string \<Rightarrow> error + unit" where
  "check_quota current_count limit resource =
     (if limit \<le> current_count then Inl (SandboxQuotaExceeded resource limit) else Inr ())"

definition SANDBOX_SCOPES :: "string list" where
  "SANDBOX_SCOPES =
     [''endpoints:read'', ''endpoints:write'', ''events:write'', ''dlq:read'', ''deliveries:replay'']"

record sandbox_quotas =
  sq_max_endpoints :: nat
  sq_max_events :: nat
  sq_rate_limit_requests_per_second :: rat
  sq_ttl_minutes :: nat

record sandbox_provision_result =
  sp_tenant :: tenant
  sp_api_key :: api_key
  sp_plaintext_key :: string
  sp_expires_at :: timestamp
  sp_quotas :: sandbox_quotas

definition sandbox_expiry :: "settings \<Rightarrow> timestamp \<Rightarrow> timestamp" where
  "sandbox_expiry cfg now = now + 60000000 * int (sandbox_ttl_minutes cfg)"

text \<open>Two units of work: the tenant is committed before its key is issued.\<close>

definition sandbox_provision ::
  "settings \<Rightarrow> timestamp \<Rightarrow> uuid \<Rightarrow> timestamp \<Rightarrow> uuid \<Rightarrow> key_draw \<Rightarrow> sandbox_provision_result service" where
  "sandbox_provision cfg now new_tenant_id created_at name_uuid draw st =
     (case with_uow (bindT (repoT (tenants_create new_tenant_id created_at
                       (''sandbox-'' @ take 8 (uuid_hex name_uuid)) True))
                       (\<lambda>t. bindT uow_commit (\<lambda>_. returnT t))) st of
        (Inl e, st') \<Rightarrow> (Inl e, st')
      | (Inr t, st') \<Rightarrow>
          (case api_key_issue draw (t_id t) SANDBOX_SCOPES (Some (sandbox_expiry cfg now)) st' of
             (Inl e, st'') \<Rightarrow> (Inl e, st'')
           | (Inr (k, plaintext_key), st'') \<Rightarrow>
               (Inr \<lparr>sp_tenant = t, sp_api_key = k, sp_plaintext_key = plaintext_key,
                     sp_expires_at = sandbox_expiry cfg now,
                     sp_quotas = \<lparr>sq_max_endpoints = sandbox_max_endpoints cfg,
                       sq_max_events = sandbox_max_events cfg,
                       sq_rate_limit_requests_per_second = sandbox_rate_limit_requests_per_second cfg,
                       sq_ttl_minutes = sandbox_ttl_minutes cfg\<rparr>\<rparr>, st'')))"

definition assert_endpoint_quota :: "settings \<Rightarrow> tenant \<Rightarrow> unit service" where
  "assert_endpoint_quota cfg t =
     (if \<not> t_is_sandbox t then (\<lambda>st. (Inr (), st))
      else checked (with_uow (readT (endpoints_count_for_tenant (t_id t))))
             (\<lambda>n. check_quota n (sandbox_max_endpoints cfg) ''endpoints''))"

definition assert_event_quota :: "settings \<Rightarrow> tenant \<Rightarrow> unit service" where
  "assert_event_quota cfg t =
     (if \<not> t_is_sandbox t then (\<lambda>st. (Inr (), st))
      else checked (with_uow (readT (events_count_for_tenant (t_id t))))
             (\<lambda>n. check_quota n (sandbox_max_events cfg) ''events''))"

subsection \<open>The console's metrics\<close>

record delivery_metrics =
  dm_queue_depth :: nat
  dm_in_flight :: nat
  dm_p95_latency_ms :: "int option"
  dm_success_rate :: "rat option"
  dm_sample_size :: nat

definition percentile :: "int list \<Rightarrow> rat \<Rightarrow> int" where
  "percentile sorted_values fraction =
     sorted_values ! min (length sorted_values - 1) (nat \<lfloor>of_nat (length sorted_values) * fraction\<rfloor>)"

definition metrics_of :: "nat \<Rightarrow> nat \<Rightarrow> delivery_attempt list \<Rightarrow> delivery_metrics" where
  "metrics_of queue_depth in_flight recent =
     (let latencies = sort (map a_latency_ms recent);
          successes = length (filter (\<lambda>a. case a_response_status a of None \<Rightarrow> False
                                        | Some c \<Rightarrow> 200 \<le> c \<and> c < 300) recent)
      in \<lparr>dm_queue_depth = queue_depth, dm_in_flight = in_flight,
          dm_p95_latency_ms = (if latencies = [] then None else Some (percentile latencies (95 / 100))),
          dm_success_rate = (if recent = [] then None
                             else Some (of_nat successes / of_nat (length recent))),
          dm_sample_size = length recent\<rparr>)"

definition DEFAULT_SAMPLE_SIZE :: nat where "DEFAULT_SAMPLE_SIZE = 200"

definition metrics_snapshot :: "uuid \<Rightarrow> nat \<Rightarrow> delivery_metrics service" where
  "metrics_snapshot tenant_id sample_size =
     with_uow
       (bindT (readT (deliveries_count_by_states_for_tenant tenant_id [PENDING, RETRYING])) (\<lambda>depth.
        bindT (readT (deliveries_count_by_states_for_tenant tenant_id [RETRYING])) (\<lambda>in_flight.
        bindT (readT (delivery_attempts_recent_for_tenant tenant_id sample_size)) (\<lambda>recent.
        returnT (metrics_of depth in_flight recent)))))"

subsection \<open>What each call does\<close>

lemma owned_endpoint_None:
  "endpoints_get i s = None \<or> endpoints_get i s = Some ep \<and> ep_tenant_id ep \<noteq> t \<Longrightarrow>
   owned_endpoint i t s = None"
  by (auto simp: owned_endpoint_def)

lemma with_uow_requireT_None:
  "q (st_db st) = None \<Longrightarrow>
   with_uow (bindT (readT q) (\<lambda>x. bindT (requireT e x) k)) st = (Inl e, st)"
  by (simp add: with_uow_def tx_simps)

lemma uow_exit_committed: "uow_exit ((uow_enter st)\<lparr>se_pending := d, st_db := d\<rparr>) = st\<lparr>st_db := d\<rparr>"
  by (simp add: uow_exit_def uow_rollback_def uow_enter_def store.defs session.defs)

lemma with_uow_repo_commit:
  "with_uow (bindT (repoT op) (\<lambda>x. bindT uow_commit (\<lambda>_. returnT (f x)))) st =
     (case op (st_db st) of Inl e \<Rightarrow> (Inl e, st) | Inr (x, d) \<Rightarrow> (Inr (f x), st\<lparr>st_db := d\<rparr>))"
  by (auto simp: with_uow_def tx_simps uow_exit_committed split: sum.splits prod.splits)

lemma endpoint_register_run:
  "endpoint_register i now b t url ts st =
     (case validate_url url of Inl e \<Rightarrow> (Inl e, st) | Inr _ \<Rightarrow>
      case validate_event_types ts of Inl e \<Rightarrow> (Inl e, st) | Inr _ \<Rightarrow>
      case endpoints_create i now t url (token_urlsafe b) ts (st_db st) of
        Inl e \<Rightarrow> (Inl e, st) | Inr (ep, d) \<Rightarrow> (Inr ep, st\<lparr>st_db := d\<rparr>))"
  by (auto simp: endpoint_register_def guarded_def with_uow_repo_commit split: sum.splits)

lemma with_uow_owned_repo_commit:
  "with_uow (bindT (readT q) (\<lambda>x. bindT (requireT e x) (\<lambda>y.
      bindT (repoT op) (\<lambda>z. bindT uow_commit (\<lambda>_. returnT (f z)))))) st =
     (case q (st_db st) of None \<Rightarrow> (Inl e, st)
      | Some y \<Rightarrow> case op (st_db st) of Inl e' \<Rightarrow> (Inl e', st) | Inr (z, d) \<Rightarrow> (Inr (f z), st\<lparr>st_db := d\<rparr>))"
  by (auto simp: with_uow_def tx_simps uow_exit_committed split: sum.splits prod.splits option.splits)

lemma endpoint_update_run:
  "endpoint_update i t url ts status st =
     (case (case url of None \<Rightarrow> Inr () | Some u \<Rightarrow> validate_url u) of Inl e \<Rightarrow> (Inl e, st) | Inr _ \<Rightarrow>
      case (case ts of None \<Rightarrow> Inr () | Some x \<Rightarrow> validate_event_types x) of Inl e \<Rightarrow> (Inl e, st) | Inr _ \<Rightarrow>
      case owned_endpoint i t (st_db st) of None \<Rightarrow> (Inl (NotFoundError i), st) | Some _ \<Rightarrow>
      case endpoints_update i url ts status (st_db st) of
        Inl e \<Rightarrow> (Inl e, st) | Inr (ep, d) \<Rightarrow> (Inr ep, st\<lparr>st_db := d\<rparr>))"
  unfolding endpoint_update_def guarded_def with_uow_owned_repo_commit by (rule refl)

lemma bindT_uow_commit_return: "bindT uow_commit (\<lambda>_. returnT ()) = uow_commit"
  by (simp add: fun_eq_iff tx_simps)

lemma endpoint_delete_run:
  "endpoint_delete i t st =
     (case owned_endpoint i t (st_db st) of None \<Rightarrow> (Inl (NotFoundError i), st) | Some _ \<Rightarrow>
      case endpoints_delete i (st_db st) of
        Inl e \<Rightarrow> (Inl e, st) | Inr (_, d) \<Rightarrow> (Inr (), st\<lparr>st_db := d\<rparr>))"
  unfolding endpoint_delete_def
  by (rule with_uow_owned_repo_commit [of "owned_endpoint i t" "NotFoundError i" "endpoints_delete i" "\<lambda>_. ()" st,
        unfolded bindT_uow_commit_return])

lemma endpoint_get_run:
  "endpoint_get i t st =
     (case owned_endpoint i t (st_db st) of None \<Rightarrow> (Inl (NotFoundError i), st) | Some ep \<Rightarrow> (Inr ep, st))"
  by (auto simp: endpoint_get_def with_uow_def tx_simps split: option.splits)

definition new_key :: "key_draw \<Rightarrow> uuid \<Rightarrow> string list \<Rightarrow> timestamp option \<Rightarrow> api_key" where
  "new_key draw tenant_id scopes expires_at =
     \<lparr>k_id = kd_id draw, k_tenant_id = tenant_id,
      k_key_hash = hash_secret (kd_salt draw) (token_urlsafe (kd_secret_bytes draw)),
      k_key_prefix = token_urlsafe (kd_prefix_bytes draw), k_scopes = scopes, k_created_at = kd_now draw,
      k_revoked_at = None, k_expires_at = expires_at\<rparr>"

definition plaintext :: "key_draw \<Rightarrow> string" where
  "plaintext draw = token_urlsafe (kd_prefix_bytes draw) @ ''.'' @ token_urlsafe (kd_secret_bytes draw)"

lemma api_keys_create_new_key:
  "api_keys_create (kd_id draw) (kd_now draw) t (hash_secret (kd_salt draw) (token_urlsafe (kd_secret_bytes draw)))
     (token_urlsafe (kd_prefix_bytes draw)) scopes ex s =
   (if kd_id draw \<in> k_id ` set (db_api_keys s) \<or> t \<notin> t_id ` set (db_tenants s) then Inl IntegrityError
    else Inr (new_key draw t scopes ex, s\<lparr>db_api_keys := db_api_keys s @ [new_key draw t scopes ex]\<rparr>))"
  by (simp add: api_keys_create_def new_key_def Let_def)

lemma store_new_key_eq:
  "store_new_key draw t scopes ex =
     bindT (repoT (api_keys_create (kd_id draw) (kd_now draw) t
         (hash_secret (kd_salt draw) (token_urlsafe (kd_secret_bytes draw)))
         (token_urlsafe (kd_prefix_bytes draw)) scopes ex))
       (\<lambda>k. bindT uow_commit (\<lambda>_. returnT (k, plaintext draw)))"
  by (simp add: store_new_key_def generate_api_key_def Let_def plaintext_def)

lemma api_key_issue_run:
  "api_key_issue draw t scopes ex st =
     (if kd_id draw \<in> k_id ` set (db_api_keys (st_db st)) \<or> t \<notin> t_id ` set (db_tenants (st_db st))
      then (Inl IntegrityError, st)
      else (Inr (new_key draw t scopes ex, plaintext draw),
        st\<lparr>st_db := (st_db st)\<lparr>db_api_keys := db_api_keys (st_db st) @ [new_key draw t scopes ex]\<rparr>\<rparr>))"
  by (simp add: api_key_issue_def store_new_key_eq with_uow_repo_commit api_keys_create_new_key)

definition revoke_row :: "timestamp \<Rightarrow> api_key \<Rightarrow> api_key" where
  "revoke_row now k = k\<lparr>k_revoked_at := Some now\<rparr>"

lemma revoke_row_sel [simp]:
  "k_id (revoke_row now k) = k_id k" "k_tenant_id (revoke_row now k) = k_tenant_id k"
  by (simp_all add: revoke_row_def)

lemma api_keys_revoke_eq:
  "api_keys_revoke now i s = (case api_keys_get i s of None \<Rightarrow> Inl (NotFoundError i)
     | Some k \<Rightarrow> Inr (revoke_row now k, s\<lparr>db_api_keys := update_by k_id i (revoke_row now) (db_api_keys s)\<rparr>))"
  by (simp add: api_keys_revoke_def api_keys_get_def revoke_row_def [abs_def] Let_def split: option.split)

lemma api_key_rotate_run:
  "api_key_rotate draw now i t st =
     (case owned_key i t (st_db st) of
        None \<Rightarrow> (Inl (NotFoundError i), st)
      | Some k \<Rightarrow>
          if kd_id draw \<in> k_id ` set (db_api_keys (st_db st)) \<or> t \<notin> t_id ` set (db_tenants (st_db st))
          then (Inl IntegrityError, st)
          else (Inr (new_key draw t (k_scopes k) None, plaintext draw),
            st\<lparr>st_db := (st_db st)\<lparr>db_api_keys := update_by k_id i (revoke_row now) (db_api_keys (st_db st)) @
                 [new_key draw t (k_scopes k) None]\<rparr>\<rparr>))"
proof -
  have exit: "uow_exit ((uow_enter st)\<lparr>se_pending := d\<rparr>) = st" for d
    by (simp add: uow_exit_def uow_rollback_def uow_enter_def store.defs session.defs)
  show ?thesis
    by (auto simp: api_key_rotate_def with_uow_def tx_simps store_new_key_eq api_keys_revoke_eq
        api_keys_create_new_key owned_key_def exit uow_exit_committed split: option.splits)
qed

subsection \<open>Properties\<close>

text \<open>
  An endpoint of another tenant might as well not exist: whoever asks for it, updates it or
  deletes it under a different tenant gets, word for word, the answer for an identifier that does
  not exist, and the store does not change.
\<close>

theorem endpoints_are_isolated_by_tenant:
  assumes "endpoints_get i (st_db st) = Some ep" and "ep_tenant_id ep \<noteq> t"
    and "endpoints_get i (st_db st0) = None"
  shows "endpoint_get i t st = (Inl (NotFoundError i), st) \<and>
    endpoint_delete i t st = (Inl (NotFoundError i), st) \<and>
    (\<exists>e. endpoint_update i t url ts status st = (Inl e, st) \<and>
         endpoint_update i t url ts status st0 = (Inl e, st0))"
proof -
  have n: "owned_endpoint i t (st_db st) = None" "owned_endpoint i t (st_db st0) = None"
    using assms by (simp_all add: owned_endpoint_def)
  then show ?thesis
    by (simp add: endpoint_get_run endpoint_delete_run endpoint_update_run split: sum.split)
qed

definition two_tenants :: db where
  "two_tenants = empty_db\<lparr>
     db_tenants := [\<lparr>t_id = 1, t_name = ''acme'', t_created_at = 0, t_deleted_at = None, t_is_sandbox = True\<rparr>,
                    \<lparr>t_id = 2, t_name = ''other'', t_created_at = 0, t_deleted_at = None, t_is_sandbox = False\<rparr>],
     db_endpoints := [\<lparr>ep_id = 3, ep_tenant_id = 1, ep_url = ''https://example.com/hook'', ep_secret = ''s'',
       ep_event_types = [''order.paid''], ep_created_at = 2, ep_status = ACTIVE, ep_breaker_state = CLOSED,
       ep_opened_at = None, ep_consecutive_failures = 0\<rparr>],
     db_api_keys := [\<lparr>k_id = 5, k_tenant_id = 1, k_key_hash = [], k_key_prefix = [], k_scopes = [''dlq:read''],
       k_created_at = 0, k_revoked_at = None, k_expires_at = Some 100\<rparr>]\<rparr>"

definition store_of :: "db \<Rightarrow> store" where
  "store_of s = \<lparr>st_db = s, st_breaker_gauge = [], st_attempts_total = []\<rparr>"

theorem endpoints_are_isolated_by_tenant_witness:
  "endpoint_delete 3 2 (store_of two_tenants) = (Inl (NotFoundError 3), store_of two_tenants)"
proof -
  have "\<exists>ep. endpoints_get 3 (st_db (store_of two_tenants)) = Some ep \<and> ep_tenant_id ep \<noteq> 2"
    by (simp add: store_of_def two_tenants_def endpoints_get_def)
  then obtain ep where ep: "endpoints_get 3 (st_db (store_of two_tenants)) = Some ep" "ep_tenant_id ep \<noteq> 2" by blast
  have "endpoints_get 3 (st_db (store_of empty_db)) = None"
    by (simp add: store_of_def empty_db_def endpoints_get_def)
  from endpoints_are_isolated_by_tenant [OF ep this] show ?thesis by simp
qed

text \<open>The endpoints a delivery can be sent to.\<close>

definition deliverable :: "endpoint \<Rightarrow> bool" where
  "deliverable ep \<longleftrightarrow>
     (\<exists>u. urlsplit (ep_url ep) = Inr u \<and> u_scheme u = ''https'' \<and> u_netloc u \<noteq> []) \<and>
     ep_event_types ep \<noteq> [] \<and> (\<forall>t \<in> set (ep_event_types ep). strip_set is_py_space t \<noteq> [])"

definition endpoint_rows_valid :: "db \<Rightarrow> bool" where
  "endpoint_rows_valid s \<longleftrightarrow> (\<forall>ep \<in> set (db_endpoints s). deliverable ep)"

lemma validate_url_ok:
  "validate_url url = Inr v \<Longrightarrow> \<exists>u. urlsplit url = Inr u \<and> u_scheme u = ''https'' \<and> u_netloc u \<noteq> []"
  by (auto simp: validate_url_def res_bind_Inr_iff split: if_splits)

lemma validate_event_types_ok:
  "validate_event_types ts = Inr v \<Longrightarrow> ts \<noteq> [] \<and> (\<forall>t \<in> set ts. strip_set is_py_space t \<noteq> [])"
  by (auto simp: validate_event_types_def list_ex_iff split: if_splits)

lemma created_deliverable:
  assumes "validate_url url = Inr v" "validate_event_types ts = Inr w"
    and "endpoints_create i now t url secret ts s = Inr (ep, s')" "endpoint_rows_valid s"
  shows "endpoint_rows_valid s'"
  using validate_url_ok [OF assms(1)] validate_event_types_ok [OF assms(2)] assms(3,4)
  by (auto simp: endpoints_create_def Let_def endpoint_rows_valid_def deliverable_def split: if_splits)

definition change_endpoint ::
  "string option \<Rightarrow> string list option \<Rightarrow> endpoint_status option \<Rightarrow> endpoint \<Rightarrow> endpoint" where
  "change_endpoint url ts status m =
     m\<lparr>ep_url := (case url of None \<Rightarrow> ep_url m | Some u \<Rightarrow> u),
       ep_event_types := (case ts of None \<Rightarrow> ep_event_types m | Some x \<Rightarrow> x),
       ep_status := (case status of None \<Rightarrow> ep_status m | Some st \<Rightarrow> st)\<rparr>"

lemma endpoints_update_eq:
  "endpoints_update i url ts status = endpoints_modify i (change_endpoint url ts status)"
proof -
  have "(\<lambda>m. let m1 = (case url of None \<Rightarrow> m | Some u \<Rightarrow> m\<lparr>ep_url := u\<rparr>);
           m2 = (case ts of None \<Rightarrow> m1 | Some ts \<Rightarrow> m1\<lparr>ep_event_types := ts\<rparr>)
       in (case status of None \<Rightarrow> m2 | Some st \<Rightarrow> m2\<lparr>ep_status := st\<rparr>)) = change_endpoint url ts status"
    by (auto simp: fun_eq_iff change_endpoint_def Let_def split: option.split)
  then show ?thesis by (simp add: endpoints_update_def)
qed

lemma changed_deliverable:
  assumes "(case url of None \<Rightarrow> Inr () | Some u \<Rightarrow> validate_url u) = Inr v"
    and "(case ts of None \<Rightarrow> Inr () | Some x \<Rightarrow> validate_event_types x) = Inr w" and "deliverable m"
  shows "deliverable (change_endpoint url ts status m)"
proof -
  have "\<exists>u. urlsplit (ep_url (change_endpoint url ts status m)) = Inr u \<and> u_scheme u = ''https'' \<and> u_netloc u \<noteq> []"
    using assms(1,3) by (cases url) (auto simp: change_endpoint_def deliverable_def dest: validate_url_ok)
  moreover have "ep_event_types (change_endpoint url ts status m) \<noteq> [] \<and>
      (\<forall>t \<in> set (ep_event_types (change_endpoint url ts status m)). strip_set is_py_space t \<noteq> [])"
    using assms(2,3) by (cases ts) (auto simp: change_endpoint_def deliverable_def dest: validate_event_types_ok)
  ultimately show ?thesis by (simp add: deliverable_def)
qed

text \<open>
  Registering, updating and deleting keep every stored endpoint deliverable: its URL is an
  https URL with an authority, and it is subscribed to at least one type, none of them blank.
\<close>

theorem endpoint_services_keep_rows_valid:
  assumes "endpoint_rows_valid (st_db st)"
  shows "endpoint_rows_valid (st_db (snd (endpoint_register i now b t url ts st))) \<and>
    endpoint_rows_valid (st_db (snd (endpoint_update j t url' ts' status st))) \<and>
    endpoint_rows_valid (st_db (snd (endpoint_delete j t st)))"
proof (intro conjI)
  show "endpoint_rows_valid (st_db (snd (endpoint_register i now b t url ts st)))"
    using assms created_deliverable [of url _ ts _ i now t "token_urlsafe b" "st_db st"]
    by (fastforce simp: endpoint_register_run split: sum.split prod.split)
  show "endpoint_rows_valid (st_db (snd (endpoint_delete j t st)))"
    using assms
    by (auto simp: endpoint_delete_run endpoints_delete_Inr endpoint_rows_valid_def split: option.splits sum.splits)
  have change: "endpoint_rows_valid d"
    if "(case url' of None \<Rightarrow> Inr () | Some u \<Rightarrow> validate_url u) = Inr v"
      "(case ts' of None \<Rightarrow> Inr () | Some x \<Rightarrow> validate_event_types x) = Inr w"
      "endpoints_update j url' ts' status (st_db st) = Inr (m, d)" for v w m d
    using changed_deliverable [OF that(1,2)] that(3) assms
    by (auto simp: endpoints_update_eq endpoints_modify_Inr endpoint_rows_valid_def dest!: set_update_byD)
  show "endpoint_rows_valid (st_db (snd (endpoint_update j t url' ts' status st)))"
    unfolding endpoint_update_run
    using assms change by (auto split: sum.split option.split prod.split)
qed

theorem endpoint_services_keep_rows_valid_witness:
  "endpoint_rows_valid (st_db (snd (endpoint_register 4 9 [] 2 ''ftp://x'' [''a''] (store_of two_tenants))))"
proof -
  have "endpoint_rows_valid (st_db (store_of two_tenants))"
    by (simp add: endpoint_rows_valid_def deliverable_def store_of_def two_tenants_def urlsplit_def urlsplit_with_def
        split_scheme_def brackets_ok_def py_partition_def is_c0_or_space_def is_scheme_char_def
        is_ascii_alpha_def is_digit_def py_lower_def py_lower_char_def strip_set_def is_py_space_def)
  from endpoint_services_keep_rows_valid [OF this] show ?thesis by blast
qed

text \<open>
  Rotation is atomic and exact: it succeeds exactly for a key of the tenant (given a fresh row
  identifier), and then in one commit the old key is revoked, one key with the same scopes is
  added whose stored hash verifies the secret of the returned plaintext, and no other key and no
  other table changes; otherwise nothing changes. The new key never expires, whatever the old
  one's expiry was.
\<close>

theorem rotation_replaces_the_key:
  assumes "db_ok (st_db st)" and "kd_id draw \<notin> k_id ` set (db_api_keys (st_db st))"
  shows "(case api_keys_get i (st_db st) of
      None \<Rightarrow> api_key_rotate draw now i t st = (Inl (NotFoundError i), st)
    | Some k \<Rightarrow>
        if k_tenant_id k \<noteq> t then api_key_rotate draw now i t st = (Inl (NotFoundError i), st)
        else (\<exists>k' st'. api_key_rotate draw now i t st = (Inr (k', plaintext draw), st') \<and>
          db_api_keys (st_db st') = update_by k_id i (revoke_row now) (db_api_keys (st_db st)) @ [k'] \<and>
          st_db st' = (st_db st)\<lparr>db_api_keys := db_api_keys (st_db st')\<rparr> \<and>
          k_tenant_id k' = t \<and> k_scopes k' = k_scopes k \<and> \<not> is_revoked k' \<and>
          verify_secret (token_urlsafe (kd_secret_bytes draw)) (k_key_hash k') = Inr True \<and>
          (\<forall>later. \<not> is_expired k' later)))"
proof (cases "api_keys_get i (st_db st)")
  case None
  then show ?thesis by (simp add: api_key_rotate_run owned_key_def)
next
  case (Some k)
  have "k \<in> set (db_api_keys (st_db st))" using Some by (auto simp: api_keys_get_def dest: find_by_SomeD)
  then have "k_tenant_id k \<in> t_id ` set (db_tenants (st_db st))" using assms(1) by (auto simp: db_ok_def)
  with Some assms(2) show ?thesis
    by (auto simp: api_key_rotate_run owned_key_def new_key_def is_revoked_def is_expired_def verify_hash_secret)
qed

definition demo_draw :: key_draw where
  "demo_draw = \<lparr>kd_id = 6, kd_now = 50, kd_prefix_bytes = [], kd_secret_bytes = [], kd_salt = []\<rparr>"

lemma two_tenants_ok: "db_ok two_tenants"
  by (simp add: db_ok_def two_tenants_def empty_db_def)

theorem rotation_replaces_the_key_witness:
  "\<exists>k' st'. api_key_rotate demo_draw 60 5 1 (store_of two_tenants) = (Inr (k', plaintext demo_draw), st') \<and>
     k_scopes k' = [''dlq:read''] \<and> (\<forall>later. \<not> is_expired k' later)"
proof -
  have "db_ok (st_db (store_of two_tenants))" by (simp add: store_of_def two_tenants_ok)
  moreover have "kd_id demo_draw \<notin> k_id ` set (db_api_keys (st_db (store_of two_tenants)))"
    by (simp add: demo_draw_def store_of_def two_tenants_def)
  ultimately show ?thesis
    using rotation_replaces_the_key [of "store_of two_tenants" demo_draw 60 5 1]
    by (auto simp: api_keys_get_def store_of_def two_tenants_def)
qed

text \<open>
  The sandbox cap holds for callers that take turns: when the quota check passes and the
  registration that follows it succeeds with nothing in between, the tenant is left with at most
  \<open>sandbox_max_endpoints\<close> endpoints; a tenant at the cap is refused with the cap as the reason.
\<close>

theorem sandbox_cap_holds_in_turn:
  assumes "t_is_sandbox t" and "assert_endpoint_quota cfg t st = (r, st1)"
    and "endpoint_register i now b (t_id t) url ts st1 = (Inr ep, st')"
  shows "st1 = st \<and>
    (r = Inr () \<longrightarrow> endpoints_count_for_tenant (t_id t) (st_db st') \<le> sandbox_max_endpoints cfg) \<and>
    (sandbox_max_endpoints cfg \<le> endpoints_count_for_tenant (t_id t) (st_db st) \<longrightarrow>
       r = Inl (SandboxQuotaExceeded ''endpoints'' (sandbox_max_endpoints cfg)))"
proof -
  have q: "r = check_quota (endpoints_count_for_tenant (t_id t) (st_db st)) (sandbox_max_endpoints cfg) ''endpoints''"
    "st1 = st"
    using assms(1,2) by (auto simp: assert_endpoint_quota_def with_uow_def tx_simps checked_def)
  have "endpoints_count_for_tenant (t_id t) (st_db st') = endpoints_count_for_tenant (t_id t) (st_db st) + 1"
    using assms(3) unfolding q(2) endpoint_register_run
    by (auto simp: endpoints_create_def Let_def endpoints_count_for_tenant_def split: sum.splits if_splits)
  with q show ?thesis by (auto simp: check_quota_def split: if_splits)
qed

definition demo_cap :: settings where
  "demo_cap = default_settings\<lparr>sandbox_max_endpoints := 2\<rparr>"

lemma register_two_tenants:
  assumes "i \<noteq> 3" "db_endpoints (st_db st) = db_endpoints two_tenants" "db_tenants (st_db st) = db_tenants two_tenants"
  shows "\<exists>ep st'. endpoint_register i now [] 1 ''https://a.example/'' [''a''] st = (Inr ep, st') \<and>
    db_endpoints (st_db st') = db_endpoints (st_db st) @ [ep] \<and> db_tenants (st_db st') = db_tenants (st_db st) \<and>
    ep_id ep = i \<and> ep_tenant_id ep = 1"
proof -
  have "validate_url ''https://a.example/'' = Inr ()"
    by (simp add: validate_url_def urlsplit_def urlsplit_with_def split_scheme_def brackets_ok_def
        py_partition_def is_c0_or_space_def is_scheme_char_def is_ascii_alpha_def is_digit_def py_lower_def
        py_lower_char_def)
  moreover have "validate_event_types [''a''] = Inr ()"
    by (simp add: validate_event_types_def strip_set_def is_py_space_def)
  ultimately show ?thesis
    using assms by (simp add: endpoint_register_run endpoints_create_def Let_def two_tenants_def)
qed

theorem sandbox_cap_holds_in_turn_witness:
  "\<exists>ep st'. endpoint_register 4 9 [] 1 ''https://a.example/'' [''a''] (store_of two_tenants) = (Inr ep, st') \<and>
     endpoints_count_for_tenant 1 (st_db st') \<le> 2"
proof -
  let ?t = "\<lparr>t_id = 1, t_name = ''acme'', t_created_at = 0, t_deleted_at = None, t_is_sandbox = True\<rparr> :: tenant"
  obtain ep st' where reg: "endpoint_register 4 9 [] (t_id ?t) ''https://a.example/'' [''a''] (store_of two_tenants) = (Inr ep, st')"
    using register_two_tenants [of 4 "store_of two_tenants" 9] by (auto simp: store_of_def)
  have "assert_endpoint_quota demo_cap ?t (store_of two_tenants) = (Inr (), store_of two_tenants)"
    by (simp add: assert_endpoint_quota_def with_uow_def tx_simps checked_def check_quota_def demo_cap_def
        endpoints_count_for_tenant_def store_of_def two_tenants_def)
  from sandbox_cap_holds_in_turn [OF _ this reg] reg show ?thesis by (simp add: demo_cap_def)
qed

text \<open>
  The check and the insert are two transactions, so the cap does not hold for concurrent
  callers: both may pass the check before either registers, and the tenant ends up above the cap.
\<close>

theorem sandbox_cap_fails_concurrently:
  "\<exists>t st st1 st2. t_is_sandbox t \<and>
     assert_endpoint_quota demo_cap t st = (Inr (), st) \<and>
     (\<exists>ep. endpoint_register 4 9 [] (t_id t) ''https://a.example/'' [''a''] st = (Inr ep, st1)) \<and>
     (\<exists>ep. endpoint_register 7 9 [] (t_id t) ''https://a.example/'' [''a''] st1 = (Inr ep, st2)) \<and>
     sandbox_max_endpoints demo_cap < endpoints_count_for_tenant (t_id t) (st_db st2)"
proof -
  let ?t = "\<lparr>t_id = 1, t_name = ''acme'', t_created_at = 0, t_deleted_at = None, t_is_sandbox = True\<rparr> :: tenant"
  let ?st = "store_of two_tenants"
  have v: "validate_url ''https://a.example/'' = Inr ()" "validate_event_types [''a''] = Inr ()"
    by (simp_all add: validate_url_def urlsplit_def urlsplit_with_def split_scheme_def brackets_ok_def
        py_partition_def is_c0_or_space_def is_scheme_char_def is_ascii_alpha_def is_digit_def py_lower_def
        py_lower_char_def validate_event_types_def strip_set_def is_py_space_def)
  have c: "assert_endpoint_quota demo_cap ?t ?st = (Inr (), ?st)"
    by (simp add: assert_endpoint_quota_def with_uow_def tx_simps checked_def check_quota_def demo_cap_def
        endpoints_count_for_tenant_def store_of_def two_tenants_def)
  obtain ep1 st1 where r1: "endpoint_register 4 9 [] 1 ''https://a.example/'' [''a''] ?st = (Inr ep1, st1)"
    "db_endpoints (st_db st1) = db_endpoints (st_db ?st) @ [ep1]" "db_tenants (st_db st1) = db_tenants (st_db ?st)"
    "ep_id ep1 = 4" "ep_tenant_id ep1 = 1"
    using register_two_tenants [of 4 ?st 9] by (auto simp: store_of_def)
  obtain ep2 st2 where r2: "endpoint_register 7 9 [] 1 ''https://a.example/'' [''a''] st1 = (Inr ep2, st2)"
    "db_endpoints (st_db st2) = db_endpoints (st_db st1) @ [ep2]" "ep_tenant_id ep2 = 1"
    using r1 by (simp add: endpoint_register_run v endpoints_create_def Let_def store_of_def two_tenants_def)
  have "endpoints_count_for_tenant 1 (st_db st2) = 3"
    by (simp add: endpoints_count_for_tenant_def r1 r2 store_of_def two_tenants_def)
  then show ?thesis
    using c r1(1) r2(1)
    by (intro exI [of _ ?t] exI [of _ ?st] exI [of _ st1] exI [of _ st2]) (simp add: demo_cap_def)
qed

lemma sorted_prefix_rank:
  assumes "sorted ls" "i < length ls"
  shows "i + 1 \<le> length (filter (\<lambda>x. x \<le> ls ! i) ls)"
proof -
  have "\<forall>x \<in> set (take (i + 1) ls). x \<le> ls ! i"
    using assms by (auto simp: in_set_conv_nth intro!: sorted_nth_mono)
  then have "filter (\<lambda>x. x \<le> ls ! i) (take (i + 1) ls) = take (i + 1) ls" by (rule filter_True)
  then have "length (filter (\<lambda>x. x \<le> ls ! i) (take (i + 1) ls)) = i + 1" using assms(2) by simp
  moreover have "length (filter (\<lambda>x. x \<le> ls ! i) ls) =
      length (filter (\<lambda>x. x \<le> ls ! i) (take (i + 1) ls)) + length (filter (\<lambda>x. x \<le> ls ! i) (drop (i + 1) ls))"
    by (metis append_take_drop_id filter_append length_append)
  ultimately show ?thesis by linarith
qed

text \<open>The nearest-rank percentile of a sorted sample is in it and has its share at or below it.\<close>

lemma percentile_rank:
  assumes "xs \<noteq> []"
  shows "percentile (sort xs) (95 / 100) \<in> set xs \<and>
    95 * length xs \<le> 100 * length (filter (\<lambda>x. x \<le> percentile (sort xs) (95 / 100)) xs)"
proof -
  let ?k = "length xs" and ?ls = "sort xs"
  let ?i = "min (?k - 1) (nat \<lfloor>of_nat ?k * (95 / 100 :: rat)\<rfloor>)"
  have k: "0 < ?k" using assms by simp
  have "min (a - 1) b < a" if "0 < a" for a b :: nat using that by linarith
  then have i: "?i < length ?ls" using k by (simp only: length_sort)
  have p: "percentile ?ls (95 / 100) = ?ls ! ?i" by (simp add: percentile_def)
  have "?ls ! ?i \<in> set ?ls" by (rule nth_mem [OF i])
  moreover have "?i + 1 \<le> length (filter (\<lambda>x. x \<le> ?ls ! ?i) xs)"
    using sorted_prefix_rank [OF sorted_sort i] by (simp only: filter_sort length_sort)
  moreover have "95 * ?k \<le> 100 * (?i + 1)"
  proof -
    have "(of_nat ?k * (95 / 100) :: rat) < of_int (\<lfloor>of_nat ?k * (95 / 100 :: rat)\<rfloor> + 1)" by linarith
    then have "(95 * of_nat ?k :: rat) < of_int (100 * (\<lfloor>of_nat ?k * (95 / 100 :: rat)\<rfloor> + 1))" by simp
    then have "int (95 * ?k) < 100 * (\<lfloor>of_nat ?k * (95 / 100 :: rat)\<rfloor> + 1)"
      by (metis of_int_less_iff of_int_of_nat_eq of_nat_mult of_nat_numeral)
    moreover have "95 * m \<le> 100 * (min (m - 1) (nat z) + 1)" if "int (95 * m) < 100 * (z + 1)" "0 < m"
      for m and z :: int
    proof (cases "m - 1 \<le> nat z")
      case True
      then show ?thesis using that by (simp add: min_def)
    next
      case False
      then show ?thesis using that by (simp add: min_def)
    qed
    ultimately show ?thesis using k by blast
  qed
  ultimately show ?thesis unfolding p by (simp del: min_less_iff_conj)
qed

text \<open>
  The metrics strip means what it says: the latency shown is one of the sample's, at least 95
  per cent of the sample is not above it, the success rate is a fraction between 0 and 1, both are
  absent exactly when the sample is empty, and at most the sample size of attempts is used.
\<close>

theorem metrics_are_meaningful:
  "\<exists>m. metrics_snapshot t n st = (Inr m, st) \<and>
     (let recent = delivery_attempts_recent_for_tenant t n (st_db st); k = length recent in
      dm_sample_size m = k \<and> k \<le> n \<and>
      (case dm_p95_latency_ms m of
         None \<Rightarrow> k = 0
       | Some p \<Rightarrow> p \<in> a_latency_ms ` set recent \<and>
           95 * k \<le> 100 * length (filter (\<lambda>a. a_latency_ms a \<le> p) recent)) \<and>
      (case dm_success_rate m of None \<Rightarrow> k = 0 | Some q \<Rightarrow> 0 \<le> q \<and> q \<le> 1))"
proof -
  let ?recent = "delivery_attempts_recent_for_tenant t n (st_db st)"
  have run: "metrics_snapshot t n st = (Inr (metrics_of
      (deliveries_count_by_states_for_tenant t [PENDING, RETRYING] (st_db st))
      (deliveries_count_by_states_for_tenant t [RETRYING] (st_db st)) ?recent), st)"
    by (simp add: metrics_snapshot_def with_uow_def tx_simps)
  have le: "length ?recent \<le> n" by (simp add: delivery_attempts_recent_for_tenant_def)
  have rate: "0 \<le> (of_nat (length (filter P xs)) / of_nat (length xs) :: rat) \<and>
      (of_nat (length (filter P xs)) / of_nat (length xs) :: rat) \<le> 1" for P and xs :: "delivery_attempt list"
    by (auto simp: divide_le_eq_1)
  show ?thesis
  proof (cases "?recent = []")
    case True
    then show ?thesis unfolding run by (simp add: metrics_of_def)
  next
    case False
    let ?p = "percentile (sort (map a_latency_ms ?recent)) (95 / 100)"
    have "length (filter (\<lambda>x. x \<le> ?p) (map a_latency_ms ?recent)) =
        length (filter (\<lambda>a. a_latency_ms a \<le> ?p) ?recent)"
      by (simp add: filter_map comp_def)
    then have "?p \<in> a_latency_ms ` set ?recent \<and>
        95 * length ?recent \<le> 100 * length (filter (\<lambda>a. a_latency_ms a \<le> ?p) ?recent)"
      using percentile_rank [of "map a_latency_ms ?recent"] False by simp
    moreover have "sort (map a_latency_ms ?recent) \<noteq> []"
      using False by (metis length_0_conv length_map length_sort)
    ultimately show ?thesis unfolding run using False le rate by (simp add: metrics_of_def Let_def)
  qed
qed

end
