(* ===== verification/System.thy ===== *)
theory System
  imports Workers HttpSender Services
begin

section \<open>The whole delivery system\<close>

text \<open>
  API, relay, dispatcher, reaper and scheduler over one world, in any order and any number of
  replicas: a step is one transaction or one call to Redis of one of them, with the places where
  a crash leaves half of a handler's work behind as steps of their own. The property all of them
  work for is that no delivery that still has to be made is ever forgotten: it is named by a
  message the consumer group owes, or by a member of the retry schedule.
\<close>

subsection \<open>What still has to be delivered, and what carries it\<close>

definition is_live :: "delivery \<Rightarrow> bool" where
  "is_live d \<longleftrightarrow> d_state d = PENDING \<or> d_state d = RETRYING"

definition live :: "db \<Rightarrow> uuid set" where
  "live s = d_id ` set (filter is_live (db_deliveries s))"

definition carried :: "world \<Rightarrow> uuid set" where
  "carried w = snd ` outstanding (w_stream w) \<union> scheduled (w_retries w)"

definition world_ok :: "world \<Rightarrow> bool" where
  "world_ok w \<longleftrightarrow> db_ok (st_db (w_store w)) \<and> stream_ok (w_stream w) \<and> retry_ok (w_retries w) \<and>
     live (st_db (w_store w)) \<subseteq> carried w"

text \<open>A message some worker holds: it was parsed out of an entry of the stream, at any time.\<close>

definition in_stream :: "redis_stream \<Rightarrow> delivery_message \<Rightarrow> bool" where
  "in_stream x m \<longleftrightarrow> (\<exists>e \<in> set (x_entries x). parse_entry e = Inr m)"

text \<open>
  The sender raises errors of its own, never the one that stands for an absent row.
\<close>

definition sender_ok :: "attempt_env \<Rightarrow> bool" where
  "sender_ok env \<longleftrightarrow> (\<forall>u p h j. en_send env u p h \<noteq> Inl (NotFoundError j))"

subsection \<open>Steps\<close>

text \<open>
  \<open>relay_crash\<close> is a relay that dies after publishing and before its commit; \<open>commit_crash\<close> a
  dispatcher or reaper that dies after the attempt's commit and before the retry is scheduled,
  while its message is still owed; \<open>ack_crash\<close> one that dies before the acknowledgement.
\<close>

inductive world_step :: "settings \<Rightarrow> world \<Rightarrow> world \<Rightarrow> bool" for cfg where
  group: "world_step cfg w (w\<lparr>w_stream := ensure_consumer_group (w_stream w)\<rparr>)"
| ingest: "ingest ei oi now id t ty p k c (w_store w) = (r, st) \<Longrightarrow> world_step cfg w (w\<lparr>w_store := st\<rparr>)"
| register: "endpoint_register ei now b t url ts (w_store w) = (r, st) \<Longrightarrow> world_step cfg w (w\<lparr>w_store := st\<rparr>)"
| update: "endpoint_update ei t url' ts' status (w_store w) = (r', st) \<Longrightarrow> world_step cfg w (w\<lparr>w_store := st\<rparr>)"
| delete: "endpoint_delete ei t (w_store w) = (r'', st) \<Longrightarrow> world_step cfg w (w\<lparr>w_store := st\<rparr>)"
| replay: "replay now_ms i t w = (rd, w') \<Longrightarrow> world_step cfg w w'"
| relay: "relay_run_once renv n (w_store w) (w_stream w) = (rn, st, x) \<Longrightarrow>
    world_step cfg w (w\<lparr>w_store := st, w_stream := x\<rparr>)"
| relay_crash: "relay_open renv n (w_store w) (w_stream w) = (rn, s, x) \<Longrightarrow>
    world_step cfg w (w\<lparr>w_stream := x\<rparr>)"
| poll: "dispatcher_poll now_ms consumer n w = (rp, w') \<Longrightarrow> world_step cfg w w'"
| handle: "in_stream (w_stream w) m \<Longrightarrow> sender_ok env \<Longrightarrow> world_step cfg w (handle_and_ack cfg env m w)"
| commit_crash: "(m_id (m :: delivery_message), m_delivery_id m) \<in> outstanding (w_stream w) \<Longrightarrow>
    attempt_in cfg env (m_delivery_id m) w = (ra, w') \<Longrightarrow> world_step cfg w w'"
| ack_crash: "process_delivery_message cfg env i c w = (rm, w') \<Longrightarrow> world_step cfg w w'"
| claim: "claim_stale_deliveries now_ms consumer min_idle_ms n (w_stream w) = (rc, x) \<Longrightarrow>
    world_step cfg w (w\<lparr>w_stream := x\<rparr>)"
| reap: "in_stream (w_stream w) m \<Longrightarrow> sender_ok env \<Longrightarrow> world_step cfg w (reap_message cfg env m w)"
| scheduler: "scheduler_run_once now now_ms n w = (rs, w') \<Longrightarrow> world_step cfg w w'"

inductive_cases world_stepE: "world_step cfg w w'"

subsection \<open>How the parts change what is live and what carries it\<close>

lemma carried_simps [simp]:
  "carried (w\<lparr>w_store := st\<rparr>) = carried w" "carried (w\<lparr>w_feed := f\<rparr>) = carried w"
  "carried (w\<lparr>w_retries := schedule_retry i t c (w_retries w)\<rparr>) = insert i (carried w)"
  by (auto simp: carried_def)

lemma live_cong: "db_deliveries s' = db_deliveries s \<Longrightarrow> live s' = live s"
  by (simp add: live_def)

lemma live_mono: "set (db_deliveries s') \<subseteq> set (db_deliveries s) \<Longrightarrow> live s' \<subseteq> live s"
  by (auto simp: live_def)

lemma live_update:
  assumes "\<And>d. d_id (f d) = d_id d"
  shows "live (s\<lparr>db_deliveries := update_by d_id i f (db_deliveries s)\<rparr>) \<subseteq> live s \<union> {i}"
    "i \<in> live (s\<lparr>db_deliveries := update_by d_id i f (db_deliveries s)\<rparr>) \<Longrightarrow>
     \<exists>d \<in> set (db_deliveries s). d_id d = i \<and> is_live (f d)"
  using assms by (auto simp: live_def update_by_def)

lemma attempt_live:
  assumes "db_ok (st_db st)" "attempt cfg env i st = (r, st', pubs)"
  shows "live (st_db st') \<subseteq> live (st_db st) \<union> {i}"
    "r = Inl e \<Longrightarrow> st_db st' = st_db st"
    "r = Inr d \<Longrightarrow> d_id d = i \<and> (i \<in> live (st_db st') \<longrightarrow> d_state d = RETRYING \<and> d_next_retry_at d \<noteq> None)"
proof -
  have "live (st_db st') \<subseteq> live (st_db st) \<union> {i} \<and> (r = Inl e \<longrightarrow> st_db st' = st_db st) \<and>
    (r = Inr d \<longrightarrow> d_id d = i \<and> (i \<in> live (st_db st') \<longrightarrow> d_state d = RETRYING \<and> d_next_retry_at d \<noteq> None))"
    using assms
  proof (cases rule: attempt_cases)
    case (deferred d0 ev ep opened)
    then show ?thesis
      using found_ids [OF deferred(1)] live_update(1) [of "set_rescheduled (opened + cooldown cfg)" i "st_db st"]
      by (auto simp: row_sets)
  next
    case (sent d0 ev ep res)
    let ?f = "after_attempt cfg (en_now env) (en_draw env) (succeeded res)"
    have same: "live (st_db st') = live (st_db st\<lparr>db_deliveries := update_by d_id i ?f (db_deliveries (st_db st))\<rparr>)"
      using sent(6) found_ids [OF sent(1)] by (intro live_cong) (simp add: after_sent_db_def)
    have row: "d1 = d0" if "d1 \<in> set (db_deliveries (st_db st))" "d_id d1 = i" for d1
      using that assms(1) sent(1) distinct_row [of d_id "db_deliveries (st_db st)" i d0]
      by (simp add: db_ok_def found_def deliveries_get_def)
    have id: "d_id d0 = i" using found_ids [OF sent(1)] by blast
    have "live (st_db st') \<subseteq> live (st_db st) \<union> {i}"
      unfolding same by (rule live_update(1)) simp
    moreover have "is_live (?f d0)" if "i \<in> live (st_db st')"
      using live_update(2) [of ?f i "st_db st"] that row unfolding same by fastforce
    moreover have "is_live (?f d0) \<Longrightarrow> d_state (?f d0) = RETRYING \<and> d_next_retry_at (?f d0) \<noteq> None"
      by (auto simp: is_live_def after_attempt_def row_sets split: if_splits)
    ultimately show ?thesis using id sent(5) after_attempt_keep(1) by auto
  qed (auto simp: live_def)
  then show "live (st_db st') \<subseteq> live (st_db st) \<union> {i}" "r = Inl e \<Longrightarrow> st_db st' = st_db st"
    "r = Inr d \<Longrightarrow> d_id d = i \<and> (i \<in> live (st_db st') \<longrightarrow> d_state d = RETRYING \<and> d_next_retry_at d \<noteq> None)"
    by blast+
qed

lemma attempt_db_ok:
  assumes "db_ok (st_db st)" "attempt cfg env i st = (r, st', pubs)"
  shows "db_ok (st_db st')"
  using assms
proof (cases rule: attempt_cases)
  case (sent d ev ep res)
  then show ?thesis using db_ok_after_sent [OF assms(1) sent(1,4)] by simp
qed (use assms in \<open>simp_all add: db_ok_update_delivery\<close>)

text \<open>Acknowledging a message of the stream uncovers its own delivery at most.\<close>

lemma in_stream_unique:
  assumes "stream_ok x" "in_stream x m" "(m_id m, i) \<in> outstanding x"
  shows "i = m_delivery_id m"
proof -
  obtain e f where e: "e \<in> set (x_entries x)" "parse_entry e = Inr m"
    and f: "f \<in> set (x_entries x)" "e_id f = m_id m" "delivery_of f = Some i"
    using assms(2,3) by (auto simp: in_stream_def outstanding_def)
  have "distinct (map e_id (x_entries x))" using assms(1) by (simp add: stream_ok_def strict_sorted_iff)
  moreover have "e_id e = e_id f" using parse_entry_Inr [OF e(2)] f(2) by simp
  ultimately have "e = f" using e(1) f(1) by (auto simp: distinct_map dest: inj_onD)
  then show ?thesis using e(2) f(3) by (simp add: delivery_of_def)
qed

lemma carried_ack:
  assumes "stream_ok (w_stream w)" "in_stream (w_stream w) m"
  shows "carried w \<subseteq> insert (m_delivery_id m) (carried (ack_message m w))"
proof
  fix i assume "i \<in> carried w"
  then consider (owed) j where "(j, i) \<in> outstanding (w_stream w)" | (later) "i \<in> scheduled (w_retries w)"
    by (auto simp: carried_def)
  then show "i \<in> insert (m_delivery_id m) (carried (ack_message m w))"
  proof cases
    case owed
    then show ?thesis
      using in_stream_unique [OF assms] outstanding_ack(2) [of j i "w_stream w" "m_id m"]
      by (cases "j = m_id m") (force simp: carried_def ack_message_def)+
  qed (simp add: carried_def ack_message_def)
qed

lemma attempt_in_parts:
  assumes "attempt_in cfg env i w = (r, w')"
  obtains st pubs where "attempt cfg env i (w_store w) = (r, st, pubs)"
    "w' = w\<lparr>w_store := st, w_feed := w_feed w @ pubs\<rparr>"
  using assms by (cases "attempt cfg env i (w_store w)") (auto simp: attempt_in_def)

lemma attempt_in_ok:
  assumes "world_ok w" "attempt_in cfg env i w = (r, w')"
  shows "db_ok (st_db (w_store w'))" "w_stream w' = w_stream w" "w_retries w' = w_retries w"
    "live (st_db (w_store w')) \<subseteq> insert i (carried w')" "r = Inl e \<Longrightarrow> live (st_db (w_store w')) \<subseteq> carried w'"
    "r = Inr d \<Longrightarrow> d_id d = i \<and>
       (i \<in> live (st_db (w_store w')) \<longrightarrow> d_state d = RETRYING \<and> d_next_retry_at d \<noteq> None)"
proof -
  obtain st pubs where run: "attempt cfg env i (w_store w) = (r, st, pubs)"
    and w': "w' = w\<lparr>w_store := st, w_feed := w_feed w @ pubs\<rparr>"
    using assms(2) by (rule attempt_in_parts)
  have ok: "db_ok (st_db (w_store w))" and sub: "live (st_db (w_store w)) \<subseteq> carried w"
    using assms(1) by (simp_all add: world_ok_def)
  have c: "carried w' = carried w" by (simp add: w' carried_def)
  show "db_ok (st_db (w_store w'))" using attempt_db_ok [OF ok run] w' by simp
  show "w_stream w' = w_stream w" "w_retries w' = w_retries w" by (simp_all add: w')
  show "live (st_db (w_store w')) \<subseteq> insert i (carried w')"
    using attempt_live(1) [OF ok run] sub unfolding c by (auto simp: w')
  show "live (st_db (w_store w')) \<subseteq> carried w'" if "r = Inl e"
    using attempt_live(2) [OF ok run that] sub unfolding c by (simp add: w')
  show "d_id d = i \<and> (i \<in> live (st_db (w_store w')) \<longrightarrow> d_state d = RETRYING \<and> d_next_retry_at d \<noteq> None)"
    if "r = Inr d"
    using attempt_live(3) [OF ok run that] by (simp add: w')
qed

lemma process_ok:
  assumes "world_ok w" "process_delivery_message cfg env i c w = (r, w')"
  shows "world_ok w'" "w_stream w' = w_stream w"
    "r = Inr () \<Longrightarrow> i \<in> live (st_db (w_store w')) \<Longrightarrow> i \<in> scheduled (w_retries w')"
proof -
  obtain r0 w0 where a: "attempt_in cfg env i w = (r0, w0)" by fastforce
  note ok = attempt_in_ok [OF assms(1) a]
  have parts: "stream_ok (w_stream w)" "retry_ok (w_retries w)" using assms(1) by (simp_all add: world_ok_def)
  have "world_ok w' \<and> w_stream w' = w_stream w \<and>
     (r = Inr () \<and> i \<in> live (st_db (w_store w')) \<longrightarrow> i \<in> scheduled (w_retries w'))"
  proof (cases r0)
    case (Inl e)
    then show ?thesis
      using assms(2) a ok(1-3) ok(5) [OF Inl] parts
      by (auto simp: process_delivery_message_def world_ok_def)
  next
    case (Inr d)
    then have w': "w' = schedule_if_retrying d c w0" "r = Inr ()"
      using assms(2) a by (simp_all add: process_delivery_message_def)
    note d = ok(6) [OF Inr]
    show ?thesis
    proof (cases "i \<in> live (st_db (w_store w0))")
      case True
      with d obtain t where "w' = w0\<lparr>w_retries := schedule_retry i t c (w_retries w0)\<rparr>"
        using w' by (auto simp: schedule_if_retrying_def)
      moreover from this have "carried w' = insert i (carried w0)" "i \<in> scheduled (w_retries w')" by simp_all
      moreover have "retry_ok (w_retries w0)" using parts ok(3) by simp
      ultimately show ?thesis
        using ok(1,2,4) parts by (simp add: world_ok_def retry_ok_zadd)
    next
      case False
      have "carried w0 \<subseteq> carried w'" "w_store w' = w_store w0" "w_stream w' = w_stream w0" "retry_ok (w_retries w')"
        using parts ok(3) w'(1)
        by (auto simp: schedule_if_retrying_def retry_ok_zadd carried_def split: option.splits)
      then show ?thesis
        using ok(1,2,4) False parts by (auto simp: world_ok_def)
    qed
  qed
  then show "world_ok w'" "w_stream w' = w_stream w"
    "r = Inr () \<Longrightarrow> i \<in> live (st_db (w_store w')) \<Longrightarrow> i \<in> scheduled (w_retries w')"
    by blast+
qed

lemma ack_ok:
  assumes "world_ok w" "in_stream (w_stream w) m"
    and "m_delivery_id m \<in> live (st_db (w_store w)) \<Longrightarrow> m_delivery_id m \<in> scheduled (w_retries w)"
  shows "world_ok (ack_message m w)"
proof -
  have "carried w \<subseteq> insert (m_delivery_id m) (carried (ack_message m w))"
    using assms(1,2) by (intro carried_ack) (simp_all add: world_ok_def)
  moreover have "m_delivery_id m \<in> live (st_db (w_store w)) \<Longrightarrow> m_delivery_id m \<in> carried (ack_message m w)"
    using assms(3) by (simp add: carried_def ack_message_def)
  ultimately have "live (st_db (w_store w)) \<subseteq> carried (ack_message m w)"
    using assms(1) by (auto simp: world_ok_def)
  then show ?thesis
    using assms(1) by (simp add: world_ok_def ack_message_def stream_ok_ack)
qed

lemma handle_ok:
  assumes "world_ok w" "in_stream (w_stream w) m"
  shows "world_ok (handle_and_ack cfg env m w)"
proof -
  obtain r w' where p: "process_delivery_message cfg env (m_delivery_id m) (m_correlation_id m) w = (r, w')"
    by fastforce
  note ok = process_ok [OF assms(1) p]
  show ?thesis
  proof (cases r)
    case (Inr u)
    with p ok assms(2) show ?thesis by (auto simp: handle_and_ack_def intro!: ack_ok)
  qed (use p ok in \<open>simp add: handle_and_ack_def\<close>)
qed

lemma reap_ok:
  assumes "world_ok w" "in_stream (w_stream w) m" "sender_ok env"
  shows "world_ok (reap_message cfg env m w)"
proof -
  let ?i = "m_delivery_id m"
  obtain r0 w0 where a: "attempt_in cfg env ?i w = (r0, w0)" by fastforce
  obtain r w' where p: "process_delivery_message cfg env ?i (m_correlation_id m) w = (r, w')" by fastforce
  note ok = process_ok [OF assms(1) p]
  show ?thesis
  proof (cases "\<exists>k. r = Inl (NotFoundError k)")
    case True
    then obtain k where k: "r0 = Inl (NotFoundError k)" "r = Inl (NotFoundError k)" "w' = w0"
      using a p by (auto simp: process_delivery_message_def split: sum.splits)
    obtain st pubs where run: "attempt cfg env ?i (w_store w) = (Inl (NotFoundError k), st, pubs)"
      and w0: "w0 = w\<lparr>w_store := st, w_feed := w_feed w @ pubs\<rparr>"
      using attempt_in_parts [OF a] k(1) by metis
    have db: "db_ok (st_db (w_store w))" using assms(1) by (simp add: world_ok_def)
    have "deliveries_get ?i (st_db (w_store w)) = None"
      using attempt_not_found [OF db run] assms(3) by (simp add: sender_ok_def)
    then have "?i \<notin> live (st_db (w_store w))"
      using find_by_None_iff [of d_id ?i "db_deliveries (st_db (w_store w))"]
      by (auto simp: live_def deliveries_get_def)
    then have "?i \<notin> live (st_db (w_store w'))"
      using attempt_live(2) [OF db run] w0 k(3) by simp
    then have "world_ok (ack_message m w')" using ok assms(2) by (intro ack_ok) simp_all
    then show ?thesis using p k(2) by (simp add: reap_message_def)
  next
    case False
    then show ?thesis
      using p ok assms(2) by (cases r) (auto simp: reap_message_def intro!: ack_ok split: error.splits)
  qed
qed

text \<open>Messages stay in the stream, so a worker can act on one it read long ago.\<close>

lemma world_ok_stream:
  assumes "world_ok w" "stream_ok x" "snd ` outstanding (w_stream w) \<subseteq> snd ` outstanding x"
  shows "world_ok (w\<lparr>w_stream := x\<rparr>)"
  using assms by (auto simp: world_ok_def carried_def)

lemma world_ok_store:
  assumes "world_ok w" "db_ok (st_db st)" "live (st_db st) \<subseteq> live (st_db (w_store w))"
  shows "world_ok (w\<lparr>w_store := st\<rparr>)"
  using assms by (auto simp: world_ok_def)

lemma relay_ok:
  assumes "world_ok w" "relay_run_once renv n (w_store w) (w_stream w) = (r, st, x)"
  shows "world_ok (w\<lparr>w_store := st, w_stream := x\<rparr>)"
proof -
  obtain r' s where opened: "relay_open renv n (w_store w) (w_stream w) = (r', s, x)"
    and st: "st = (case r' of Inl e \<Rightarrow> uow_exit s | Inr k \<Rightarrow> uow_exit (snd (uow_commit s)))"
    using assms(2) by (auto simp: relay_run_once_def split: prod.splits sum.splits)
  from relay_open_spec [OF opened] obtain ds where
    g: "grown (w_stream w) (map d_id ds) x" and ex: "uow_exit s = w_store w"
    and s: "s = (uow_enter (w_store w))\<lparr>se_pending := se_pending s\<rparr>"
    and db: "db_ok (st_db (w_store w)) \<longrightarrow> db_ok (se_pending s)"
    and rows: "\<forall>k. r' = Inr k \<longrightarrow> db_deliveries (se_pending s) = db_deliveries (st_db (w_store w)) @ ds"
    by (elim exE conjE) (rule that, auto)
  have ok: "stream_ok (w_stream w)" "db_ok (st_db (w_store w))" using assms(1) by (simp_all add: world_ok_def)
  have grow: "stream_ok x" "snd ` outstanding x = snd ` outstanding (w_stream w) \<union> d_id ` set ds"
    using grown_ok [OF g] grown_outstanding [OF g] ok by simp_all
  have w1: "world_ok (w\<lparr>w_stream := x\<rparr>)" using assms(1) grow by (intro world_ok_stream) auto
  show ?thesis
  proof (cases r')
    case (Inl e)
    then have "w\<lparr>w_store := st, w_stream := x\<rparr> = w\<lparr>w_stream := x\<rparr>" using st ex by simp
    with w1 show ?thesis by simp
  next
    case (Inr k)
    have db': "st_db st = se_pending s"
      using st Inr by (simp add: uow_commit_def uow_exit_def uow_rollback_def store.defs)
    have "live (se_pending s) \<subseteq> live (st_db (w_store w)) \<union> d_id ` set ds"
      using rows Inr by (auto simp: live_def)
    then have "live (st_db st) \<subseteq> carried (w\<lparr>w_store := st, w_stream := x\<rparr>)"
      using w1 grow(2) db' by (auto simp: world_ok_def carried_def)
    then show ?thesis
      using w1 db db' ok(2) by (simp add: world_ok_def)
  qed
qed

lemma relay_crash_ok:
  assumes "world_ok w" "relay_open renv n (w_store w) (w_stream w) = (r, s, x)"
  shows "world_ok (w\<lparr>w_stream := x\<rparr>)"
proof -
  have "\<exists>ds :: delivery list. grown (w_stream w) (map d_id ds) x"
    using relay_open_spec [OF assms(2)] by (elim exE conjE) (rule exI)
  then obtain ds :: "delivery list" where g: "grown (w_stream w) (map d_id ds) x" ..
  have "stream_ok (w_stream w)" using assms(1) by (simp add: world_ok_def)
  with assms(1) show ?thesis using grown_ok [OF g] grown_outstanding [OF g] by (intro world_ok_stream) auto
qed

lemma replay_run:
  "with_uow (replay_body i t) st =
     (case deliveries_get i (st_db st) of None \<Rightarrow> (Inl (NotFoundError i), st)
      | Some d \<Rightarrow> case events_get (d_event_id d) (st_db st) of None \<Rightarrow> (Inl (NotFoundError i), st)
      | Some ev \<Rightarrow>
          if ev_tenant_id ev \<noteq> t then (Inl (NotFoundError i), st)
          else if d_state d \<noteq> DEAD then (Inl (DeliveryNotDeadError i (d_state d)), st)
          else (Inr (set_replayed d), st\<lparr>st_db := (st_db st)\<lparr>db_deliveries :=
                  update_by d_id i set_replayed (db_deliveries (st_db st))\<rparr>\<rparr>))"
  by (simp add: replay_body_def with_uow_def tx_simps uow_exit_committed deliveries_reset_for_replay_def
      deliveries_modify_found split: option.split)

lemma replay_ok:
  assumes "world_ok w" "replay now_ms i t w = (r, w')"
  shows "world_ok w'"
proof -
  obtain r0 st where u: "with_uow (replay_body i t) (w_store w) = (r0, st)" by fastforce
  have ok: "db_ok (st_db (w_store w))" "stream_ok (w_stream w)" using assms(1) by (simp_all add: world_ok_def)
  have "(\<exists>e. r0 = Inl e) \<and> st = w_store w \<or> (\<exists>d. r0 = Inr (set_replayed d) \<and> d_id d = i \<and>
      st = (w_store w)\<lparr>st_db := (st_db (w_store w))\<lparr>db_deliveries :=
             update_by d_id i set_replayed (db_deliveries (st_db (w_store w)))\<rparr>\<rparr>)"
    using u by (auto simp: replay_run deliveries_get_def split: option.splits if_splits dest: find_by_SomeD)
  then show ?thesis
  proof
    assume "(\<exists>e. r0 = Inl e) \<and> st = w_store w"
    then show ?thesis using assms u by (auto simp: replay_def)
  next
    assume "\<exists>d. r0 = Inr (set_replayed d) \<and> d_id d = i \<and>
      st = (w_store w)\<lparr>st_db := (st_db (w_store w))\<lparr>db_deliveries :=
             update_by d_id i set_replayed (db_deliveries (st_db (w_store w)))\<rparr>\<rparr>"
    then obtain d where d: "r0 = Inr (set_replayed d)" "d_id d = i"
      and st: "st_db st = (st_db (w_store w))\<lparr>db_deliveries :=
             update_by d_id i set_replayed (db_deliveries (st_db (w_store w)))\<rparr>" by auto
    have w': "w' = w\<lparr>w_store := st, w_stream := snd (enqueue_delivery now_ms i None (w_stream w))\<rparr>"
      using assms(2) u d by (simp add: replay_def row_sets)
    have "live (st_db st) \<subseteq> live (st_db (w_store w)) \<union> {i}"
      unfolding st by (rule live_update(1)) (simp add: row_sets)
    then have "live (st_db st) \<subseteq> carried w'"
      using assms(1) outstanding_enqueue [OF ok(2), of now_ms i None]
      by (auto simp: w' world_ok_def carried_def)
    moreover have "db_ok (st_db st)"
      unfolding st using ok(1) by (intro db_ok_update_delivery) (simp_all add: row_sets)
    ultimately show ?thesis
      using assms(1) stream_ok_enqueue [OF ok(2)] by (simp add: w' world_ok_def)
  qed
qed

lemma fire_ok:
  assumes "stream_ok x"
  shows "stream_ok (fire_retries now rs x) \<and>
    snd ` outstanding (fire_retries now rs x) = snd ` outstanding x \<union> r_delivery_id ` set rs"
  using assms
proof (induction rs arbitrary: x)
  case (Cons r rs)
  then show ?case
    using Cons.IH [OF stream_ok_enqueue [OF Cons.prems]]
    by (simp add: outstanding_enqueue [OF Cons.prems])
qed simp

lemma scheduler_ok:
  assumes "world_ok w" "scheduler_run_once now now_ms n w = (r, w')"
  shows "world_ok w'"
proof -
  have ok: "stream_ok (w_stream w)" "retry_ok (w_retries w)" using assms(1) by (simp_all add: world_ok_def)
  obtain ps z where pop: "pop_items now n (w_retries w) = (ps, z)" by fastforce
  from pop_due_retries_ok [OF ok(2) pop] obtain rs where
    rs: "pop_due_retries now n (w_retries w) = (Inr rs, z)"
    and due: "map (\<lambda>r. Envelope (r_delivery_id r) (r_correlation_id r)) rs = map fst ps" and z: "retry_ok z"
    by auto
  have w': "w' = w\<lparr>w_retries := z, w_stream := fire_retries now_ms rs (w_stream w)\<rparr>"
    using assms(2) rs by (simp add: scheduler_run_once_def)
  have split: "set (w_retries w) \<subseteq> set ps \<union> set z"
    using pop by (auto simp: pop_items_def Let_def)
  have "scheduled (w_retries w) \<subseteq> r_delivery_id ` set rs \<union> scheduled z"
  proof
    fix i assume "i \<in> scheduled (w_retries w)"
    then obtain c where "Envelope i c \<in> fst ` set ps \<or> Envelope i c \<in> fst ` set z"
      using split by (fastforce simp: scheduled_def)
    moreover have "fst ` set ps = (\<lambda>r. Envelope (r_delivery_id r) (r_correlation_id r)) ` set rs"
      using arg_cong [OF due, of set] by simp
    ultimately show "i \<in> r_delivery_id ` set rs \<union> scheduled z" by (auto simp: scheduled_def)
  qed
  then have "live (st_db (w_store w')) \<subseteq> carried w'"
    using assms(1) fire_ok [OF ok(1), of now_ms rs] by (auto simp: w' world_ok_def carried_def)
  then show ?thesis
    using assms(1) fire_ok [OF ok(1), of now_ms rs] z by (simp add: w' world_ok_def)
qed

lemma poll_ok:
  assumes "world_ok w" "dispatcher_poll now_ms consumer n w = (r, w')"
  shows "world_ok w'"
proof -
  have "w' = w\<lparr>w_stream := snd (read_deliveries now_ms consumer n (w_stream w))\<rparr>"
    using assms(2) by (auto simp: dispatcher_poll_def split: prod.splits sum.splits)
  moreover have "stream_ok (w_stream w)" using assms(1) by (simp add: world_ok_def)
  ultimately show ?thesis
    using assms(1) by (simp add: world_ok_stream read_deliveries_keeps)
qed

lemma claim_ok:
  assumes "world_ok w" "claim_stale_deliveries now_ms consumer min_idle_ms n (w_stream w) = (r, x)"
  shows "world_ok (w\<lparr>w_stream := x\<rparr>)"
proof -
  have "stream_ok (w_stream w)" using assms(1) by (simp add: world_ok_def)
  from claim_stale_keeps [OF this, of now_ms consumer min_idle_ms n] show ?thesis
    using assms by (simp add: world_ok_stream)
qed

text \<open>The calls of the API add rows or drop an endpoint with its deliveries.\<close>

lemma ingest_ok:
  assumes "world_ok w" "ingest ei oi now id t ty p k c (w_store w) = (r, st)"
  shows "world_ok (w\<lparr>w_store := st\<rparr>)"
proof -
  have "db_ok (st_db (w_store w))" using assms(1) by (simp add: world_ok_def)
  have eff: "effect_point id t k st0 = st0" for st0 by (simp add: effect_point_def)
  from assms(2) have "db_ok (st_db st) \<and> db_deliveries (st_db st) = db_deliveries (st_db (w_store w))"
  proof (cases rule: ingest_outcomes)
    case (created m d q d')
    then show ?thesis
      using db_ok_outbox_create [OF created(4)] db_ok_events_create [OF created(3)]
        events_create_Inr [OF created(3)] outbox_create_Inr [OF created(4)] \<open>db_ok (st_db (w_store w))\<close>
      by (simp add: eff)
  qed (simp_all add: eff \<open>db_ok (st_db (w_store w))\<close>)
  then show ?thesis using assms(1) by (intro world_ok_store) (auto simp: live_def)
qed

lemma register_ok:
  assumes "world_ok w" "endpoint_register ei now b t url ts (w_store w) = (r, st)"
  shows "world_ok (w\<lparr>w_store := st\<rparr>)"
proof -
  have ok: "db_ok (st_db (w_store w))" using assms(1) by (simp add: world_ok_def)
  have "db_ok (st_db st) \<and> db_deliveries (st_db st) = db_deliveries (st_db (w_store w))"
    using assms(2) ok
    by (auto simp: endpoint_register_run split: sum.splits prod.splits intro: db_ok_endpoints_create)
       (auto simp: endpoints_create_def Let_def split: if_splits)
  then show ?thesis using assms(1) by (intro world_ok_store) (auto simp: live_def)
qed

lemma update_ok:
  assumes "world_ok w" "endpoint_update ei t url ts status (w_store w) = (r, st)"
  shows "world_ok (w\<lparr>w_store := st\<rparr>)"
proof -
  have ok: "db_ok (st_db (w_store w))" using assms(1) by (simp add: world_ok_def)
  consider "st = w_store w" | ep d where "endpoints_update ei url ts status (st_db (w_store w)) = Inr (ep, d)"
      "st = (w_store w)\<lparr>st_db := d\<rparr>"
    using assms(2)
    by (cases "case url of None \<Rightarrow> Inr () | Some u \<Rightarrow> validate_url u";
        cases "case ts of None \<Rightarrow> Inr () | Some x \<Rightarrow> validate_event_types x";
        cases "owned_endpoint ei t (st_db (w_store w))";
        cases "endpoints_update ei url ts status (st_db (w_store w))")
       (auto simp: endpoint_update_run)
  then show ?thesis
  proof cases
    case 2
    have "db_ok d" using db_ok_endpoints_update [OF 2(1) ok] .
    moreover have "db_deliveries d = db_deliveries (st_db (w_store w))"
      using 2(1) by (auto simp: endpoints_update_def endpoints_modify_Inr)
    ultimately show ?thesis using assms(1) 2(2) by (intro world_ok_store) (auto simp: live_def)
  qed (use assms(1) in simp)
qed

lemma delete_ok:
  assumes "world_ok w" "endpoint_delete ei t (w_store w) = (r, st)"
  shows "world_ok (w\<lparr>w_store := st\<rparr>)"
proof -
  have ok: "db_ok (st_db (w_store w))" using assms(1) by (simp add: world_ok_def)
  consider "st = w_store w" | u d where "endpoints_delete ei (st_db (w_store w)) = Inr (u, d)"
      "st = (w_store w)\<lparr>st_db := d\<rparr>"
    using assms(2) by (auto simp: endpoint_delete_run split: sum.splits prod.splits option.splits)
  then show ?thesis
  proof cases
    case 2
    have "db_ok d" using db_ok_endpoints_delete [OF 2(1) ok] .
    moreover have "set (db_deliveries d) \<subseteq> set (db_deliveries (st_db (w_store w)))"
      using 2(1) by (auto simp: endpoints_delete_Inr)
    ultimately show ?thesis using assms(1) 2(2) by (intro world_ok_store) (auto simp: live_def)
  qed (use assms(1) in simp)
qed

lemma world_ok_step: "world_step cfg w w' \<Longrightarrow> world_ok w \<Longrightarrow> world_ok w'"
proof (induction rule: world_step.induct)
  case (group w)
  then show ?case
    by (intro world_ok_stream) (simp_all add: world_ok_def stream_ok_ensure outstanding_ensure)
next
  case (commit_crash m w env r w')
  note ok = attempt_in_ok [OF commit_crash(3,2)]
  have "m_delivery_id m \<in> carried w'"
    using commit_crash(1) ok(2) by (force simp: carried_def)
  with ok commit_crash(3) show ?case by (auto simp: world_ok_def)
qed (blast intro: ingest_ok register_ok update_ok delete_ok replay_ok relay_ok relay_crash_ok poll_ok
       handle_ok process_ok(1) claim_ok reap_ok scheduler_ok)+

interpretation system: step_invariant "world_step cfg" world_ok for cfg
  by unfold_locales (rule world_ok_step)

definition fresh_world :: "store \<Rightarrow> world" where
  "fresh_world st = \<lparr>w_store = st, w_stream = empty_stream, w_retries = [], w_feed = []\<rparr>"

lemma fresh_world_ok: "db_ok (st_db st) \<Longrightarrow> db_deliveries (st_db st) = [] \<Longrightarrow> world_ok (fresh_world st)"
  by (simp add: fresh_world_def world_ok_def stream_ok_empty retry_ok_def live_def)

subsection \<open>The runs of the workers are such steps\<close>

lemma claimed_in_stream:
  assumes "xautoclaim now c m n x = (es, x')"
  shows "set es \<subseteq> set (x_entries x)"
proof -
  have "set (fst (autoclaim now c m entries att k ps)) \<subseteq> set entries" for entries att k ps
    by (induction ps arbitrary: att k)
       (auto simp: case_prod_beta Let_def split: option.splits dest: find_by_SomeD subsetD)
  from this [of "x_entries x" "10 * n" n "x_pel x"] show ?thesis
    using assms by (auto simp: xautoclaim_def split: prod.splits)
qed

lemma parse_entries_from: "parse_entries es = Inr ms \<Longrightarrow> m \<in> set ms \<Longrightarrow> \<exists>e \<in> set es. parse_entry e = Inr m"
  by (induction es arbitrary: ms) (auto simp: res_bind_Inr_iff split: if_splits)

lemma reap_entries: "x_entries (w_stream (reap_message cfg env m w)) = x_entries (w_stream w)"
proof -
  obtain r w' where p: "process_delivery_message cfg env (m_delivery_id m) (m_correlation_id m) w = (r, w')"
    by fastforce
  have "w_stream w' = w_stream w"
    using p by (auto simp: process_delivery_message_def attempt_in_def schedule_if_retrying_def
        split: prod.splits sum.splits option.splits if_splits)
  then show ?thesis using p by (auto simp: reap_message_def ack_message_def split: sum.split error.split)
qed

lemma reap_messages_steps:
  assumes "\<And>i. sender_ok (envs i)" "\<forall>m \<in> set ms. in_stream (w_stream w) m"
  shows "(world_step cfg)\<^sup>*\<^sup>* w (reap_messages cfg envs ms w)"
  using assms(2)
proof (induction ms arbitrary: w)
  case (Cons m ms)
  let ?w = "reap_message cfg (envs (m_id m)) m w"
  have "world_step cfg w ?w" using Cons.prems assms(1) by (intro world_step.reap) simp_all
  moreover have "\<forall>m \<in> set ms. in_stream (w_stream ?w) m"
    using Cons.prems by (simp add: in_stream_def reap_entries)
  ultimately show ?case using Cons.IH by (simp add: converse_rtranclp_into_rtranclp)
qed simp

lemma claimed_messages_in_stream:
  assumes "claim_stale_deliveries now c m n x = (Inr ms, x')" "k \<in> set ms"
  shows "in_stream x' k"
proof -
  obtain es y where xa: "xautoclaim now c m n x = (es, y)" by fastforce
  then have "x_entries y = x_entries x" by (auto simp: xautoclaim_def split: prod.splits)
  moreover have "x' = y" "parse_entries es = Inr ms"
    using assms(1) xa by (auto simp: claim_stale_deliveries_def split: if_splits)
  ultimately show ?thesis
    using claimed_in_stream [OF xa] parse_entries_from [of es ms k] assms(2) by (auto simp: in_stream_def)
qed

lemma reaper_run_steps:
  assumes "\<And>i. sender_ok (envs i)" "reaper_run_once cfg envs now_ms consumer min_idle_ms w = (r, w')"
  shows "(world_step cfg)\<^sup>*\<^sup>* w w'"
proof -
  obtain rc x where c: "claim_stale_deliveries now_ms consumer min_idle_ms DEFAULT_CLAIM_COUNT (w_stream w) = (rc, x)"
    by fastforce
  have first: "world_step cfg w (w\<lparr>w_stream := x\<rparr>)" using c by (rule world_step.claim)
  show ?thesis
  proof (cases rc)
    case (Inl e)
    then show ?thesis using first assms(2) c by (auto simp: reaper_run_once_def)
  next
    case (Inr ms)
    then have w': "w' = reap_messages cfg envs ms (w\<lparr>w_stream := x\<rparr>)"
      using assms(2) c by (simp add: reaper_run_once_def)
    have "\<forall>m \<in> set ms. in_stream (w_stream (w\<lparr>w_stream := x\<rparr>)) m"
      using claimed_messages_in_stream [OF c [unfolded Inr]] by simp
    from reap_messages_steps [OF assms(1) this] first show ?thesis
      unfolding w' by (rule converse_rtranclp_into_rtranclp [rotated])
  qed
qed

subsection \<open>Properties\<close>


lemma demo_due_ok: "db_ok (st_db demo_due)"
  by (simp add: db_ok_def demo_due_def empty_db_def demo_tenant_def accepted_event_def)

text \<open>The demo event after its relay run: one pending delivery and its message.\<close>

lemma demo_relayed:
  "\<exists>w d. world_step cfg (fresh_world demo_due) w \<and> db_deliveries (st_db (w_store w)) = [d] \<and>
     d_id d = 9 \<and> d_state d = PENDING \<and> db_attempts (st_db (w_store w)) = []"
proof -
  have ids: "map d_id (planned demo_relay_env 50 (st_db demo_due)) = [9]" by (rule demo_due_planned(1))
  then obtain d where d: "planned demo_relay_env 50 (st_db demo_due) = [d]" "d_id d = 9" by (auto simp: map_eq_Cons_conv)
  have "d \<in> set (planned demo_relay_env 50 (st_db demo_due))" using d by simp
  then have pend: "d_state d = PENDING" by (auto simp: planned_def deliveries_for_def fresh_delivery_def split: option.splits)
  have "distinct (map d_id (planned demo_relay_env 50 (st_db demo_due)))"
    "d_id ` set (planned demo_relay_env 50 (st_db demo_due)) \<inter> d_id ` set (db_deliveries (st_db demo_due)) = {}"
    by (simp_all add: d demo_due_planned(2))
  from relay_run_planned [OF this, of empty_stream] obtain r st x where
    run: "relay_run_once demo_relay_env 50 demo_due empty_stream = (r, st, x)"
    and eq: "db_deliveries (st_db st) = db_deliveries (st_db demo_due) @ planned demo_relay_env 50 (st_db demo_due)"
      "db_attempts (st_db st) = db_attempts (st_db demo_due)"
    by (elim exE conjE) (rule that, assumption, simp_all)
  have st: "db_deliveries (st_db st) = [d]" using eq(1) by (simp add: d demo_due_planned(2))
  have no: "db_attempts (st_db st) = []" using eq(2) by (simp add: demo_due_def empty_db_def)
  have "relay_run_once demo_relay_env 50 (w_store (fresh_world demo_due)) (w_stream (fresh_world demo_due)) = (r, st, x)"
    using run by (simp add: fresh_world_def)
  from world_step.relay [OF this] st no d(2) pend show ?thesis
    by (intro exI [of _ "(fresh_world demo_due)\<lparr>w_store := st, w_stream := x\<rparr>"] exI [of _ d]) simp
qed


text \<open>
  Every run of the reaper is made of such steps, so nothing that holds of their sequences can be
  broken by a whole sweep: the claim of the stale messages, then each of them processed and
  acknowledged, the errors of one message never keeping the next from being processed.
\<close>

theorem reaper_run_refines_steps:
  assumes "\<And>i. sender_ok (envs i)"
    and "reaper_run_once cfg envs now_ms consumer min_idle_ms w = (r, w')"
  shows "(world_step cfg)\<^sup>*\<^sup>* w w' \<and> (world_ok w \<longrightarrow> world_ok w')"
  using reaper_run_steps [OF assms] system.reachable_inv by blast

lemma answers_ok: "sender_ok (answers (Inr res))"
  by (simp add: sender_ok_def answers_def)

theorem reaper_run_refines_steps_witness:
  "(world_step default_settings)\<^sup>*\<^sup>* (fresh_world demo_due)
     (snd (reaper_run_once default_settings (\<lambda>_. answers (Inr (status_result 200))) 5 ''r'' 100 (fresh_world demo_due)))"
proof -
  obtain r w' where run: "reaper_run_once default_settings (\<lambda>_. answers (Inr (status_result 200))) 5 ''r'' 100
      (fresh_world demo_due) = (r, w')" by fastforce
  from reaper_run_refines_steps [OF answers_ok run] run show ?thesis by simp
qed

subsection \<open>Every live delivery can still be made\<close>

text \<open>A retry that is due comes back to the stream with a large enough pop.\<close>

lemma pop_items_length:
  assumes "pop_items now n z = (ps, z')"
  shows "length ps \<le> length z"
proof -
  have "length ps = min (length (filter (\<lambda>p. snd p \<le> now) z)) n"
    using assms by (auto simp: pop_items_def Let_def)
  then show ?thesis using length_filter_le [of "\<lambda>p. snd p \<le> now" z] by linarith
qed

lemma scheduler_brings_back:
  assumes "world_ok w" "i \<in> scheduled (w_retries w)"
  shows "\<exists>w'. world_step cfg w w' \<and> w_store w' = w_store w \<and> i \<in> snd ` outstanding (w_stream w')"
proof -
  have ok: "stream_ok (w_stream w)" "retry_ok (w_retries w)" using assms(1) by (simp_all add: world_ok_def)
  obtain c t where m: "(Envelope i c, t) \<in> set (w_retries w)" using assms(2) by (auto simp: scheduled_def)
  let ?n = "Suc (length (w_retries w))"
  obtain ps z where pop: "pop_items t ?n (w_retries w) = (ps, z)" by fastforce
  have "length ps \<le> length (w_retries w)"
    by (rule pop_items_length [OF pop])
  then have "(Envelope i c, t) \<in> set ps" using retries.due_leaves_or_full [OF pop m] by simp
  then have e: "Envelope i c \<in> set (map fst ps)" by force
  from pop_due_retries_ok [OF ok(2) pop] obtain rs where
    rs: "pop_due_retries t ?n (w_retries w) = (Inr rs, z)"
    "map (\<lambda>r. Envelope (r_delivery_id r) (r_correlation_id r)) rs = map fst ps" by blast
  have "i \<in> r_delivery_id ` set rs" using e unfolding rs(2) [symmetric] by auto
  then have "i \<in> snd ` outstanding (fire_retries 0 rs (w_stream w))" using fire_ok [OF ok(1), of 0 rs] by blast
  moreover have "world_step cfg w (w\<lparr>w_retries := z, w_stream := fire_retries 0 rs (w_stream w)\<rparr>)"
    by (rule world_step.scheduler [of t 0 ?n _ "Inr (length rs)"]) (simp add: scheduler_run_once_def rs(1))
  ultimately show ?thesis by fastforce
qed

text \<open>An attempt whose request succeeds, at a time when no breaker is in its cooldown.\<close>

lemma attempt_delivers:
  fixes snd_req :: "string \<Rightarrow> byte list \<Rightarrow> (string \<times> string) list \<Rightarrow> error + outbound_http_result"
  assumes "db_ok (st_db st)" "deliveries_get i (st_db st) = Some d"
    and "\<And>u p h. \<exists>res. snd_req u p h = Inr res \<and> succeeded res"
    and "new \<notin> a_id ` set (db_attempts (st_db st))"
  shows "\<exists>env st' d' pubs. sender_ok env \<and> attempt cfg env i st = (Inr d', st', pubs) \<and>
     deliveries_get i (st_db st') = Some d' \<and> d_state d' = DELIVERED"
proof -
  obtain ev ep where f: "found (st_db st) i d ev ep" using found_delivery [OF assms(1,2)] by blast
  let ?now = "(case ep_opened_at ep of None \<Rightarrow> 0 | Some t \<Rightarrow> t + cooldown cfg)"
  let ?env = "\<lparr>en_now = ?now, en_created_at = ?now, en_published_at = ?now, en_draw = 0,
     en_attempt_id = new, en_frepr = \<lambda>_. [], en_send = snd_req\<rparr>"
  have no: "\<not> skips cfg ?env ep" by (auto simp: skips_def should_skip_iff)
  obtain res where res: "en_send ?env (ep_url ep) (request_payload ?env ev) (request_headers ?env ev ep i) = Inr res"
      "succeeded res"
    using assms(3) by (metis attempt_env.select_convs(7))
  have dist: "distinct (map d_id (db_deliveries (st_db st)))" using assms(1) by (simp add: db_ok_def)
  have "sender_ok ?env" using assms(3) by (simp add: sender_ok_def) (metis Inl_Inr_False)
  moreover have "en_attempt_id ?env \<notin> a_id ` set (db_attempts (st_db st))" using assms(4) by simp
  from attempt_sent [OF f no dist res(1) this] obtain st' pub where
    "attempt cfg ?env i st = (Inr (after_attempt cfg (en_now ?env) (en_draw ?env) (succeeded res) d), st', [pub])"
    "st_db st' = after_sent_db cfg ?env d ev ep res (st_db st)"
    by fastforce
  moreover have "deliveries_get i (after_sent_db cfg ?env d ev ep res (st_db st)) =
      Some (after_attempt cfg (en_now ?env) (en_draw ?env) (succeeded res) d)"
    by (simp add: deliveries_after_sent [OF assms(1) f])
  ultimately show ?thesis using res(2) by (fastforce simp: after_attempt_def row_sets)
qed

lemma outstanding_message:
  assumes "i \<in> snd ` outstanding x"
  shows "\<exists>m. in_stream x m \<and> m_delivery_id m = i"
proof -
  obtain e where "e \<in> set (x_entries x)" "delivery_of e = Some i"
    using assms by (auto simp: outstanding_def)
  then show ?thesis by (auto simp: in_stream_def delivery_of_def split: sum.splits)
qed



text \<open>
  The one hole: the scheduler takes the due retries out of the schedule before it puts them on
  the stream. If it dies in between, a delivery whose only carrier was its scheduled retry is
  left retrying for good, carried by nothing, although the same run without the crash carries it.
\<close>

theorem scheduler_crash_loses_a_retry:
  assumes "world_ok w" and "d \<in> set (db_deliveries (st_db (w_store w)))"
    and "d_state d = PENDING \<or> d_state d = RETRYING"
    and "d_id d \<notin> snd ` outstanding (w_stream w)"
    and "\<And>m t. (m, t) \<in> set (w_retries w) \<Longrightarrow> t \<le> now" and "length (w_retries w) < n"
    and "w' = w\<lparr>w_retries := snd (pop_due_retries now n (w_retries w))\<rparr>"
  shows "d_id d \<in> live (st_db (w_store w')) \<and> d_id d \<notin> carried w' \<and>
    d_id d \<in> carried (snd (scheduler_run_once now now_ms n w))"
proof -
  have live: "d_id d \<in> live (st_db (w_store w))" using assms(2,3) by (auto simp: live_def is_live_def)
  obtain ps z where pop: "pop_items now n (w_retries w) = (ps, z)" by fastforce
  have "retry_ok (w_retries w)" using assms(1) by (simp add: world_ok_def)
  from pop_due_retries_ok [OF this pop] have z: "snd (pop_due_retries now n (w_retries w)) = z" by auto
  have "length ps < n"
    using pop_items_length [OF pop] assms(6) by linarith
  then have "(m, t) \<notin> set z" for m t
    using retries.pop_room [OF pop, of "(m, t)"] retries.pop_splits [OF pop] assms(5) [of m t] by auto
  then have "scheduled z = {}" by (auto simp: scheduled_def)
  then have "d_id d \<notin> carried w'" using assms(4) by (simp add: assms(7) z carried_def)
  moreover have "world_ok (snd (scheduler_run_once now now_ms n w))"
    using scheduler_ok [OF assms(1)] by (metis prod.collapse)
  moreover have "w_store (snd (scheduler_run_once now now_ms n w)) = w_store w"
    by (simp add: scheduler_run_once_def split: prod.split sum.split)
  ultimately show ?thesis using live by (auto simp: world_ok_def assms(7))
qed

definition demo_retrying :: world where
  "demo_retrying = (fresh_world demo_sending)
     \<lparr>w_store := demo_sending\<lparr>st_db := (st_db demo_sending)\<lparr>db_deliveries :=
         [demo_delivery\<lparr>d_state := RETRYING, d_attempt_count := 1, d_next_retry_at := Some 100\<rparr>]\<rparr>\<rparr>,
      w_retries := [(Envelope 9 None, 100)]\<rparr>"

lemma demo_retrying_sel:
  "w_retries demo_retrying = [(Envelope 9 None, 100)]" "w_stream demo_retrying = empty_stream"
  "db_deliveries (st_db (w_store demo_retrying)) =
     [demo_delivery\<lparr>d_state := RETRYING, d_attempt_count := 1, d_next_retry_at := Some 100\<rparr>]"
  "db_ok (st_db (w_store demo_retrying))"
  using demo_sending_ok(1) by (simp_all add: demo_retrying_def fresh_world_def demo_defs db_ok_def)

theorem scheduler_crash_loses_a_retry_witness:
  "9 \<notin> carried (demo_retrying\<lparr>w_retries := snd (pop_due_retries 200 100 (w_retries demo_retrying))\<rparr>)"
proof -
  let ?d = "demo_delivery\<lparr>d_state := RETRYING, d_attempt_count := 1, d_next_retry_at := Some 100\<rparr>"
  have "outstanding empty_stream = {}" by (simp add: outstanding_def empty_stream_def)
  moreover have "scheduled [(Envelope 9 None, 100)] = {9}" by (auto simp: scheduled_def)
  moreover have id: "d_id demo_delivery = 9" by (simp add: demo_defs)
  ultimately have "world_ok demo_retrying" "d_id ?d \<notin> snd ` outstanding (w_stream demo_retrying)"
    by (auto simp: world_ok_def demo_retrying_sel stream_ok_empty retry_ok_def live_def carried_def)
  from scheduler_crash_loses_a_retry [OF this(1) _ _ this(2), of 200 100 _ 0] show ?thesis
    by (simp add: demo_retrying_sel id)
qed

text \<open>
  A replay restarts a dead delivery of the caller's tenant and only that: it is pending again with
  a whole retry budget and a message owed for it, its recorded attempts and every other delivery
  stay as they were; for any other delivery the call raises and changes nothing.
\<close>

theorem replay_restarts_a_dead_delivery:
  assumes "world_ok w" and "deliveries_get i (st_db (w_store w)) = Some d"
    and "events_get (d_event_id d) (st_db (w_store w)) = Some ev"
  shows "if ev_tenant_id ev = t \<and> d_state d = DEAD
    then (\<exists>d' w'. replay now_ms i t w = (Inr d', w') \<and>
       deliveries_get i (st_db (w_store w')) = Some d' \<and>
       d_state d' = PENDING \<and> d_attempt_count d' = 0 \<and> d_next_retry_at d' = None \<and>
       i \<in> snd ` outstanding (w_stream w') \<and>
       db_attempts (st_db (w_store w')) = db_attempts (st_db (w_store w)) \<and>
       (\<forall>j. j \<noteq> i \<longrightarrow> deliveries_get j (st_db (w_store w')) = deliveries_get j (st_db (w_store w))))
    else (\<exists>e. replay now_ms i t w = (Inl e, w))"
proof (cases "ev_tenant_id ev = t \<and> d_state d = DEAD")
  case True
  have ok: "stream_ok (w_stream w)" "db_ok (st_db (w_store w))" using assms(1) by (simp_all add: world_ok_def)
  have id: "d_id d = i" using assms(2) by (auto simp: deliveries_get_def dest: find_by_SomeD)
  let ?s = "(st_db (w_store w))\<lparr>db_deliveries := update_by d_id i set_replayed (db_deliveries (st_db (w_store w)))\<rparr>"
  let ?w = "w\<lparr>w_store := (w_store w)\<lparr>st_db := ?s\<rparr>, w_stream := snd (enqueue_delivery now_ms i None (w_stream w))\<rparr>"
  have "replay now_ms i t w = (Inr (set_replayed d), ?w)"
    using True assms(2,3) id by (simp add: replay_def replay_run row_sets)
  moreover have "deliveries_get j ?s = (if j = i then Some (set_replayed d) else deliveries_get j (st_db (w_store w)))" for j
    using assms(2) by (auto simp: deliveries_get_def find_by_update_by row_sets)
  ultimately show ?thesis
    using True outstanding_enqueue [OF ok(1), of now_ms i None] by (auto simp: row_sets)
qed (use assms in \<open>auto simp: replay_def replay_run\<close>)

definition demo_dead :: world where
  "demo_dead = fresh_world (demo_sending\<lparr>st_db := (st_db demo_sending)\<lparr>db_deliveries :=
         [demo_delivery\<lparr>d_state := DEAD, d_attempt_count := 8\<rparr>]\<rparr>\<rparr>)"

theorem replay_restarts_a_dead_delivery_witness:
  "\<exists>d' w'. replay 5 9 1 demo_dead = (Inr d', w') \<and> d_state d' = PENDING \<and> 9 \<in> snd ` outstanding (w_stream w')"
proof -
  let ?d = "demo_delivery\<lparr>d_state := DEAD, d_attempt_count := 8\<rparr>"
  have "db_ok (st_db (w_store demo_dead))"
    using demo_sending_ok(1) by (simp add: demo_dead_def fresh_world_def demo_defs db_ok_def)
  then have ok: "world_ok demo_dead"
    by (simp add: world_ok_def demo_dead_def fresh_world_def stream_ok_empty retry_ok_def live_def is_live_def)
  have "deliveries_get 9 (st_db (w_store demo_dead)) = Some ?d"
    "events_get (d_event_id ?d) (st_db (w_store demo_dead)) = Some demo_event"
    by (simp_all add: demo_dead_def fresh_world_def demo_defs deliveries_get_def events_get_def)
  from replay_restarts_a_dead_delivery [OF ok this, of 1 5] show ?thesis
    by (fastforce simp: demo_defs)
qed

end
