(* ===== verification/Pagination.thy ===== *)
theory Pagination
  imports Services "HOL-Library.Product_Lexorder"
begin

section \<open>Cursors and keyset pages\<close>

text \<open>
  \<open>relay/repositories/pagination.py\<close>, the two listings that use it
  (\<open>EndpointRepository.list\<close>, \<open>DeliveryRepository.list_dead\<close>) and the services over them
  (\<open>EndpointService.list\<close>, \<open>DlqService.list_dead\<close>). A cursor is the key of the last row of a page,
  its creation time and identifier, in base64; the next page is the rows with a greater key.
\<close>

subsection \<open>The calendar, backwards\<close>

definition days_of_civil :: "int \<Rightarrow> int \<Rightarrow> int \<Rightarrow> int" where
  "days_of_civil y m d =
     (let y' = (if m \<le> 2 then y - 1 else y); era = y' div 400; yoe = y' mod 400;
          mp = (if 2 < m then m - 3 else m + 9);
          doy = (153 * mp + 2) div 5 + d - 1
      in era * 146097 + (365 * yoe + yoe div 4 - yoe div 100 + doy) - 719468)"

lemma min_div_bounds:
  fixes x k n :: int
  assumes "0 < k" "0 \<le> x"
  shows "0 \<le> min n (x div k) \<or> n < 0" "x - k * min n (x div k) < k \<or> n < x div k" "0 \<le> x - k * min n (x div k)"
proof -
  have split: "x = k * (x div k) + x mod k" "0 \<le> x mod k" "x mod k < k" "0 \<le> x div k"
    using assms by (simp_all add: pos_imp_zdiv_nonneg_iff)
  then have "x - k * (x div k) < k" by linarith
  then show "0 \<le> min n (x div k) \<or> n < 0" "x - k * min n (x div k) < k \<or> n < x div k"
    using split(4) by (auto simp: min_def)
  have "k * min n (x div k) \<le> k * (x div k)" using assms(1) by (intro mult_left_mono) simp_all
  then show "0 \<le> x - k * min n (x div k)" using split(1,2) by linarith
qed

lemma split_era_bounds:
  assumes "0 \<le> doe" "doe < 146097" "split_era doe = (yoe, doy)"
  shows "0 \<le> yoe" "yoe < 400" "0 \<le> doy" "doy \<le> 365" "365 * yoe + yoe div 4 - yoe div 100 + doy = doe"
proof -
  obtain c r q s y where c: "c = min 3 (doe div 36524)" and r: "r = doe - 36524 * c"
    and q: "q = r div 1461" and s: "s = r - 1461 * q" and y: "y = min 3 (s div 365)" by blast
  have yd: "yoe = 100 * c + 4 * q + y" "doy = s - 365 * y"
    using assms(3) unfolding split_era_def Let_def c r q s y by simp_all
  have cb: "0 \<le> c" "c \<le> 3" using assms(1) by (simp_all add: c pos_imp_zdiv_nonneg_iff)
  have rb: "0 \<le> r" using min_div_bounds(3) [of 36524 doe 3] assms(1) by (simp add: r c)
  have rb': "r \<le> 36524"
  proof (cases "3 < doe div 36524")
    case True
    then show ?thesis using assms(2) by (simp add: r c)
  next
    case False
    then show ?thesis using min_div_bounds(2) [of 36524 doe 3] assms(1) by (simp add: r c)
  qed
  have qs: "r = 1461 * q + s" "0 \<le> s" "s < 1461"
    using rb unfolding s q by (simp_all add: minus_mult_div_eq_mod)
  have qb: "0 \<le> q" "q \<le> 24" using qs rb rb' by linarith+
  have yb: "0 \<le> y" "y \<le> 3" using qs(2) by (simp_all add: y pos_imp_zdiv_nonneg_iff)
  have db: "0 \<le> doy" using min_div_bounds(3) [of 365 s 3] qs(2) by (simp add: yd(2) y)
  have db': "doy \<le> 365"
  proof (cases "3 < s div 365")
    case True
    then show ?thesis using qs(3) by (simp add: yd(2) y)
  next
    case False
    then show ?thesis using min_div_bounds(2) [of 365 s 3] qs(2) by (simp add: yd(2) y)
  qed
  show "0 \<le> yoe" "yoe < 400" using yd(1) cb qb yb by linarith+
  show "0 \<le> doy" "doy \<le> 365" by (rule db) (rule db')
  have "yoe div 4 = 25 * c + q" using yd(1) yb by linarith
  moreover have "yoe div 100 = c" using yd(1) qb yb by linarith
  ultimately show "365 * yoe + yoe div 4 - yoe div 100 + doy = doe" using yd qs(1) r by linarith
qed

lemma days_of_civil_of_days: "civil_of_days days = (y, m, d) \<Longrightarrow> days_of_civil y m d = days"
proof -
  assume civ: "civil_of_days days = (y, m, d)"
  let ?z = "days + 719468" let ?era = "?z div 146097" let ?doe = "?z mod 146097"
  obtain yoe doy where se: "split_era ?doe = (yoe, doy)" by fastforce
  have b: "0 \<le> yoe" "yoe < 400" "0 \<le> doy" "doy \<le> 365" "365 * yoe + yoe div 4 - yoe div 100 + doy = ?doe"
    using split_era_bounds [OF _ _ se] by simp_all
  let ?mp = "(5 * doy + 2) div 153"
  have mp: "0 \<le> ?mp" "?mp \<le> 11" using b(3,4) by linarith+
  have m: "m = (if ?mp < 10 then ?mp + 3 else ?mp - 9)" and d: "d = doy - (153 * ?mp + 2) div 5 + 1"
    and y: "y = yoe + ?era * 400 + (if m \<le> 2 then 1 else 0)"
    using civ by (auto simp: civil_of_days_def se Let_def)
  have y': "(if m \<le> 2 then y - 1 else y) = yoe + ?era * 400" using y by simp
  have mp': "(if 2 < m then m - 3 else m + 9) = ?mp" using m mp by auto
  have "(yoe + ?era * 400) div 400 = ?era" "(yoe + ?era * 400) mod 400 = yoe" using b(1,2) by simp_all
  then have "days_of_civil y m d = ?era * 146097 + (365 * yoe + yoe div 4 - yoe div 100 + doy) - 719468"
    unfolding days_of_civil_def Let_def y' mp' by (simp add: d)
  also have "\<dots> = days" unfolding b(5) by simp
  finally show ?thesis .
qed

subsection \<open>Cursors\<close>

text \<open>
  \<open>datetime.fromisoformat\<close> on what \<open>isoformat\<close> writes for a UTC timestamp: the fields are read
  where they stand, and the string must be the rendering of the timestamp they make. The further
  formats that \<open>fromisoformat\<close> knows are outside, see the cursor.
\<close>

definition fromisoformat_utc :: "string \<Rightarrow> timestamp option" where
  "fromisoformat_utc s =
     (let num = (\<lambda>i k. int (decimal_value (take k (drop i s))));
          seconds = days_of_civil (num 0 4) (num 5 2) (num 8 2) * 86400 + num 11 2 * 3600 + num 14 2 * 60 + num 17 2;
          t = seconds * 1000000 + (if length s = 32 then num 20 6 else 0)
      in if isoformat t = s then Some t else None)"

definition encode_cursor :: "timestamp \<Rightarrow> uuid \<Rightarrow> string" where
  "encode_cursor created_at row_id =
     urlsafe_b64encode (encode (isoformat created_at @ ''|'' @ uuid_str row_id))"

text \<open>The text of a cursor this API issues, and what it stands for.\<close>

definition split_cursor :: "string \<Rightarrow> (timestamp \<times> uuid) option" where
  "split_cursor raw =
     (case dropWhile (\<lambda>c. c \<noteq> CHR ''|'') raw of
        [] \<Rightarrow> None
      | _ # id_raw \<Rightarrow>
          (case (fromisoformat_utc (takeWhile (\<lambda>c. c \<noteq> CHR ''|'') raw), uuid_parse id_raw) of
             (Some created_at, Some row_id) \<Rightarrow> Some (created_at, row_id)
           | _ \<Rightarrow> None))"

text \<open>
  \<open>foreign\<close> is what the remaining formats of \<open>fromisoformat\<close> and non-ASCII digits make of a token
  that this API did not issue: some key, or an error.
\<close>

definition decode_cursor :: "(byte list \<Rightarrow> (timestamp \<times> uuid) option) \<Rightarrow> string \<Rightarrow> error + timestamp \<times> uuid" where
  "decode_cursor foreign token =
     (case urlsafe_b64decode token of
        None \<Rightarrow> Inl (CursorDecodeError token)
      | Some raw \<Rightarrow>
          (case split_cursor (map (\<lambda>b. char_of (unat b)) raw) of
             Some k \<Rightarrow> Inr k
           | None \<Rightarrow> (case foreign raw of Some k \<Rightarrow> Inr k | None \<Rightarrow> Inl (CursorDecodeError token))))"

text \<open>The timestamps a \<open>datetime\<close> can hold: years 1 to 9999.\<close>

definition is_datetime :: "timestamp \<Rightarrow> bool" where
  "is_datetime t \<longleftrightarrow> - 62135596800000000 \<le> t \<and> t < 253402300800000000"

lemma decimal_value_zeros [simp]: "decimal_value (replicate k (CHR ''0'') @ s) = decimal_value s"
  by (induction k) (simp_all add: decimal_value_def)

lemma decimal_value_pad [simp]: "decimal_value (pad_decimal w n) = n"
  by (simp add: pad_decimal_def Let_def)

lemma length_decimal_nat: "n < 10 ^ w \<Longrightarrow> 0 < w \<Longrightarrow> length (decimal_nat n) \<le> w"
proof (induction n arbitrary: w rule: decimal_nat.induct)
  case (1 n)
  show ?case
  proof (cases "n < 10")
    case False
    then obtain v where w: "w = Suc v" "0 < v" using "1.prems" by (cases w; cases "w - 1") auto
    have "n div 10 < 10 ^ v" using "1.prems"(1) w by (simp add: less_mult_imp_div_less)
    then show ?thesis using "1.IH" [OF False _ w(2)] w False by (simp add: decimal_nat.simps [of n])
  qed (use "1.prems" in \<open>simp add: decimal_nat.simps [of n]\<close>)
qed

lemma length_pad: "n < 10 ^ w \<Longrightarrow> 0 < w \<Longrightarrow> length (pad_decimal w n) = w"
  using length_decimal_nat [of n w] by (simp add: pad_decimal_def Let_def)

lemma pad_digits: "c \<in> set (pad_decimal w n) \<Longrightarrow> is_digit c"
  by (auto simp: pad_decimal_def Let_def is_digit_def dest: decimal_nat_digits)

lemma civil_bounds:
  assumes "is_datetime t" "civil_of_days (t div 86400000000) = (y, m, d)"
  shows "0 \<le> y" "y < 10000" "1 \<le> m" "m \<le> 12" "1 \<le> d" "d \<le> 31"
proof -
  let ?z = "t div 86400000000 + 719468"
  have "- 62135596800000000 div 86400000000 \<le> t div 86400000000"
    using assms(1) by (intro zdiv_mono1) (simp_all add: is_datetime_def)
  moreover have "t div 86400000000 \<le> 253402300799999999 div 86400000000"
    using assms(1) by (intro zdiv_mono1) (simp_all add: is_datetime_def)
  ultimately have z: "306 \<le> ?z" "?z \<le> 3652364" by simp_all
  obtain era doe where ed: "era = ?z div 146097" "doe = ?z mod 146097" by blast
  have zz: "?z = 146097 * era + doe" "0 \<le> doe" "doe < 146097" unfolding ed by simp_all
  have era: "0 \<le> era" "era \<le> 24" using z zz by linarith+
  obtain yoe doy where se: "split_era doe = (yoe, doy)" by fastforce
  note b = split_era_bounds [OF zz(2,3) se]
  obtain mp where mp: "mp = (5 * doy + 2) div 153" by blast
  have mpb: "0 \<le> mp" "mp \<le> 11" using b(3,4) unfolding mp by linarith+
  have m: "m = (if mp < 10 then mp + 3 else mp - 9)" and d: "d = doy - (153 * mp + 2) div 5 + 1"
    and y: "y = yoe + era * 400 + (if m \<le> 2 then 1 else 0)"
    using assms(2) unfolding civil_of_days_def Let_def ed(1,2) [symmetric] se by (auto simp: mp)
  show "1 \<le> m" "m \<le> 12" using m mpb by (auto split: if_splits)
  show "0 \<le> y" using y era b(1) by (auto split: if_splits)
  have doy: "153 * mp \<le> 5 * doy + 2" "5 * doy + 2 < 153 * mp + 153" unfolding mp by linarith+
  show "1 \<le> d" "d \<le> 31" using doy unfolding d by linarith+
  show "y < 10000"
  proof (rule ccontr)
    assume "\<not> y < 10000"
    then have "era = 24" "yoe = 399" "m \<le> 2" using y era b(2) by (auto split: if_splits)
    moreover have "10 \<le> mp" using m \<open>m \<le> 2\<close> mpb by (auto split: if_splits)
    ultimately show False using doy b(5) zz(1) z(2) by simp
  qed
qed

lemma fromisoformat_isoformat:
  assumes "is_datetime t"
  shows "fromisoformat_utc (isoformat t) = Some t"
proof -
  obtain y m d where civ: "civil_of_days (t div 86400000000) = (y, m, d)" using prod_cases3 by blast
  note b = civil_bounds [OF assms civ]
  obtain us where us: "us = t mod 86400000000" by blast
  obtain s f where sf: "s = us div 1000000" "f = us mod 1000000" by blast
  have usb: "0 \<le> us" "us < 86400000000" "t = t div 86400000000 * 86400000000 + us" unfolding us by simp_all
  have sb: "0 \<le> s" "s < 86400" "0 \<le> f" "f < 1000000" "us = s * 1000000 + f" using usb unfolding sf by (simp, linarith, simp_all)
  have hours: "s div 60 div 60 = s div 3600" using zdiv_zmult2_eq [of 60 s 60] by simp
  have parts: "0 \<le> s div 3600" "s div 3600 < 24" "0 \<le> s div 60 mod 60" "s div 60 mod 60 < 60" "0 \<le> s mod 60" "s mod 60 < 60"
    using sb by (simp_all add: pos_imp_zdiv_nonneg_iff)
  have whole: "s = s div 3600 * 3600 + s div 60 mod 60 * 60 + s mod 60"
    using div_mult_mod_eq [of s 60] div_mult_mod_eq [of "s div 60" 60] unfolding hours by linarith
  have len: "length (pad_decimal 4 (nat y)) = 4" "length (pad_decimal 2 (nat m)) = 2" "length (pad_decimal 2 (nat d)) = 2"
    "length (pad_decimal 2 (nat (s div 3600))) = 2" "length (pad_decimal 2 (nat (s div 60 mod 60))) = 2"
    "length (pad_decimal 2 (nat (s mod 60))) = 2" "length (pad_decimal 6 (nat f)) = 6"
    using b parts sb by (auto intro!: length_pad simp: nat_less_iff)
  let ?s = "isoformat t"
  have iso: "?s = pad_decimal 4 (nat y) @ ''-'' @ pad_decimal 2 (nat m) @ ''-'' @ pad_decimal 2 (nat d) @ ''T'' @
         pad_decimal 2 (nat (s div 3600)) @ '':'' @ pad_decimal 2 (nat (s div 60 mod 60)) @ '':'' @
         pad_decimal 2 (nat (s mod 60)) @ (if f = 0 then [] else ''.'' @ pad_decimal 6 (nat f)) @ ''+00:00''"
    unfolding isoformat_def civ Let_def us [symmetric] sf [symmetric] by simp
  have fields: "take 4 (drop 0 ?s) = pad_decimal 4 (nat y)" "take 2 (drop 5 ?s) = pad_decimal 2 (nat m)"
    "take 2 (drop 8 ?s) = pad_decimal 2 (nat d)" "take 2 (drop 11 ?s) = pad_decimal 2 (nat (s div 3600))"
    "take 2 (drop 14 ?s) = pad_decimal 2 (nat (s div 60 mod 60))" "take 2 (drop 17 ?s) = pad_decimal 2 (nat (s mod 60))"
    "f \<noteq> 0 \<Longrightarrow> take 6 (drop 20 ?s) = pad_decimal 6 (nat f)" "length ?s = (if f = 0 then 25 else 32)"
    unfolding iso by (simp_all add: len)
  have frac: "(if length ?s = 32 then int (decimal_value (take 6 (drop 20 ?s))) else 0) = f"
    using fields(7,8) sb(3) by simp
  have "days_of_civil y m d * 86400 + s div 3600 * 3600 + s div 60 mod 60 * 60 + s mod 60 = t div 86400000000 * 86400 + s"
    using whole days_of_civil_of_days [OF civ] by linarith
  moreover have "(q * 86400 + s) * 1000000 + f = t" if "t = q * 86400000000 + us" for q
    using that sb(5) by (simp add: algebra_simps)
  from this [OF usb(3)] have "(t div 86400000000 * 86400 + s) * 1000000 + f = t" .
  ultimately have "((days_of_civil y m d * 86400 + s div 3600 * 3600 + s div 60 mod 60 * 60 + s mod 60) * 1000000 + f) = t" by simp
  moreover have vals: "int (decimal_value (take 4 (drop 0 ?s))) = y" "int (decimal_value (take 2 (drop 5 ?s))) = m"
    "int (decimal_value (take 2 (drop 8 ?s))) = d" "int (decimal_value (take 2 (drop 11 ?s))) = s div 3600"
    "int (decimal_value (take 2 (drop 14 ?s))) = s div 60 mod 60" "int (decimal_value (take 2 (drop 17 ?s))) = s mod 60"
    using b parts by (simp_all only: fields(1-6) decimal_value_pad) simp_all
  ultimately show ?thesis
    unfolding fromisoformat_utc_def Let_def vals frac by (simp only: if_True simp_thms)
qed

lemma isoformat_ascii: "c \<in> set (isoformat t) \<Longrightarrow> of_char c < (128::nat) \<and> c \<noteq> CHR ''|''"
  by (auto simp: isoformat_def Let_def is_digit_def dest!: pad_digits split: prod.splits if_splits)

lemma uuid_str_ascii: "c \<in> set (uuid_str u) \<Longrightarrow> of_char c < (128::nat)"
  using uuid_str_chars [of c u] by auto

lemma decode_encode_ascii:
  "\<forall>c \<in> set s. of_char c < (128::nat) \<Longrightarrow> map (\<lambda>b. char_of (unat b)) (encode s) = s"
proof (induction s)
  case (Cons c s)
  have "unat (of_nat (of_char c) :: byte) = of_char c"
    using Cons.prems by (simp add: unat_of_nat)
  with Cons show ?case by (simp add: encode_def encode_char_def Let_def)
qed (simp add: encode_def)

lemma decode_encode_cursor:
  assumes "is_datetime t"
  shows "decode_cursor foreign (encode_cursor t u) = Inr (t, u)"
proof -
  let ?raw = "isoformat t @ ''|'' @ uuid_str u"
  have "\<forall>c \<in> set ?raw. of_char c < (128::nat)" using isoformat_ascii uuid_str_ascii by auto
  from decode_encode_ascii [OF this] have raw: "map (\<lambda>b. char_of (unat b)) (encode ?raw) = ?raw" .
  have "takeWhile (\<lambda>c. c \<noteq> CHR ''|'') ?raw = isoformat t" "dropWhile (\<lambda>c. c \<noteq> CHR ''|'') ?raw = CHR ''|'' # uuid_str u"
    using isoformat_ascii [of _ t] by (auto simp: takeWhile_append2 dropWhile_append2)
  then have "split_cursor ?raw = Some (t, u)"
    by (simp add: split_cursor_def fromisoformat_isoformat [OF assms] uuid_parse_str)
  then show ?thesis by (simp add: decode_cursor_def encode_cursor_def urlsafe_b64_roundtrip raw [simplified])
qed

subsection \<open>Pages\<close>

record 'r page =
  pg_items :: "'r list"
  pg_next_cursor :: "string option"
  pg_has_more :: bool

type_synonym row_key = "timestamp \<times> uuid"

text \<open>The query both listings share, with the rows their \<open>where\<close> clause selects.\<close>

definition keyset_page ::
  "(string \<Rightarrow> error + row_key) \<Rightarrow> ('r \<Rightarrow> row_key) \<Rightarrow> string option \<Rightarrow> nat \<Rightarrow> 'r list \<Rightarrow> error + 'r page" where
  "keyset_page decode key cursor limit rows =
     res_bind (case cursor of
                 None \<Rightarrow> Inr rows
               | Some c \<Rightarrow> res_bind (decode c) (\<lambda>k. Inr (filter (\<lambda>r. k < key r) rows))) (\<lambda>selected.
     let found = take (limit + 1) (sort_key key selected);
         has_more = limit < length found;
         page_rows = take limit found
     in Inr \<lparr>pg_items = page_rows,
             pg_next_cursor = (if has_more \<and> page_rows \<noteq> []
                               then Some (encode_cursor (fst (key (last page_rows))) (snd (key (last page_rows))))
                               else None),
             pg_has_more = has_more\<rparr>)"

definition DEFAULT_PAGE_LIMIT :: nat where "DEFAULT_PAGE_LIMIT = 50"

definition endpoint_key :: "endpoint \<Rightarrow> row_key" where
  "endpoint_key ep = (ep_created_at ep, ep_id ep)"

definition endpoints_list ::
  "(byte list \<Rightarrow> row_key option) \<Rightarrow> uuid \<Rightarrow> string option \<Rightarrow> nat \<Rightarrow> db \<Rightarrow> error + endpoint page" where
  "endpoints_list foreign tenant_id cursor limit s =
     keyset_page (decode_cursor foreign) endpoint_key cursor limit
       (filter (\<lambda>ep. ep_tenant_id ep = tenant_id) (db_endpoints s))"

definition delivery_key :: "delivery \<Rightarrow> row_key" where
  "delivery_key d = (d_created_at d, d_id d)"

definition deliveries_list_dead ::
  "(byte list \<Rightarrow> row_key option) \<Rightarrow> uuid \<Rightarrow> string option \<Rightarrow> nat \<Rightarrow> db \<Rightarrow> error + delivery page" where
  "deliveries_list_dead foreign tenant_id cursor limit s =
     keyset_page (decode_cursor foreign) delivery_key cursor limit
       (filter (\<lambda>d. delivery_of_tenant tenant_id s d \<and> d_state d = DEAD) (db_deliveries s))"

subsection \<open>The services\<close>

definition liftR :: "(db \<Rightarrow> error + 'a) \<Rightarrow> 'a tx" where
  "liftR q s = (q (se_pending s), s)"

definition endpoint_list ::
  "(byte list \<Rightarrow> row_key option) \<Rightarrow> uuid \<Rightarrow> string option \<Rightarrow> nat \<Rightarrow> endpoint page service" where
  "endpoint_list foreign tenant_id cursor limit = with_uow (liftR (endpoints_list foreign tenant_id cursor limit))"

record dead_delivery_detail =
  dd_delivery :: delivery
  dd_attempts :: "delivery_attempt list"

fun attach_attempts :: "delivery list \<Rightarrow> dead_delivery_detail list tx" where
  "attach_attempts [] = returnT []"
| "attach_attempts (d # ds) =
     bindT (readT (delivery_attempts_list_for_delivery (d_id d))) (\<lambda>xs.
     bindT (attach_attempts ds) (\<lambda>details. returnT (\<lparr>dd_delivery = d, dd_attempts = xs\<rparr> # details)))"

definition dlq_list_dead ::
  "(byte list \<Rightarrow> row_key option) \<Rightarrow> uuid \<Rightarrow> string option \<Rightarrow> nat \<Rightarrow> dead_delivery_detail page service" where
  "dlq_list_dead foreign tenant_id cursor limit =
     with_uow
       (bindT (liftR (deliveries_list_dead foreign tenant_id cursor limit)) (\<lambda>p.
        bindT (attach_attempts (pg_items p)) (\<lambda>details.
        returnT \<lparr>pg_items = details, pg_next_cursor = pg_next_cursor p, pg_has_more = pg_has_more p\<rparr>)))"

subsection \<open>Walking the pages\<close>

text \<open>What a client does: ask again with the cursor of the last page until there is none.\<close>

fun walk :: "(string option \<Rightarrow> error + 'r page) \<Rightarrow> nat \<Rightarrow> string option \<Rightarrow> 'r list option" where
  "walk get 0 cursor = None"
| "walk get (Suc fuel) cursor =
     (case get cursor of
        Inl e \<Rightarrow> None
      | Inr p \<Rightarrow>
          (case pg_next_cursor p of
             None \<Rightarrow> Some (pg_items p)
           | Some c \<Rightarrow> map_option (append (pg_items p)) (walk get fuel (Some c))))"

lemma filter_sort_key: "filter P (sort_key f xs) = sort_key f (filter P xs)"
  by (rule filter_sort)

lemma filter_greater_suffix:
  fixes key :: "'r \<Rightarrow> 'k :: linorder"
  assumes "sorted_wrt (<) (map key (pre @ r # suf))"
  shows "filter (\<lambda>x. key r < key x) (pre @ r # suf) = suf"
proof -
  have "filter (\<lambda>x. key r < key x) pre = []" "filter (\<lambda>x. key r < key x) suf = suf"
    using assms by (auto simp: sorted_wrt_append filter_empty_conv filter_id_conv)
  then show ?thesis by simp
qed

text \<open>What paging asks of a cursor: it stands for the key it was made from.\<close>

locale cursor_codec =
  fixes decode :: "string \<Rightarrow> error + row_key"
    and valid :: "row_key \<Rightarrow> bool"
  assumes decode_encode: "valid (t, u) \<Longrightarrow> decode (encode_cursor t u) = Inr (t, u)"
begin

lemma page_of_suffix:
  assumes "sorted_wrt (<) (map key (pre @ suf))" "sort_key key rows = pre @ suf"
    and "\<forall>r \<in> set rows. valid (key r)"
    and "cursor = (if pre = [] then None else Some (encode_cursor (fst (key (last pre))) (snd (key (last pre)))))"
  shows "keyset_page decode key cursor limit rows =
    Inr \<lparr>pg_items = take limit suf,
         pg_next_cursor = (if limit < length suf \<and> 0 < limit
           then Some (encode_cursor (fst (key (last (take limit suf)))) (snd (key (last (take limit suf))))) else None),
         pg_has_more = (limit < length suf)\<rparr>"
proof -
  have sel: "(case cursor of None \<Rightarrow> Inr rows
      | Some c \<Rightarrow> res_bind (decode c) (\<lambda>k. Inr (filter (\<lambda>r. k < key r) rows))) = Inr selected \<and>
      sort_key key selected = suf"
    if "selected = (if pre = [] then rows else filter (\<lambda>r. key (last pre) < key r) rows)" for selected
  proof (cases "pre = []")
    case True
    then show ?thesis using assms(2,4) that by simp
  next
    case False
    let ?l = "last pre"
    have "?l \<in> set (sort_key key rows)" unfolding assms(2) using False by simp
    then have "valid (fst (key ?l), snd (key ?l))" using assms(3) by simp
    from decode_encode [OF this] have dec: "decode (encode_cursor (fst (key ?l)) (snd (key ?l))) = Inr (key ?l)" by simp
    have split: "pre @ suf = butlast pre @ ?l # suf" using False by simp
    have "filter (\<lambda>r. key ?l < key r) (pre @ suf) = suf"
      unfolding split by (rule filter_greater_suffix [OF assms(1) [unfolded split]])
    then have "sort_key key (filter (\<lambda>r. key ?l < key r) rows) = suf"
      unfolding filter_sort_key [symmetric] assms(2) .
    then show ?thesis using False that assms(4) dec by (simp add: res_bind_def)
  qed
  obtain selected where q: "(case cursor of None \<Rightarrow> Inr rows
      | Some c \<Rightarrow> res_bind (decode c) (\<lambda>k. Inr (filter (\<lambda>r. k < key r) rows))) = Inr selected"
      "sort_key key selected = suf"
    using sel by blast
  have "take limit (take (limit + 1) suf) = take limit suf" by (simp add: min_def)
  moreover have "limit < length (take (limit + 1) suf) \<longleftrightarrow> limit < length suf" by auto
  moreover have "limit < length suf \<Longrightarrow> take limit suf \<noteq> [] \<longleftrightarrow> 0 < limit" by auto
  ultimately show ?thesis
    unfolding keyset_page_def q(1) res_bind_simps Let_def q(2) by auto
qed

lemma walk_suffix:
  assumes "sorted_wrt (<) (map key (pre @ suf))" "sort_key key rows = pre @ suf"
    and "\<forall>r \<in> set rows. valid (key r)" "0 < limit" "length suf < fuel"
    and "cursor = (if pre = [] then None else Some (encode_cursor (fst (key (last pre))) (snd (key (last pre)))))"
  shows "walk (\<lambda>c. keyset_page decode key c limit rows) fuel cursor = Some suf"
  using assms(1,2,5,6)
proof (induction fuel arbitrary: pre suf cursor)
  case (Suc fuel)
  note page = page_of_suffix [OF Suc.prems(1,2) assms(3) Suc.prems(4), of limit]
  show ?case
  proof (cases "limit < length suf")
    case False
    then show ?thesis by (simp add: page)
  next
    case True
    let ?page = "take limit suf" let ?rest = "drop limit suf"
    have "?page \<noteq> []" using True assms(4) by auto
    then have parts: "pre @ suf = (pre @ ?page) @ ?rest" "pre @ ?page \<noteq> []" "last (pre @ ?page) = last ?page"
      by simp_all
    have "length ?rest < fuel" using Suc.prems(3) assms(4) True by simp
    from Suc.IH [OF Suc.prems(1) [unfolded parts(1)] Suc.prems(2) [unfolded parts(1)] this refl]
    moreover have "suf \<noteq> []" using True by auto
    ultimately show ?thesis using True assms(4) parts(2,3) by (simp add: page)
  qed
qed simp

text \<open>So a walk from the start yields every selected row once, in key order.\<close>

lemma walk_all:
  assumes "distinct (map key rows)" "\<forall>r \<in> set rows. valid (key r)" "0 < limit" "length rows < fuel"
  shows "walk (\<lambda>c. keyset_page decode key c limit rows) fuel None = Some (sort_key key rows)"
proof -
  have "distinct (map key (sort_key key rows))"
    using assms(1) by (simp add: distinct_map)
  then have "sorted_wrt (<) (map key ([] @ sort_key key rows))"
    by (simp add: strict_sorted_iff)
  from walk_suffix [OF this _ assms(2,3)] show ?thesis using assms(4) by simp
qed

end

interpretation cursors: cursor_codec "decode_cursor foreign" "\<lambda>(t, u). is_datetime t" for foreign
  by unfold_locales (simp add: decode_encode_cursor)

subsection \<open>Properties\<close>

text \<open>
  A cursor is opaque but exact: the one issued for a row decodes to that row's creation time, to
  the microsecond, and identifier, for every time a \<open>datetime\<close> can hold.
\<close>

theorem cursor_roundtrip:
  assumes "- 62135596800000000 \<le> t" and "t < 253402300800000000"
  shows "decode_cursor foreign (encode_cursor t u) = Inr (t, u)"
  using assms by (intro decode_encode_cursor) (simp add: is_datetime_def)

theorem cursor_roundtrip_witness: "decode_cursor (\<lambda>_. None) (encode_cursor 1700000000123456 7) = Inr (1700000000123456, 7)"
  by (rule cursor_roundtrip) simp_all

lemma endpoint_list_run: "endpoint_list foreign t c n st = (endpoints_list foreign t c n (st_db st), st)"
  by (simp add: endpoint_list_def liftR_def with_uow_def tx_simps)

text \<open>
  C26. Paging is complete and without repeats: following the cursors of the endpoint listing from the
  start, with any page size, ends after at most one page per endpoint and yields exactly the
  tenant's endpoints, each once, in the order of creation time and identifier, ties included; the
  listing never changes the store.
\<close>

theorem endpoint_pages_are_complete:
  assumes "db_ok (st_db st)" and "\<And>ep. ep \<in> set (db_endpoints (st_db st)) \<Longrightarrow> is_datetime (ep_created_at ep)"
    and "0 < limit"
  shows "walk (\<lambda>c. fst (endpoint_list foreign t c limit st)) (Suc (length (db_endpoints (st_db st)))) None =
      Some (sort_key endpoint_key (filter (\<lambda>ep. ep_tenant_id ep = t) (db_endpoints (st_db st)))) \<and>
    snd (endpoint_list foreign t c limit st) = st"
proof -
  let ?rows = "filter (\<lambda>ep. ep_tenant_id ep = t) (db_endpoints (st_db st))"
  have "distinct (map ep_id ?rows)" using assms(1) by (simp add: db_ok_def distinct_map_filterI)
  then have "distinct (map endpoint_key ?rows)" by (auto simp: distinct_map endpoint_key_def inj_on_def)
  moreover have "\<forall>r \<in> set ?rows. (\<lambda>(t, u). is_datetime t) (endpoint_key r)"
    using assms(2) by (simp add: endpoint_key_def)
  moreover have "length ?rows < Suc (length (db_endpoints (st_db st)))" by (simp add: le_imp_less_Suc)
  ultimately show ?thesis
    unfolding endpoint_list_run fst_conv snd_conv endpoints_list_def
    using cursors.walk_all [of endpoint_key ?rows limit] assms(3) by blast
qed

theorem endpoint_pages_are_complete_witness:
  "walk (\<lambda>c. fst (endpoint_list (\<lambda>_. None) 1 c 1 (store_of two_tenants))) (Suc (length (db_endpoints two_tenants))) None =
     Some (sort_key endpoint_key (filter (\<lambda>ep. ep_tenant_id ep = 1) (db_endpoints two_tenants)))"
proof -
  have "db_ok (st_db (store_of two_tenants))" by (simp add: store_of_def two_tenants_ok)
  from endpoint_pages_are_complete [OF this, of 1 "\<lambda>_. None" 1] show ?thesis
    by (auto simp: store_of_def two_tenants_def is_datetime_def)
qed

lemma attach_attempts_run:
  "attach_attempts ds s = (Inr (map (\<lambda>d. \<lparr>dd_delivery = d,
     dd_attempts = delivery_attempts_list_for_delivery (d_id d) (se_pending s)\<rparr>) ds), s)"
  by (induction ds) (simp_all add: bindT_def readT_def returnT_def)

definition detail :: "db \<Rightarrow> delivery \<Rightarrow> dead_delivery_detail" where
  "detail s d = \<lparr>dd_delivery = d, dd_attempts = delivery_attempts_list_for_delivery (d_id d) s\<rparr>"

lemma dlq_list_dead_run:
  "dlq_list_dead foreign t c n st =
     (case deliveries_list_dead foreign t c n (st_db st) of
        Inl e \<Rightarrow> (Inl e, st)
      | Inr p \<Rightarrow> (Inr \<lparr>pg_items = map (detail (st_db st)) (pg_items p), pg_next_cursor = pg_next_cursor p,
                        pg_has_more = pg_has_more p\<rparr>, st))"
  by (simp add: dlq_list_dead_def bindT_def liftR_def with_uow_def tx_simps attach_attempts_run detail_def [abs_def] split: sum.split)

lemma walk_map:
  assumes "\<And>c. get' c = map_sum id (\<lambda>p. \<lparr>pg_items = map f (pg_items p), pg_next_cursor = pg_next_cursor p,
                                 pg_has_more = pg_has_more p\<rparr>) (get c)"
  shows "walk get' fuel cursor = map_option (map f) (walk get fuel cursor)"
proof (induction fuel arbitrary: cursor)
  case (Suc fuel)
  then show ?case by (auto simp: assms option.map_comp comp_def split: sum.split option.split)
qed simp

text \<open>
  The dead-letter listing is complete and isolated: walking its pages yields exactly the dead
  deliveries of the tenant's own events, each once, in order, every one with its whole attempt
  history.
\<close>

theorem dead_letter_pages_are_complete:
  assumes "db_ok (st_db st)" and "\<And>d. d \<in> set (db_deliveries (st_db st)) \<Longrightarrow> is_datetime (d_created_at d)"
    and "0 < limit"
  shows "walk (\<lambda>c. fst (dlq_list_dead foreign t c limit st)) (Suc (length (db_deliveries (st_db st)))) None =
    Some (map (detail (st_db st)) (sort_key delivery_key
      (filter (\<lambda>d. delivery_of_tenant t (st_db st) d \<and> d_state d = DEAD) (db_deliveries (st_db st)))))"
proof -
  let ?rows = "filter (\<lambda>d. delivery_of_tenant t (st_db st) d \<and> d_state d = DEAD) (db_deliveries (st_db st))"
  have "distinct (map d_id ?rows)" using assms(1) by (simp add: db_ok_def distinct_map_filterI)
  then have "distinct (map delivery_key ?rows)" by (auto simp: distinct_map delivery_key_def inj_on_def)
  moreover have "\<forall>r \<in> set ?rows. (\<lambda>(t, u). is_datetime t) (delivery_key r)"
    using assms(2) by (simp add: delivery_key_def)
  moreover have "length ?rows < Suc (length (db_deliveries (st_db st)))" by (simp add: le_imp_less_Suc)
  ultimately have all: "walk (\<lambda>c. deliveries_list_dead foreign t c limit (st_db st))
      (Suc (length (db_deliveries (st_db st)))) None = Some (sort_key delivery_key ?rows)"
    unfolding deliveries_list_dead_def using cursors.walk_all [of delivery_key ?rows limit] assms(3) by blast
  have get: "fst (dlq_list_dead foreign t c limit st) = map_sum id (\<lambda>p. \<lparr>pg_items = map (detail (st_db st)) (pg_items p),
      pg_next_cursor = pg_next_cursor p, pg_has_more = pg_has_more p\<rparr>) (deliveries_list_dead foreign t c limit (st_db st))" for c
    by (simp add: dlq_list_dead_run split: sum.split)
  show ?thesis unfolding walk_map [OF get] all by simp
qed

definition one_dead :: db where
  "one_dead = two_tenants\<lparr>
     db_events := [\<lparr>ev_id = 7, ev_tenant_id = 1, ev_type = ''order.paid'', ev_payload = JObj [],
       ev_idempotency_key = ''k1'', ev_created_at = 4, ev_correlation_id = None\<rparr>],
     db_deliveries := [\<lparr>d_id = 9, d_event_id = 7, d_endpoint_id = 3, d_state = DEAD, d_attempt_count = 8,
       d_created_at = 5, d_next_retry_at = None\<rparr>]\<rparr>"

theorem dead_letter_pages_are_complete_witness:
  "\<exists>d. walk (\<lambda>c. fst (dlq_list_dead (\<lambda>_. None) 1 c 1 (store_of one_dead))) 2 None = Some [d] \<and> d_id (dd_delivery d) = 9"
proof -
  have "db_ok (st_db (store_of one_dead))"
    by (simp add: store_of_def one_dead_def two_tenants_def empty_db_def db_ok_def)
  moreover have "\<And>d. d \<in> set (db_deliveries (st_db (store_of one_dead))) \<Longrightarrow> is_datetime (d_created_at d)"
    by (simp add: store_of_def one_dead_def is_datetime_def)
  ultimately have all: "walk (\<lambda>c. fst (dlq_list_dead (\<lambda>_. None) 1 c 1 (store_of one_dead)))
      (Suc (length (db_deliveries (st_db (store_of one_dead))))) None =
    Some (map (detail (st_db (store_of one_dead))) (sort_key delivery_key
      (filter (\<lambda>d. delivery_of_tenant 1 (st_db (store_of one_dead)) d \<and> d_state d = DEAD)
        (db_deliveries (st_db (store_of one_dead))))))"
    by (intro dead_letter_pages_are_complete) simp_all
  have two: "Suc (length (db_deliveries (st_db (store_of one_dead)))) = 2"
    by (simp add: store_of_def one_dead_def)
  show ?thesis unfolding all [unfolded two] by (simp add: store_of_def one_dead_def delivery_of_tenant_def detail_def)
qed

end
