(* ===== verification/Auth.thy ===== *)
theory Auth
  imports Services
begin

section \<open>Authentication\<close>

text \<open>
  \<open>relay/api/auth.py\<close>: the key is split, looked up by its prefix, verified against each candidate's
  hash in turn, checked for revocation and expiry, and its tenant loaded. Every refusal is the
  same \<open>HTTPException\<close>. \<open>now\<close> is \<open>datetime.now(UTC)\<close>.
\<close>

record auth_context =
  ac_tenant :: tenant
  ac_api_key :: api_key

definition INVALID_KEY_DETAIL :: string where "INVALID_KEY_DETAIL = ''missing or invalid API key''"

definition unauthorized :: error where "unauthorized = HTTPException 401 INVALID_KEY_DETAIL"

text \<open>\<open>next((k for k in candidates if verify_secret(secret, k.key_hash)), None)\<close>\<close>

fun first_match :: "string \<Rightarrow> api_key list \<Rightarrow> error + api_key option" where
  "first_match secret [] = Inr None"
| "first_match secret (k # ks) =
     res_bind (verify_secret secret (k_key_hash k)) (\<lambda>ok. if ok then Inr (Some k) else first_match secret ks)"

definition match_key :: "timestamp \<Rightarrow> string \<Rightarrow> string \<Rightarrow> (api_key \<times> tenant option) tx" where
  "match_key now key_prefix secret =
     bindT (readT (api_keys_get_by_prefix key_prefix)) (\<lambda>candidates.
     bindT (\<lambda>s. (first_match secret candidates, s)) (\<lambda>matched.
     case matched of
       None \<Rightarrow> raiseT unauthorized
     | Some k \<Rightarrow>
         if is_revoked k \<or> is_expired k now then raiseT unauthorized
         else bindT (readT (tenants_get (k_tenant_id k))) (\<lambda>t. returnT (k, t))))"

definition authenticate :: "timestamp \<Rightarrow> string option \<Rightarrow> auth_context service" where
  "authenticate now presented_key st =
     (case presented_key of
        None \<Rightarrow> (Inl unauthorized, st)
      | Some presented \<Rightarrow>
          if presented = [] then (Inl unauthorized, st)
          else (case split_api_key presented of
            None \<Rightarrow> (Inl unauthorized, st)
          | Some (key_prefix, secret) \<Rightarrow>
              (case with_uow (match_key now key_prefix secret) st of
                 (Inl e, st') \<Rightarrow> (Inl e, st')
               | (Inr (k, tenant), st') \<Rightarrow>
                   (case tenant of
                      None \<Rightarrow> (Inl unauthorized, st')
                    | Some t \<Rightarrow>
                        if is_deleted t then (Inl unauthorized, st')
                        else (Inr \<lparr>ac_tenant = t, ac_api_key = k\<rparr>, st')))))"

definition require_scope :: "string \<Rightarrow> timestamp \<Rightarrow> string option \<Rightarrow> auth_context service" where
  "require_scope scope now presented_key st =
     (case authenticate now presented_key st of
        (Inl e, st') \<Rightarrow> (Inl e, st')
      | (Inr context, st') \<Rightarrow>
          if has_scope (ac_api_key context) scope then (Inr context, st')
          else (Inl (HTTPException 403 ''insufficient scope''), st'))"

text \<open>The variant of the event stream: the header, or else the query parameter.\<close>

definition require_scope_allow_query_key ::
  "string \<Rightarrow> timestamp \<Rightarrow> string option \<Rightarrow> string option \<Rightarrow> auth_context service" where
  "require_scope_allow_query_key scope now header query =
     require_scope scope now (case header of Some h \<Rightarrow> if h = [] then query else Some h | None \<Rightarrow> query)"

subsection \<open>What it comes to\<close>

text \<open>Hashes as \<open>generate_api_key\<close> writes them, which verification cannot raise on.\<close>

definition keys_hashed :: "db \<Rightarrow> bool" where
  "keys_hashed s \<longleftrightarrow> (\<forall>k \<in> set (db_api_keys s). \<exists>salt secret. k_key_hash k = hash_secret salt secret)"

definition opens :: "string \<Rightarrow> api_key \<Rightarrow> bool" where
  "opens secret k \<longleftrightarrow> verify_secret secret (k_key_hash k) = Inr True"

lemma first_match_find:
  "(\<And>k. k \<in> set ks \<Longrightarrow> \<exists>salt s. k_key_hash k = hash_secret salt s) \<Longrightarrow>
   first_match secret ks = Inr (List.find (opens secret) ks)"
proof (induction ks)
  case (Cons k ks)
  obtain salt s where "k_key_hash k = hash_secret salt s" using Cons.prems by (metis list.set_intros(1))
  then have "verify_secret secret (k_key_hash k) = Inr (opens secret k)"
    by (simp add: opens_def verify_hash_secret)
  with Cons show ?case by simp
qed simp

definition presented_for :: "string option \<Rightarrow> db \<Rightarrow> api_key option" where
  "presented_for presented s =
     (case presented of None \<Rightarrow> None | Some p \<Rightarrow>
        case split_api_key p of None \<Rightarrow> None
        | Some (key_prefix, secret) \<Rightarrow> List.find (opens secret) (api_keys_get_by_prefix key_prefix s))"

definition usable :: "timestamp \<Rightarrow> db \<Rightarrow> api_key \<Rightarrow> bool" where
  "usable now s k \<longleftrightarrow> \<not> is_revoked k \<and> \<not> is_expired k now \<and>
     (\<exists>t. tenants_get (k_tenant_id k) s = Some t \<and> \<not> is_deleted t)"

lemma split_api_key_Nil [simp]: "split_api_key [] = None"
  by (simp add: split_api_key_def)

lemma authenticate_run:
  assumes "keys_hashed (st_db st)"
  shows "authenticate now presented st =
    (case presented_for presented (st_db st) of
       None \<Rightarrow> (Inl unauthorized, st)
     | Some k \<Rightarrow>
         if usable now (st_db st) k
         then (Inr \<lparr>ac_tenant = the (tenants_get (k_tenant_id k) (st_db st)), ac_api_key = k\<rparr>, st)
         else (Inl unauthorized, st))"
proof -
  have match: "first_match secret (api_keys_get_by_prefix p (st_db st)) =
      Inr (List.find (opens secret) (api_keys_get_by_prefix p (st_db st)))" for secret p
    using assms by (intro first_match_find) (auto simp: keys_hashed_def api_keys_get_by_prefix_def)
  have run: "with_uow (match_key now p secret) st =
      (case List.find (opens secret) (api_keys_get_by_prefix p (st_db st)) of
         None \<Rightarrow> (Inl unauthorized, st)
       | Some k \<Rightarrow> if is_revoked k \<or> is_expired k now then (Inl unauthorized, st)
                   else (Inr (k, tenants_get (k_tenant_id k) (st_db st)), st))" for p secret
    by (simp add: match_key_def with_uow_def tx_simps bindT_def match split: option.split)
  show ?thesis
  proof (cases presented)
    case (Some q)
    then show ?thesis
      by (auto simp: authenticate_def presented_for_def run usable_def split: option.splits)
  qed (simp add: authenticate_def presented_for_def)
qed

subsection \<open>Properties\<close>


text \<open>The demo key of the services, with a hash, for the tenant that has it.\<close>

definition demo_keys :: db where
  "demo_keys = two_tenants\<lparr>db_api_keys := [new_key demo_draw 1 [''dlq:read''] None]\<rparr>"

lemma demo_keys_hashed: "keys_hashed (st_db (store_of demo_keys))"
  by (auto simp: keys_hashed_def store_of_def demo_keys_def new_key_def)


lemma api_key_revoke_run:
  "api_key_revoke now i t st =
     (case owned_key i t (st_db st) of
        None \<Rightarrow> (Inl (NotFoundError i), st)
      | Some k \<Rightarrow> (Inr (revoke_row now k), st\<lparr>st_db := (st_db st)\<lparr>db_api_keys :=
            update_by k_id i (revoke_row now) (db_api_keys (st_db st))\<rparr>\<rparr>))"
  unfolding api_key_revoke_def with_uow_owned_repo_commit [where f = "\<lambda>x. x"]
  by (auto simp: api_keys_revoke_eq owned_key_def split: option.split)

text \<open>What a request with a newly issued key comes to, before and after its expiry.\<close>

lemma issued_key_auth:
  assumes "keys_hashed (st_db st)" and "tenants_get t (st_db st) = Some tn" and "\<not> is_deleted tn"
    and "token_urlsafe (kd_prefix_bytes draw) \<notin> k_key_prefix ` set (db_api_keys (st_db st))"
    and "kd_prefix_bytes draw \<noteq> []" and "kd_secret_bytes draw \<noteq> []"
    and "api_key_issue draw t scopes ex st = (Inr (k, key), st')"
  shows "require_scope scope now (Some key) st' =
    (if (case ex of None \<Rightarrow> False | Some e \<Rightarrow> e \<le> now) then Inl unauthorized
     else if WILDCARD_SCOPE \<in> set scopes \<or> scope \<in> set scopes then Inr \<lparr>ac_tenant = tn, ac_api_key = k\<rparr>
     else Inl (HTTPException 403 ''insufficient scope''), st')"
    and "split_api_key key = Some (token_urlsafe (kd_prefix_bytes draw), token_urlsafe (kd_secret_bytes draw))"
    and "filter (\<lambda>x. k_key_prefix x = token_urlsafe (kd_prefix_bytes draw)) (db_api_keys (st_db st)) = []"
proof -
  let ?secret = "token_urlsafe (kd_secret_bytes draw)" let ?p = "token_urlsafe (kd_prefix_bytes draw)"
  let ?keys = "db_api_keys (st_db st)"
  have run: "k = new_key draw t scopes ex" "key = plaintext draw"
    "st' = st\<lparr>st_db := (st_db st)\<lparr>db_api_keys := ?keys @ [k]\<rparr>\<rparr>"
    using assms(7) by (auto simp: api_key_issue_run split: if_splits)
  have sel: "k_tenant_id k = t" "k_key_prefix k = ?p" "k_scopes k = scopes" "k_expires_at k = ex"
    "k_revoked_at k = None" "k_key_hash k = hash_secret (kd_salt draw) ?secret"
    by (simp_all add: run(1) new_key_def)
  show split: "split_api_key key = Some (?p, ?secret)"
    using assms(5,6) by (simp add: run(2) plaintext_def split_api_key_Some_iff token_urlsafe_no_dot token_urlsafe_nonempty)
  show only: "filter (\<lambda>x. k_key_prefix x = ?p) ?keys = []"
    using assms(4) by (force simp: filter_empty_conv)
  have t': "tenants_get t (st_db st\<lparr>db_api_keys := ks\<rparr>) = Some tn" for ks
    using assms(2) by (simp add: tenants_get_def)
  have "keys_hashed (st_db st')" using assms(1) sel(6) by (auto simp: keys_hashed_def run(3))
  note auth = authenticate_run [OF this]
  have mine: "presented_for (Some key) (st_db st') = Some k"
    by (simp add: presented_for_def split api_keys_get_by_prefix_def run(3) only sel(2) opens_def sel(6) verify_hash_secret)
  have tn: "tenants_get t (st_db st') = Some tn" using t' by (simp add: run(3))
  have usable: "usable now (st_db st') k \<longleftrightarrow> \<not> (case ex of None \<Rightarrow> False | Some e \<Rightarrow> e \<le> now)"
    using assms(3) tn by (auto simp: usable_def is_revoked_def is_expired_def sel split: option.splits)
  show "require_scope scope now (Some key) st' =
    (if (case ex of None \<Rightarrow> False | Some e \<Rightarrow> e \<le> now) then Inl unauthorized
     else if WILDCARD_SCOPE \<in> set scopes \<or> scope \<in> set scopes then Inr \<lparr>ac_tenant = tn, ac_api_key = k\<rparr>
     else Inl (HTTPException 403 ''insufficient scope''), st')"
    using tn by (simp add: require_scope_def auth mine usable has_scope_def sel)
qed

text \<open>
  C22. An issued key works, and a revoked one does not: the plaintext returned by an issue, and
  nothing else stored, authenticates as the new key and its tenant for every scope it was given
  until it expires; once the key is revoked the same plaintext is refused with the same 401 as a
  wrong one.
\<close>

theorem issued_key_authenticates:
  assumes "keys_hashed (st_db st)" and "tenants_get t (st_db st) = Some tn" and "\<not> is_deleted tn"
    and "kd_id draw \<notin> k_id ` set (db_api_keys (st_db st))"
    and "token_urlsafe (kd_prefix_bytes draw) \<notin> k_key_prefix ` set (db_api_keys (st_db st))"
    and "kd_prefix_bytes draw \<noteq> []" and "kd_secret_bytes draw \<noteq> []"
    and "api_key_issue draw t scopes ex st = (Inr (k, key), st')"
  shows "(\<forall>scope \<in> set scopes. \<forall>now. (case ex of None \<Rightarrow> True | Some e \<Rightarrow> now < e) \<longrightarrow>
      require_scope scope now (Some key) st' = (Inr \<lparr>ac_tenant = tn, ac_api_key = k\<rparr>, st')) \<and>
    (\<exists>st''. api_key_revoke later (k_id k) t st' = (Inr (revoke_row later k), st'') \<and>
      (\<forall>scope now. fst (require_scope scope now (Some key) st'') = Inl (HTTPException 401 ''missing or invalid API key'')))"
proof -
  let ?secret = "token_urlsafe (kd_secret_bytes draw)" let ?p = "token_urlsafe (kd_prefix_bytes draw)"
  let ?keys = "db_api_keys (st_db st)"
  have run: "k = new_key draw t scopes ex" "key = plaintext draw"
    "st' = st\<lparr>st_db := (st_db st)\<lparr>db_api_keys := ?keys @ [k]\<rparr>\<rparr>"
    using assms(8) by (auto simp: api_key_issue_run split: if_splits)
  have sel: "k_id k = kd_id draw" "k_tenant_id k = t" "k_key_prefix k = ?p" "k_scopes k = scopes"
    "k_expires_at k = ex" "k_revoked_at k = None" "k_key_hash k = hash_secret (kd_salt draw) ?secret"
    by (simp_all add: run(1) new_key_def)
  note issued = issued_key_auth [OF assms(1-3,5-8)]
  have "opens ?secret (revoke_row later k)"
    by (simp add: opens_def sel verify_hash_secret revoke_row_def)
  then have opens: "opens ?secret k" "opens ?secret (revoke_row later k)"
    by (simp_all add: opens_def revoke_row_def)
  note split = issued(2) and only = issued(3)
  have works: "require_scope scope now (Some key) st' = (Inr \<lparr>ac_tenant = tn, ac_api_key = k\<rparr>, st')"
    if "scope \<in> set scopes" "case ex of None \<Rightarrow> True | Some e \<Rightarrow> now < e" for scope now
    using that by (simp add: issued(1) split: option.splits)
  have new: "kd_id draw \<notin> k_id ` set ?keys" by (rule assms(4))
  have get: "api_keys_get (k_id k) (st_db st') = Some k"
    using new by (simp add: run(3) api_keys_get_def find_by_append sel(1) find_by_None_iff [THEN iffD2])
  let ?keys' = "update_by k_id (k_id k) (revoke_row later) (?keys @ [k])"
  have upd: "?keys' = ?keys @ [revoke_row later k]"
    using new by (force simp: update_by_def sel(1) intro!: map_idI)
  let ?st = "st'\<lparr>st_db := (st_db st')\<lparr>db_api_keys := ?keys @ [revoke_row later k]\<rparr>\<rparr>"
  have rev: "api_key_revoke later (k_id k) t st' = (Inr (revoke_row later k), ?st)"
    using get upd by (simp add: api_key_revoke_run owned_key_def sel(2) run(3))
  have "keys_hashed (st_db ?st)" using assms(1) sel(7) by (auto simp: keys_hashed_def run(3) revoke_row_def)
  note auth' = authenticate_run [OF this]
  have "presented_for (Some key) (st_db ?st) = Some (revoke_row later k)"
    using opens(2) by (simp add: presented_for_def split api_keys_get_by_prefix_def only sel(3) revoke_row_def)
  moreover have "\<not> usable now (st_db ?st) (revoke_row later k)" for now
    by (simp add: usable_def is_revoked_def revoke_row_def)
  ultimately have refused: "fst (require_scope scope now (Some key) ?st) = Inl (HTTPException 401 ''missing or invalid API key'')"
    for scope now
    unfolding require_scope_def auth' by (simp add: unauthorized_def INVALID_KEY_DETAIL_def)
  show ?thesis using works rev refused by blast
qed

text \<open>A draw with one byte of each part, for the tenant of the services' examples.\<close>

definition issue_draw :: key_draw where
  "issue_draw = \<lparr>kd_id = 7, kd_now = 50, kd_prefix_bytes = [1], kd_secret_bytes = [2], kd_salt = []\<rparr>"

lemma issued_key_authenticates_witness:
  "\<exists>k st'. api_key_issue issue_draw 1 [''dlq:read''] None (store_of demo_keys) = (Inr (k, plaintext issue_draw), st') \<and>
     require_scope ''dlq:read'' 99 (Some (plaintext issue_draw)) st' =
       (Inr \<lparr>ac_tenant = the (tenants_get 1 demo_keys), ac_api_key = k\<rparr>, st')"
proof -
  obtain st' where run: "api_key_issue issue_draw 1 [''dlq:read''] None (store_of demo_keys) =
      (Inr (new_key issue_draw 1 [''dlq:read''] None, plaintext issue_draw), st')"
    by (auto simp: api_key_issue_run store_of_def demo_keys_def two_tenants_def issue_draw_def new_key_def demo_draw_def)
  have tn: "tenants_get 1 (st_db (store_of demo_keys)) = Some (the (tenants_get 1 demo_keys))"
      "\<not> is_deleted (the (tenants_get 1 demo_keys))"
    by (simp_all add: store_of_def demo_keys_def two_tenants_def tenants_get_def is_deleted_def)
  have "token_urlsafe [1] \<noteq> token_urlsafe []"
    using token_urlsafe_nonempty [of "[1]"] by (simp add: token_urlsafe_def urlsafe_b64encode_def)
  then have "kd_id issue_draw \<notin> k_id ` set (db_api_keys (st_db (store_of demo_keys)))"
      "token_urlsafe (kd_prefix_bytes issue_draw) \<notin> k_key_prefix ` set (db_api_keys (st_db (store_of demo_keys)))"
      "kd_prefix_bytes issue_draw \<noteq> []" "kd_secret_bytes issue_draw \<noteq> []"
    by (simp_all add: store_of_def demo_keys_def two_tenants_def issue_draw_def new_key_def demo_draw_def)
  note auth = issued_key_authenticates [OF demo_keys_hashed tn this run]
  then show ?thesis using run by auto
qed

end
