(* ===== verification/Problems.thy ===== *)
theory Problems
  imports RateLimit Url Wire
begin

section \<open>Problem responses and the middleware around every route\<close>

text \<open>
  \<open>relay/api/errors.py\<close>, \<open>relay/api/middleware.py\<close> and the stack that \<open>create_app\<close> in
  \<open>relay/api/app.py\<close> builds: Starlette's catch-all for unhandled exceptions outermost, then the
  body-size check, then the trace id, then the handlers of the known exceptions around the routes.
  A request is what the ASGI scope holds: names of headers in lower case, values as Latin-1 text;
  the \<open>state\<close> of the scope is shared by every layer, so an identifier stored by an inner one is
  seen by an outer one. A response is its status, media type, headers and JSON content.
\<close>

subsection \<open>Requests and responses\<close>

record api_request =
  aq_method :: string
  aq_path :: string
  aq_route :: "string option"
  aq_headers :: "(string \<times> string) list"
  aq_body :: "byte list"
  aq_trace_id :: "string option"

record api_response =
  rs_status :: nat
  rs_media_type :: string
  rs_headers :: "(string \<times> string) list"
  rs_content :: "json option"

text \<open>\<open>request.headers.get(name)\<close>, and an assignment to \<open>response.headers[name]\<close>.\<close>

definition header_get :: "string \<Rightarrow> api_request \<Rightarrow> string option" where
  "header_get name rq = map_option snd (List.find (\<lambda>(k, v). k = name) (aq_headers rq))"

definition header_set :: "string \<Rightarrow> string \<Rightarrow> api_response \<Rightarrow> api_response" where
  "header_set name v r = r\<lparr>rs_headers := filter (\<lambda>(k, x). k \<noteq> name) (rs_headers r) @ [(name, v)]\<rparr>"

subsection \<open>Problem responses\<close>

definition PROBLEM_MEDIA_TYPE :: string where "PROBLEM_MEDIA_TYPE = ''application/problem+json''"

definition TYPE_BY_STATUS :: "(nat \<times> string) list" where
  "TYPE_BY_STATUS =
     [(401, ''/problems/unauthorized''), (403, ''/problems/forbidden''), (404, ''/problems/not-found''),
      (409, ''/problems/conflict''), (422, ''/problems/validation-error''),
      (413, ''/problems/payload-too-large''), (429, ''/problems/rate-limited''),
      (500, ''/problems/internal-error'')]"

definition TITLE_BY_STATUS :: "(nat \<times> string) list" where
  "TITLE_BY_STATUS =
     [(401, ''Unauthorized''), (403, ''Forbidden''), (404, ''Not Found''), (409, ''Conflict''),
      (413, ''Payload Too Large''), (422, ''Validation Error''), (429, ''Too Many Requests''),
      (500, ''Internal Server Error'')]"

definition lookup_or :: "'v \<Rightarrow> ('k \<times> 'v) list \<Rightarrow> 'k \<Rightarrow> 'v" where
  "lookup_or d t k = (case map_of t k of None \<Rightarrow> d | Some v \<Rightarrow> v)"

text \<open>\<open>fresh\<close> is the \<open>uuid4\<close> that is drawn when the request carries no identifier, or an empty one.\<close>

definition trace_id :: "uuid \<Rightarrow> api_request \<Rightarrow> string" where
  "trace_id fresh rq =
     (case aq_trace_id rq of Some t \<Rightarrow> if t = [] then uuid_str fresh else t | None \<Rightarrow> uuid_str fresh)"

definition problem_response ::
  "uuid \<Rightarrow> api_request \<Rightarrow> nat \<Rightarrow> json \<Rightarrow> (string \<times> string) list \<Rightarrow> api_response" where
  "problem_response fresh rq status_code detail headers =
     \<lparr>rs_status = status_code, rs_media_type = PROBLEM_MEDIA_TYPE, rs_headers = headers,
      rs_content = Some (JObj
        [(''type'', JStr (lookup_or ''about:blank'' TYPE_BY_STATUS status_code)),
         (''title'', JStr (lookup_or ''Error'' TITLE_BY_STATUS status_code)),
         (''status'', JInt (int status_code)),
         (''detail'', detail),
         (''instance'', JStr (aq_path rq)),
         (''trace_id'', JStr (trace_id fresh rq))])\<rparr>"

subsection \<open>The handlers\<close>

text \<open>\<open>f"{x:.2f}"\<close> of a number that is not negative, and \<open>repr\<close> of a \<open>uuid.UUID\<close>.\<close>

definition fixed2 :: "rat \<Rightarrow> string" where
  "fixed2 x =
     (let cents = nat (round_half_even (x * 100))
      in decimal_nat (cents div 100) @ ''.'' @ pad_decimal 2 (cents mod 100))"

definition uuid_repr :: "uuid \<Rightarrow> string" where
  "uuid_repr u = ''UUID('' @ py_repr (uuid_str u) @ '')''"

text \<open>
  \<open>str(exc)\<close> of a domain error. The text of a \<open>NotFoundError\<close> is written where it is raised, around
  the identifier that was not found: it is the argument \<open>not_found\<close>.
\<close>

definition domain_text :: "(uuid \<Rightarrow> string) \<Rightarrow> error \<Rightarrow> string" where
  "domain_text not_found e =
     (case e of
        NotFoundError i \<Rightarrow> not_found i
      | IdempotencyKeyConflict t k \<Rightarrow>
          ''idempotency key conflict for tenant '' @ uuid_repr t @ '': '' @ py_repr k
      | DifferingBodyConflict t k \<Rightarrow>
          ''idempotency key reused with a differing body for tenant '' @ uuid_repr t @ '': '' @ py_repr k
      | DeliveryNotDeadError d s \<Rightarrow>
          ''delivery '' @ uuid_repr d @ '' is not dead (state='' @ py_repr (delivery_state_value s) @
          ''); cannot replay''
      | ValidationError m \<Rightarrow> m
      | CursorDecodeError token \<Rightarrow> ''invalid cursor: '' @ py_repr token
      | RateLimitExceeded r \<Rightarrow> ''rate limit exceeded, retry after '' @ fixed2 r @ ''s''
      | PayloadTooLarge actual limit \<Rightarrow>
          ''payload too large: '' @ decimal_nat actual @ '' bytes, max '' @ decimal_nat limit
      | SandboxQuotaExceeded resource limit \<Rightarrow>
          ''sandbox quota exceeded: max '' @ decimal_nat limit @ '' '' @ resource
      | _ \<Rightarrow> [])"

text \<open>The first entry of \<open>_DOMAIN_ERROR_STATUS\<close> that the exception is an instance of.\<close>

definition domain_status :: "error \<Rightarrow> nat option" where
  "domain_status e =
     (case e of
        NotFoundError _ \<Rightarrow> Some 404
      | IdempotencyKeyConflict _ _ \<Rightarrow> Some 409
      | DifferingBodyConflict _ _ \<Rightarrow> Some 409
      | DeliveryNotDeadError _ _ \<Rightarrow> Some 409
      | PayloadTooLarge _ _ \<Rightarrow> Some 413
      | SandboxQuotaExceeded _ _ \<Rightarrow> Some 403
      | SsrfBlocked \<Rightarrow> Some 422
      | ValidationError _ \<Rightarrow> Some 422
      | CursorDecodeError _ \<Rightarrow> Some 422
      | _ \<Rightarrow> None)"

definition retry_after_header :: "rat \<Rightarrow> int" where
  "retry_after_header retry_after_seconds = max 1 \<lceil>retry_after_seconds\<rceil>"

text \<open>
  The handlers registered by \<open>install_error_handlers\<close>, by the class of the exception; \<open>None\<close> is an
  exception only the catch-all takes. \<open>errors\<close> is pydantic's \<open>exc.errors()\<close> as JSON.
\<close>

definition domain_error_handler ::
  "(uuid \<Rightarrow> string) \<Rightarrow> uuid \<Rightarrow> api_request \<Rightarrow> error \<Rightarrow> api_response option" where
  "domain_error_handler not_found fresh rq e =
     (case e of
        RateLimitExceeded r \<Rightarrow>
          Some (problem_response fresh rq 429 (JStr (domain_text not_found e))
            [(''retry-after'', decimal (retry_after_header r))])
      | _ \<Rightarrow> map_option (\<lambda>status. problem_response fresh rq status (JStr (domain_text not_found e)) [])
               (domain_status e))"

definition handle_exception ::
  "(uuid \<Rightarrow> string) \<Rightarrow> (string \<Rightarrow> json) \<Rightarrow> uuid \<Rightarrow> api_request \<Rightarrow> error \<Rightarrow> api_response option" where
  "handle_exception not_found errors fresh rq e =
     (case e of
        HTTPException status detail \<Rightarrow> Some (problem_response fresh rq status (JStr detail) [])
      | RequestValidationError v \<Rightarrow> Some (problem_response fresh rq 422 (errors v) [])
      | _ \<Rightarrow> domain_error_handler not_found fresh rq e)"

definition unhandled_exception_handler :: "uuid \<Rightarrow> api_request \<Rightarrow> api_response" where
  "unhandled_exception_handler fresh rq =
     problem_response fresh rq 500 (JStr ''internal server error'') []"

subsection \<open>The body-size check\<close>

text \<open>
  \<open>int(content_length)\<close> of a byte string: surrounding ASCII white space, a sign, digits with single
  underscores between them, and at most 4300 of them, Python's limit for such conversions.
\<close>

fun digits10 :: "bool \<Rightarrow> nat \<Rightarrow> nat \<Rightarrow> string \<Rightarrow> (nat \<times> nat) option" where
  "digits10 after_digit n acc [] = (if after_digit then Some (n, acc) else None)"
| "digits10 after_digit n acc (c # cs) =
     (if is_digit c then digits10 True (n + 1) (acc * 10 + (of_char c - 48)) cs
      else if c = CHR ''_'' \<and> after_digit then digits10 False n acc cs else None)"

definition unsigned10 :: "string \<Rightarrow> nat option" where
  "unsigned10 s =
     (case digits10 False 0 0 s of None \<Rightarrow> None | Some (n, v) \<Rightarrow> if 4300 < n then None else Some v)"

definition int10 :: "string \<Rightarrow> int option" where
  "int10 s =
     (case strip_set is_ascii_space s of
        c # cs \<Rightarrow>
          if c = CHR ''-'' then map_option (\<lambda>n. - int n) (unsigned10 cs)
          else if c = CHR ''+'' then map_option int (unsigned10 cs)
          else map_option int (unsigned10 (c # cs))
      | [] \<Rightarrow> None)"

definition declared_bytes :: "api_request \<Rightarrow> int option" where
  "declared_bytes rq =
     (case header_get ''content-length'' rq of
        None \<Rightarrow> None
      | Some v \<Rightarrow> (case int10 v of None \<Rightarrow> Some 0 | Some n \<Rightarrow> Some n))"

definition too_large_response :: "api_request \<Rightarrow> int \<Rightarrow> nat \<Rightarrow> api_response" where
  "too_large_response rq declared max_bytes =
     \<lparr>rs_status = 413, rs_media_type = PROBLEM_MEDIA_TYPE, rs_headers = [],
      rs_content = Some (JObj
        [(''type'', JStr ''/problems/payload-too-large''),
         (''title'', JStr ''Payload Too Large''),
         (''status'', JInt 413),
         (''detail'', JStr (''payload too large: '' @ decimal declared @ '' bytes, max '' @ decimal_nat max_bytes)),
         (''instance'', JStr (aq_path rq))])\<rparr>"

text \<open>
  An application takes a request and a state; it raises or answers. It also returns the request, whose
  \<open>state\<close> the layers inside may have written.
\<close>

type_synonym 's app = "api_request \<Rightarrow> 's \<Rightarrow> ((error + api_response) \<times> api_request) \<times> 's"

definition max_body_size :: "nat \<Rightarrow> 's app \<Rightarrow> 's app" where
  "max_body_size max_bytes app rq st =
     (case declared_bytes rq of
        None \<Rightarrow> app rq st
      | Some declared \<Rightarrow>
          if int max_bytes < declared then ((Inr (too_large_response rq declared max_bytes), rq), st)
          else app rq st)"

subsection \<open>The trace id\<close>

definition TRACE_ID_HEADER :: string where "TRACE_ID_HEADER = ''x-trace-id''"

definition request_trace_id :: "uuid \<Rightarrow> api_request \<Rightarrow> string" where
  "request_trace_id fresh rq =
     (case header_get TRACE_ID_HEADER rq of
        Some t \<Rightarrow> if t = [] then uuid_str fresh else t
      | None \<Rightarrow> uuid_str fresh)"

text \<open>
  The middleware with the labels its histogram is given for the request; a request that raises is
  not observed.
\<close>

definition trace_id_middleware ::
  "uuid \<Rightarrow> 's app \<Rightarrow> api_request \<Rightarrow> 's \<Rightarrow>
   ((error + api_response) \<times> api_request \<times> (string \<times> string \<times> string) list) \<times> 's" where
  "trace_id_middleware fresh call_next rq st =
     (let trace = request_trace_id fresh rq; rq' = rq\<lparr>aq_trace_id := Some trace\<rparr> in
      case call_next rq' st of
        ((Inl e, rq''), st') \<Rightarrow> ((Inl e, rq'', []), st')
      | ((Inr response, rq''), st') \<Rightarrow>
          let path_label = (case aq_route rq'' of Some p \<Rightarrow> p | None \<Rightarrow> aq_path rq'') in
          ((Inr (header_set TRACE_ID_HEADER trace response), rq'',
            [(aq_method rq'', path_label, decimal_nat (rs_status response))]), st'))"

subsection \<open>The stack\<close>

text \<open>
  What stands under the routes: \<open>routes\<close> raises or answers. \<open>fresh\<close> holds the two identifiers that
  may be drawn, the one of the trace middleware and the one of a handler outside it.
\<close>

definition exception_middleware ::
  "(uuid \<Rightarrow> string) \<Rightarrow> (string \<Rightarrow> json) \<Rightarrow> uuid \<Rightarrow>
   (api_request \<Rightarrow> 's \<Rightarrow> (error + api_response) \<times> 's) \<Rightarrow> 's app" where
  "exception_middleware not_found errors fresh routes rq st =
     (case routes rq st of
        (Inr response, st') \<Rightarrow> ((Inr response, rq), st')
      | (Inl e, st') \<Rightarrow>
          (case handle_exception not_found errors fresh rq e of
             Some response \<Rightarrow> ((Inr response, rq), st')
           | None \<Rightarrow> ((Inl e, rq), st')))"

definition create_app ::
  "(uuid \<Rightarrow> string) \<Rightarrow> (string \<Rightarrow> json) \<Rightarrow> nat \<Rightarrow> uuid \<Rightarrow> uuid \<Rightarrow>
   (api_request \<Rightarrow> 's \<Rightarrow> (error + api_response) \<times> 's) \<Rightarrow> api_request \<Rightarrow> 's \<Rightarrow> api_response \<times> 's" where
  "create_app not_found errors max_bytes fresh1 fresh2 routes rq st =
     (case max_body_size max_bytes
             (\<lambda>rq st. case trace_id_middleware fresh1
                 (exception_middleware not_found errors fresh2 routes) rq st of
                ((r, rq', observed), st') \<Rightarrow> ((r, rq'), st')) rq st of
        ((Inr response, rq'), st') \<Rightarrow> (response, st')
      | ((Inl e, rq'), st') \<Rightarrow> (unhandled_exception_handler fresh2 rq', st'))"

subsection \<open>What a client sees\<close>

text \<open>Exceptions that no handler but the catch-all takes.\<close>

definition internal :: "error \<Rightarrow> bool" where
  "internal e \<longleftrightarrow>
     domain_status e = None \<and> (\<forall>r. e \<noteq> RateLimitExceeded r) \<and> (\<forall>s d. e \<noteq> HTTPException s d) \<and>
     (\<forall>v. e \<noteq> RequestValidationError v)"

definition oversized :: "nat \<Rightarrow> api_request \<Rightarrow> bool" where
  "oversized max_bytes rq \<longleftrightarrow>
     (case declared_bytes rq of None \<Rightarrow> False | Some n \<Rightarrow> int max_bytes < n)"

lemma uuid_str_nonempty [simp]: "uuid_str u \<noteq> []"
  by (simp add: uuid_str_def Let_def)

lemma request_trace_id_nonempty [simp]: "request_trace_id fresh rq \<noteq> []"
  by (simp add: request_trace_id_def split: option.split)

lemma trace_id_known [simp]: "t \<noteq> [] \<Longrightarrow> trace_id fresh (rq\<lparr>aq_trace_id := Some t\<rparr>) = t"
  by (simp add: trace_id_def)

lemma handle_exception_internal: "handle_exception nf errs fresh rq e = None \<longleftrightarrow> internal e"
  by (cases e) (simp_all add: handle_exception_def domain_error_handler_def domain_status_def internal_def)

text \<open>The shape of a problem and the header that goes with it.\<close>

definition is_problem :: "api_request \<Rightarrow> string \<Rightarrow> api_response \<Rightarrow> bool" where
  "is_problem rq trace r \<longleftrightarrow>
     rs_media_type r = PROBLEM_MEDIA_TYPE \<and>
     (\<exists>detail. rs_content r = Some (JObj
        [(''type'', JStr (lookup_or ''about:blank'' TYPE_BY_STATUS (rs_status r))),
         (''title'', JStr (lookup_or ''Error'' TITLE_BY_STATUS (rs_status r))),
         (''status'', JInt (int (rs_status r))), (''detail'', detail),
         (''instance'', JStr (aq_path rq)), (''trace_id'', JStr trace)]))"

lemma is_problem_response:
  "is_problem rq (trace_id fresh rq) (problem_response fresh rq status detail headers)"
  by (simp add: is_problem_def problem_response_def)

lemma is_problem_header_set [simp]: "is_problem rq trace (header_set k v r) = is_problem rq trace r"
  by (simp add: is_problem_def header_set_def)

lemma is_problem_trace [simp]: "is_problem (rq\<lparr>aq_trace_id := t\<rparr>) trace r = is_problem rq trace r"
  by (simp add: is_problem_def)

lemma handle_exception_problem:
  assumes "handle_exception nf errs fresh rq e = Some r"
  shows "is_problem rq (trace_id fresh rq) r"
  using assms
  by (cases e)
     (auto simp: handle_exception_def domain_error_handler_def domain_status_def is_problem_response)

lemma rs_status_header_set [simp]: "rs_status (header_set k v r) = rs_status r"
  "rs_content (header_set k v r) = rs_content r"
  by (simp_all add: header_set_def)

lemma header_set_mem [simp]: "(k, v) \<in> set (rs_headers (header_set k v r))"
  by (simp add: header_set_def)

lemma create_app_run:
  "create_app nf errs mx f1 f2 routes rq st =
     (if oversized mx rq then (too_large_response rq (the (declared_bytes rq)) mx, st)
      else let t = request_trace_id f1 rq; rq' = rq\<lparr>aq_trace_id := Some t\<rparr> in
        case routes rq' st of
          (Inr response, st') \<Rightarrow> (header_set TRACE_ID_HEADER t response, st')
        | (Inl e, st') \<Rightarrow>
            (case handle_exception nf errs f2 rq' e of
               Some response \<Rightarrow> (header_set TRACE_ID_HEADER t response, st')
             | None \<Rightarrow> (unhandled_exception_handler f2 rq', st')))"
  by (auto simp: create_app_def max_body_size_def oversized_def trace_id_middleware_def
      exception_middleware_def Let_def split: option.splits sum.splits prod.splits)

subsection \<open>Properties\<close>


definition demo_request :: api_request where
  "demo_request = \<lparr>aq_method = ''GET'', aq_path = ''/v1/dlq'', aq_route = None,
     aq_headers = [(''x-trace-id'', ''abc'')], aq_body = [], aq_trace_id = None\<rparr>"


text \<open>
  C25. The \<open>Retry-After\<close> of a rejected request is honest: it is a whole number of seconds, at least
  one, after which the same request is allowed if nobody else spent a token meanwhile, and it is
  less than a second longer than the bucket needs, or exactly one second.
\<close>

theorem retry_after_header_is_honest:
  assumes "0 < rate" and "bucket_ok rate burst off b" and "0 < burst"
    and "allow b rate burst 1 now (now + off) = (d, b')" and "\<not> rl_allowed d"
    and "now + of_int (retry_after_header (rl_retry_after_seconds d)) \<le> later"
  shows "rl_allowed (fst (allow (Some b') rate burst 1 later (later + off))) \<and>
    1 \<le> retry_after_header (rl_retry_after_seconds d) \<and>
    (retry_after_header (rl_retry_after_seconds d) = 1 \<or>
     of_int (retry_after_header (rl_retry_after_seconds d)) < rl_retry_after_seconds d + 1)"
proof -
  let ?r = "rl_retry_after_seconds d"
  have "?r \<le> of_int (retry_after_header ?r)"
    using le_of_int_ceiling [of ?r] unfolding retry_after_header_def by (simp add: max_def)
  then have "now + ?r \<le> later" using assms(6) by linarith
  then have "1 \<le> level rate burst (Some b') later (later + off)"
    using level_after_wait(1) [OF assms(1,2) _ _ assms(4,5)] assms(3) by simp
  moreover have "retry_after_header ?r = 1 \<or> of_int (retry_after_header ?r) < ?r + 1"
    using of_int_ceiling_le_add_one [of ?r] ceiling_correct [of ?r]
    by (auto simp: retry_after_header_def max_def)
  ultimately show ?thesis by (simp add: allow_level Let_def retry_after_header_def)
qed

lemma retry_after_header_is_honest_witness:
  "rl_allowed (fst (allow (Some \<lparr>tokens = 1 / 2, updated_at = 10, expires = 14\<rparr>) 1 3 1 11 11))"
proof -
  let ?d = "\<lparr>rl_allowed = False, rl_retry_after_seconds = 1 / 2, rl_remaining_tokens = 1 / 2\<rparr>"
  have run: "allow (Some \<lparr>tokens = 1 / 2, updated_at = 10, expires = 14\<rparr>) 1 3 1 10 (10 + 0) =
     (?d, \<lparr>tokens = 1 / 2, updated_at = 10, expires = 14\<rparr>)"
    by (simp add: allow_level Let_def level_def refill_def bucket_read_def script_ttl_def)
  have "retry_after_header (1 / 2) = 1" by (simp add: retry_after_header_def ceiling_unique)
  with retry_after_header_is_honest [OF _ _ _ run, of 11] show ?thesis
    by (simp add: bucket_ok_def script_ttl_def)
qed

end
