(* ===== verification/Schemas.thy ===== *)
theory Schemas
  imports Pagination "HOL-Library.Char_ord" "HOL-Library.List_Lexorder"
begin

section \<open>Wire schemas\<close>

text \<open>
  The response models under \<open>relay/api/v1\<close> and their \<open>from_domain\<close> constructors, and the request
  models after pydantic has parsed them. \<open>HttpUrl\<close> arrives as the text \<open>str(url)\<close> that the routes
  pass on. A frozenset of strings is a list; \<open>sorted\<close> orders by code points and sees every element
  once.
\<close>

definition sorted_set :: "string list \<Rightarrow> string list" where
  "sorted_set xs = sort (remdups xs)"

subsection \<open>Events\<close>

record event_create =
  ec_type :: string
  ec_payload :: json

record event_read =
  er_id :: uuid
  er_type :: string
  er_payload :: json
  er_idempotency_key :: string
  er_created_at :: timestamp

definition event_read_from_domain :: "event \<Rightarrow> event_read" where
  "event_read_from_domain event =
     \<lparr>er_id = ev_id event, er_type = ev_type event, er_payload = ev_payload event,
      er_idempotency_key = ev_idempotency_key event, er_created_at = ev_created_at event\<rparr>"

subsection \<open>Endpoints\<close>

record endpoint_create =
  pc_url :: string
  pc_subscribed_event_types :: "string list"

record endpoint_update_body =
  pu_url :: "string option"
  pu_subscribed_event_types :: "string list option"
  pu_status :: "endpoint_status option"

record endpoint_read =
  pr_id :: uuid
  pr_url :: string
  pr_subscribed_event_types :: "string list"
  pr_status :: endpoint_status
  pr_breaker_state :: breaker_state
  pr_created_at :: timestamp

definition endpoint_read_from_domain :: "endpoint \<Rightarrow> endpoint_read" where
  "endpoint_read_from_domain ep =
     \<lparr>pr_id = ep_id ep, pr_url = ep_url ep,
      pr_subscribed_event_types = sorted_set (ep_event_types ep), pr_status = ep_status ep,
      pr_breaker_state = ep_breaker_state ep, pr_created_at = ep_created_at ep\<rparr>"

record endpoint_created = endpoint_read +
  pr_secret :: string

definition endpoint_created_from_domain :: "endpoint \<Rightarrow> endpoint_created" where
  "endpoint_created_from_domain ep =
     \<lparr>pr_id = ep_id ep, pr_url = ep_url ep,
      pr_subscribed_event_types = sorted_set (ep_event_types ep), pr_status = ep_status ep,
      pr_breaker_state = ep_breaker_state ep, pr_created_at = ep_created_at ep,
      pr_secret = ep_secret ep\<rparr>"

record 'a list_response =
  lr_items :: "'a list"
  lr_next_cursor :: "string option"
  lr_has_more :: bool

subsection \<open>Deliveries and the dead-letter queue\<close>

record delivery_read =
  dr_id :: uuid
  dr_event_id :: uuid
  dr_endpoint_id :: uuid
  dr_state :: delivery_state
  dr_attempt_count :: nat
  dr_next_retry_at :: "timestamp option"
  dr_created_at :: timestamp

definition delivery_read_from_domain :: "delivery \<Rightarrow> delivery_read" where
  "delivery_read_from_domain d =
     \<lparr>dr_id = d_id d, dr_event_id = d_event_id d, dr_endpoint_id = d_endpoint_id d,
      dr_state = d_state d, dr_attempt_count = d_attempt_count d,
      dr_next_retry_at = d_next_retry_at d, dr_created_at = d_created_at d\<rparr>"

record delivery_attempt_read =
  ar_id :: uuid
  ar_attempt_no :: nat
  ar_latency_ms :: int
  ar_response_status :: "int option"
  ar_error_class :: "attempt_error_class option"
  ar_request_snippet :: "string option"
  ar_response_snippet :: "string option"
  ar_request_headers :: "(string \<times> string) list option"
  ar_created_at :: timestamp

definition delivery_attempt_read_from_domain :: "delivery_attempt \<Rightarrow> delivery_attempt_read" where
  "delivery_attempt_read_from_domain a =
     \<lparr>ar_id = a_id a, ar_attempt_no = a_attempt_no a, ar_latency_ms = a_latency_ms a,
      ar_response_status = a_response_status a, ar_error_class = a_error_class a,
      ar_request_snippet = a_request_snippet a, ar_response_snippet = a_response_snippet a,
      ar_request_headers = a_request_headers a, ar_created_at = a_created_at a\<rparr>"

record dead_delivery_read =
  ddr_id :: uuid
  ddr_event_id :: uuid
  ddr_endpoint_id :: uuid
  ddr_state :: delivery_state
  ddr_attempt_count :: nat
  ddr_created_at :: timestamp
  ddr_attempts :: "delivery_attempt_read list"

definition dead_delivery_read_from_detail :: "dead_delivery_detail \<Rightarrow> dead_delivery_read" where
  "dead_delivery_read_from_detail dd =
     \<lparr>ddr_id = d_id (dd_delivery dd), ddr_event_id = d_event_id (dd_delivery dd),
      ddr_endpoint_id = d_endpoint_id (dd_delivery dd), ddr_state = d_state (dd_delivery dd),
      ddr_attempt_count = d_attempt_count (dd_delivery dd),
      ddr_created_at = d_created_at (dd_delivery dd),
      ddr_attempts = map delivery_attempt_read_from_domain (dd_attempts dd)\<rparr>"

subsection \<open>Sandbox, API keys and tenants\<close>

record sandbox_quotas_read =
  qr_max_endpoints :: nat
  qr_max_events :: nat
  qr_rate_limit_requests_per_second :: rat
  qr_ttl_minutes :: nat

definition sandbox_quotas_read_from_domain :: "sandbox_quotas \<Rightarrow> sandbox_quotas_read" where
  "sandbox_quotas_read_from_domain q =
     \<lparr>qr_max_endpoints = sq_max_endpoints q, qr_max_events = sq_max_events q,
      qr_rate_limit_requests_per_second = sq_rate_limit_requests_per_second q,
      qr_ttl_minutes = sq_ttl_minutes q\<rparr>"

record sandbox_created =
  sc_tenant_id :: uuid
  sc_api_key :: string
  sc_expires_at :: timestamp
  sc_quotas :: sandbox_quotas_read

definition sandbox_created_from_result :: "sandbox_provision_result \<Rightarrow> sandbox_created" where
  "sandbox_created_from_result r =
     \<lparr>sc_tenant_id = t_id (sp_tenant r), sc_api_key = sp_plaintext_key r,
      sc_expires_at = sp_expires_at r, sc_quotas = sandbox_quotas_read_from_domain (sp_quotas r)\<rparr>"

record signature_verify_request =
  sv_secret :: string
  sv_timestamp :: int
  sv_body :: string
  sv_signature :: string
  sv_tolerance_seconds :: "int option"

record metrics_read =
  mr_queue_depth :: nat
  mr_in_flight :: nat
  mr_p95_latency_ms :: "int option"
  mr_success_rate :: "rat option"
  mr_sample_size :: nat

definition metrics_read_from_domain :: "delivery_metrics \<Rightarrow> metrics_read" where
  "metrics_read_from_domain m =
     \<lparr>mr_queue_depth = dm_queue_depth m, mr_in_flight = dm_in_flight m,
      mr_p95_latency_ms = dm_p95_latency_ms m, mr_success_rate = dm_success_rate m,
      mr_sample_size = dm_sample_size m\<rparr>"

record api_key_read =
  kr_id :: uuid
  kr_key_prefix :: string
  kr_scopes :: "string list"
  kr_created_at :: timestamp
  kr_revoked_at :: "timestamp option"

definition api_key_read_from_domain :: "api_key \<Rightarrow> api_key_read" where
  "api_key_read_from_domain k =
     \<lparr>kr_id = k_id k, kr_key_prefix = k_key_prefix k, kr_scopes = sorted_set (k_scopes k),
      kr_created_at = k_created_at k, kr_revoked_at = k_revoked_at k\<rparr>"

record api_key_issued = api_key_read +
  kr_key :: string

definition api_key_issued_from_domain :: "api_key \<Rightarrow> string \<Rightarrow> api_key_issued" where
  "api_key_issued_from_domain k plaintext_key =
     \<lparr>kr_id = k_id k, kr_key_prefix = k_key_prefix k, kr_scopes = sorted_set (k_scopes k),
      kr_created_at = k_created_at k, kr_revoked_at = k_revoked_at k, kr_key = plaintext_key\<rparr>"

record tenant_read =
  tr_id :: uuid
  tr_name :: string
  tr_created_at :: timestamp
  tr_deleted_at :: "timestamp option"

definition tenant_read_from_domain :: "tenant \<Rightarrow> tenant_read" where
  "tenant_read_from_domain t =
     \<lparr>tr_id = t_id t, tr_name = t_name t, tr_created_at = t_created_at t, tr_deleted_at = t_deleted_at t\<rparr>"

subsection \<open>Facts\<close>

lemma sorted_set_facts [simp]:
  "sorted (sorted_set xs)" "distinct (sorted_set xs)" "set (sorted_set xs) = set xs"
  by (simp_all add: sorted_set_def)

lemma sorted_set_eq_iff: "sorted_set xs = sorted_set ys \<longleftrightarrow> set xs = set ys"
  by (metis sorted_distinct_set_unique sorted_set_facts)

text \<open>A read schema shows nothing but the row's public columns: rows that agree on them read alike.\<close>

lemma endpoint_read_hides_secret [simp]:
  "endpoint_read_from_domain (ep\<lparr>ep_secret := x\<rparr>) = endpoint_read_from_domain ep"
  by (simp add: endpoint_read_from_domain_def)

lemma api_key_read_hides_hash [simp]:
  "api_key_read_from_domain (k\<lparr>k_key_hash := x\<rparr>) = api_key_read_from_domain k"
  by (simp add: api_key_read_from_domain_def)

end
