(* ===== verification/Uuid5.thy ===== *)
theory Uuid5
  imports Wire
begin

section \<open>Name-based UUIDs\<close>

text \<open>
  \<open>uuid.uuid5(namespace, name)\<close> of the standard library: the first 16 bytes of the SHA-1 digest
  (FIPS 180-4) of the namespace's bytes and the name in UTF-8, with version and variant set.
\<close>

definition sha1_init :: "32 word list" where
  "sha1_init = [0x67452301, 0xEFCDAB89, 0x98BADCFE, 0x10325476, 0xC3D2E1F0]"

definition sha1_f :: "nat \<Rightarrow> 32 word \<Rightarrow> 32 word \<Rightarrow> 32 word \<Rightarrow> 32 word" where
  "sha1_f t x y z =
     (if t < 20 then (x AND y) XOR (NOT x AND z)
      else if t < 40 then x XOR y XOR z
      else if t < 60 then (x AND y) XOR (x AND z) XOR (y AND z)
      else x XOR y XOR z)"

definition sha1_k :: "nat \<Rightarrow> 32 word" where
  "sha1_k t =
     (if t < 20 then 0x5A827999 else if t < 40 then 0x6ED9EBA1 else if t < 60 then 0x8F1BBCDC else 0xCA62C1D6)"

text \<open>The message schedule, newest word first, as in SHA-256.\<close>

fun sha1_schedule :: "nat \<Rightarrow> 32 word list \<Rightarrow> 32 word list" where
  "sha1_schedule 0 ws = ws"
| "sha1_schedule (Suc n) ws =
     sha1_schedule n (word_rotl 1 (ws ! 2 XOR ws ! 7 XOR ws ! 13 XOR ws ! 15) # ws)"

fun sha1_round :: "32 word list \<Rightarrow> nat \<times> 32 word \<Rightarrow> 32 word list" where
  "sha1_round [a, b, c, d, e] (t, w) =
     [word_rotl 5 a + sha1_f t b c d + e + sha1_k t + w, a, word_rotl 30 b, c, d]"
| "sha1_round st tw = st"

definition sha1_block :: "32 word list \<Rightarrow> byte list \<Rightarrow> 32 word list" where
  "sha1_block st blk =
     map2 (+) st (foldl sha1_round st (zip [0..<80] (rev (sha1_schedule 64 (rev (sha_words 16 blk))))))"

fun sha1_blocks :: "nat \<Rightarrow> 32 word list \<Rightarrow> byte list \<Rightarrow> 32 word list" where
  "sha1_blocks 0 st bs = st"
| "sha1_blocks (Suc n) st bs = sha1_blocks n (sha1_block st (take 64 bs)) (drop 64 bs)"

definition sha1 :: "byte list \<Rightarrow> byte list" where
  "sha1 m =
     (let p = sha_pad m in
      concat (map (\<lambda>w. be_bytes 4 (unat w)) (sha1_blocks (length p div 64) sha1_init p)))"

definition uuid5 :: "uuid \<Rightarrow> string \<Rightarrow> uuid" where
  "uuid5 namespace name =
     (let digest = take 16 (sha1 (be_bytes 16 (unat namespace) @ encode name));
          n = foldl (\<lambda>acc b. 256 * acc + ucast b) 0 digest :: uuid
      in (((n AND NOT (push_bit 48 0xc000)) OR push_bit 48 0x8000) AND NOT (push_bit 64 0xf000))
           OR push_bit 76 5)"

end
