(* ===== verification/Api.thy ===== *)
theory Api
  imports Auth Problems Schemas Workers Uuid5
begin

section \<open>The routes\<close>

text \<open>
  The routers under \<open>relay/api/v1\<close>: each operation with its dependencies in the order FastAPI runs
  them. A body that is not JSON is refused first; then come the dependencies (authentication, rate
  limit, quota); then the operation's own parameters are validated; then the handler runs. What
  \<open>json.loads\<close> and pydantic make of the request's parameters is the argument of type \<open>parsed\<close>.
  The world of a request is the workers' world and the rate-limit buckets in Redis. The clocks that
  are read, the identifiers and random bytes that are drawn are arguments.
\<close>

record api_world =
  aw_world :: world
  aw_buckets :: "uuid \<Rightarrow> bucket option"

type_synonym 'a api = "api_world \<Rightarrow> (error + 'a) \<times> api_world"

definition returnA :: "'a \<Rightarrow> 'a api" where
  "returnA x w = (Inr x, w)"

definition raiseA :: "error \<Rightarrow> 'a api" where
  "raiseA e w = (Inl e, w)"

definition bindA :: "'a api \<Rightarrow> ('a \<Rightarrow> 'b api) \<Rightarrow> 'b api" where
  "bindA m k w = (case m w of (Inl e, w') \<Rightarrow> (Inl e, w') | (Inr x, w') \<Rightarrow> k x w')"

text \<open>A call of a service over the store, and of one that also publishes to the stream.\<close>

definition serviceA :: "'a service \<Rightarrow> 'a api" where
  "serviceA s w =
     (case s (w_store (aw_world w)) of (r, st) \<Rightarrow> (r, w\<lparr>aw_world := (aw_world w)\<lparr>w_store := st\<rparr>\<rparr>))"

definition worldA :: "(world \<Rightarrow> (error + 'a) \<times> world) \<Rightarrow> 'a api" where
  "worldA s w = (case s (aw_world w) of (r, w') \<Rightarrow> (r, w\<lparr>aw_world := w'\<rparr>))"

record request_clock =
  rc_now :: timestamp
  rc_time :: rat
  rc_server_time :: rat

definition rate_limitA :: "request_clock \<Rightarrow> uuid \<Rightarrow> rat \<Rightarrow> nat \<Rightarrow> rate_limit_decision api" where
  "rate_limitA clk key rate_per_second burst w =
     (case allow (aw_buckets w key) rate_per_second burst 1 (rc_time clk) (rc_server_time clk) of
        (d, b) \<Rightarrow> (Inr d, w\<lparr>aw_buckets := (aw_buckets w)(key := Some b)\<rparr>))"

datatype 'b parsed = Malformed string | Invalid string | Parsed 'b

definition with_params :: "'b parsed \<Rightarrow> 'a api \<Rightarrow> ('a \<Rightarrow> 'b \<Rightarrow> 'c api) \<Rightarrow> 'c api" where
  "with_params params dependency handler =
     (case params of
        Malformed v \<Rightarrow> raiseA (RequestValidationError v)
      | Invalid v \<Rightarrow> bindA dependency (\<lambda>_. raiseA (RequestValidationError v))
      | Parsed b \<Rightarrow> bindA dependency (\<lambda>auth. handler auth b))"

definition scoped :: "string \<Rightarrow> request_clock \<Rightarrow> string option \<Rightarrow> auth_context api" where
  "scoped scope clk presented = serviceA (require_scope scope (rc_now clk) presented)"

text \<open>\<open>limit: int = Query(default=50, ge=1, le=200)\<close>\<close>

definition page_params :: "(string option \<times> int) parsed \<Rightarrow> (string option \<times> nat) parsed" where
  "page_params p =
     (case p of
        Malformed v \<Rightarrow> Malformed v
      | Invalid v \<Rightarrow> Invalid v
      | Parsed (cursor, limit) \<Rightarrow>
          if limit < 1 then Invalid ''limit: greater_than_equal''
          else if 200 < limit then Invalid ''limit: less_than_equal''
          else Parsed (cursor, nat limit))"

subsection \<open>Events\<close>

definition rate_limited_auth :: "settings \<Rightarrow> request_clock \<Rightarrow> string option \<Rightarrow> auth_context api" where
  "rate_limited_auth cfg clk presented =
     bindA (scoped ''events:write'' clk presented) (\<lambda>auth.
       let sandbox = t_is_sandbox (ac_tenant auth);
           rate = (if sandbox then sandbox_rate_limit_requests_per_second cfg
                   else rate_limit_requests_per_second cfg);
           burst = (if sandbox then sandbox_rate_limit_burst cfg else rate_limit_burst cfg)
       in bindA (rate_limitA clk (t_id (ac_tenant auth)) rate burst) (\<lambda>decision.
          if \<not> rl_allowed decision then raiseA (RateLimitExceeded (rl_retry_after_seconds decision))
          else bindA (serviceA (assert_event_quota cfg (ac_tenant auth))) (\<lambda>_. returnA auth)))"

record event_draw =
  ed_event_id :: uuid
  ed_outbox_id :: uuid
  ed_now :: timestamp
  ed_others :: "db \<Rightarrow> db"

text \<open>The answer with its \<open>Location\<close>.\<close>

definition ingest_event ::
  "settings \<Rightarrow> request_clock \<Rightarrow> event_draw \<Rightarrow> api_request \<Rightarrow> string option \<Rightarrow>
   (event_create \<times> string) parsed \<Rightarrow> (event_read \<times> string) api" where
  "ingest_event cfg clk draw rq presented params =
     with_params params (rate_limited_auth cfg clk presented) (\<lambda>auth (body, idempotency_key).
       if event_payload_max_bytes cfg < length (aq_body rq)
       then raiseA (PayloadTooLarge (length (aq_body rq)) (event_payload_max_bytes cfg))
       else bindA (serviceA (ingest (ed_event_id draw) (ed_outbox_id draw) (ed_now draw) (ed_others draw)
                     (t_id (ac_tenant auth)) (ec_type body) (ec_payload body) idempotency_key (aq_trace_id rq)))
            (\<lambda>event. returnA (event_read_from_domain event, ''/v1/events/'' @ uuid_str (ev_id event))))"

subsection \<open>Endpoints\<close>

definition quota_checked_write_auth :: "settings \<Rightarrow> request_clock \<Rightarrow> string option \<Rightarrow> auth_context api" where
  "quota_checked_write_auth cfg clk presented =
     bindA (scoped ''endpoints:write'' clk presented) (\<lambda>auth.
     bindA (serviceA (assert_endpoint_quota cfg (ac_tenant auth))) (\<lambda>_. returnA auth))"

record endpoint_draw =
  nd_id :: uuid
  nd_now :: timestamp
  nd_entropy :: "byte list"

definition create_endpoint ::
  "settings \<Rightarrow> request_clock \<Rightarrow> endpoint_draw \<Rightarrow> string option \<Rightarrow> endpoint_create parsed \<Rightarrow> endpoint_created api" where
  "create_endpoint cfg clk draw presented params =
     with_params params (quota_checked_write_auth cfg clk presented) (\<lambda>auth body.
       bindA (serviceA (endpoint_register (nd_id draw) (nd_now draw) (nd_entropy draw)
                (t_id (ac_tenant auth)) (pc_url body) (pc_subscribed_event_types body)))
         (\<lambda>ep. returnA (endpoint_created_from_domain ep)))"

definition list_endpoints ::
  "request_clock \<Rightarrow> (byte list \<Rightarrow> row_key option) \<Rightarrow> string option \<Rightarrow> (string option \<times> int) parsed \<Rightarrow>
   endpoint_read list_response api" where
  "list_endpoints clk foreign presented params =
     with_params (page_params params) (scoped ''endpoints:read'' clk presented) (\<lambda>auth (cursor, limit).
       bindA (serviceA (endpoint_list foreign (t_id (ac_tenant auth)) cursor limit)) (\<lambda>page.
         returnA \<lparr>lr_items = map endpoint_read_from_domain (pg_items page),
                  lr_next_cursor = pg_next_cursor page, lr_has_more = pg_has_more page\<rparr>))"

definition get_endpoint :: "request_clock \<Rightarrow> string option \<Rightarrow> uuid parsed \<Rightarrow> endpoint_read api" where
  "get_endpoint clk presented params =
     with_params params (scoped ''endpoints:read'' clk presented) (\<lambda>auth endpoint_id.
       bindA (serviceA (endpoint_get endpoint_id (t_id (ac_tenant auth))))
         (\<lambda>ep. returnA (endpoint_read_from_domain ep)))"

definition update_endpoint ::
  "request_clock \<Rightarrow> string option \<Rightarrow> (uuid \<times> endpoint_update_body) parsed \<Rightarrow> endpoint_read api" where
  "update_endpoint clk presented params =
     with_params params (scoped ''endpoints:write'' clk presented) (\<lambda>auth (endpoint_id, body).
       bindA (serviceA (endpoint_update endpoint_id (t_id (ac_tenant auth)) (pu_url body)
                (pu_subscribed_event_types body) (pu_status body)))
         (\<lambda>updated. returnA (endpoint_read_from_domain updated)))"

definition delete_endpoint :: "request_clock \<Rightarrow> string option \<Rightarrow> uuid parsed \<Rightarrow> unit api" where
  "delete_endpoint clk presented params =
     with_params params (scoped ''endpoints:write'' clk presented) (\<lambda>auth endpoint_id.
       serviceA (endpoint_delete endpoint_id (t_id (ac_tenant auth))))"

subsection \<open>Deliveries and the dead-letter queue\<close>

definition replay_delivery ::
  "request_clock \<Rightarrow> nat \<Rightarrow> string option \<Rightarrow> uuid parsed \<Rightarrow> (delivery_read \<times> string) api" where
  "replay_delivery clk now_ms presented params =
     with_params params (scoped ''deliveries:replay'' clk presented) (\<lambda>auth delivery_id.
       bindA (worldA (replay now_ms delivery_id (t_id (ac_tenant auth)))) (\<lambda>d.
         returnA (delivery_read_from_domain d, ''/v1/deliveries/'' @ uuid_str (d_id d))))"

definition list_dead_deliveries ::
  "request_clock \<Rightarrow> (byte list \<Rightarrow> row_key option) \<Rightarrow> string option \<Rightarrow> (string option \<times> int) parsed \<Rightarrow>
   dead_delivery_read list_response api" where
  "list_dead_deliveries clk foreign presented params =
     with_params (page_params params) (scoped ''dlq:read'' clk presented) (\<lambda>auth (cursor, limit).
       bindA (serviceA (dlq_list_dead foreign (t_id (ac_tenant auth)) cursor limit)) (\<lambda>page.
         returnA \<lparr>lr_items = map dead_delivery_read_from_detail (pg_items page),
                  lr_next_cursor = pg_next_cursor page, lr_has_more = pg_has_more page\<rparr>))"

subsection \<open>Sandbox\<close>

definition SANDBOX_IP_NAMESPACE :: uuid where
  "SANDBOX_IP_NAMESPACE = 0x6f6b0f0a3b8e4b7a9c1a2e6f9c9d2b7a"

definition client_ip :: "string option \<Rightarrow> string" where
  "client_ip client_host = (case client_host of Some h \<Rightarrow> h | None \<Rightarrow> ''unknown'')"

record sandbox_draw =
  xd_now :: timestamp
  xd_tenant_id :: uuid
  xd_created_at :: timestamp
  xd_name :: uuid
  xd_key :: key_draw

definition create_sandbox ::
  "settings \<Rightarrow> request_clock \<Rightarrow> sandbox_draw \<Rightarrow> string option \<Rightarrow> sandbox_created api" where
  "create_sandbox cfg clk draw client_host =
     (let ip_key = uuid5 SANDBOX_IP_NAMESPACE (client_ip client_host) in
      bindA (rate_limitA clk ip_key (sandbox_creation_rate_limit_requests_per_second cfg)
               (sandbox_creation_rate_limit_burst cfg)) (\<lambda>decision.
        if \<not> rl_allowed decision then raiseA (RateLimitExceeded (rl_retry_after_seconds decision))
        else bindA (serviceA (sandbox_provision cfg (xd_now draw) (xd_tenant_id draw) (xd_created_at draw)
                      (xd_name draw) (xd_key draw)))
             (\<lambda>result. returnA (sandbox_created_from_result result))))"

definition get_metrics :: "request_clock \<Rightarrow> string option \<Rightarrow> metrics_read api" where
  "get_metrics clk presented =
     bindA (scoped ''endpoints:read'' clk presented) (\<lambda>auth.
     bindA (serviceA (metrics_snapshot (t_id (ac_tenant auth)) DEFAULT_SAMPLE_SIZE)) (\<lambda>metrics.
       returnA (metrics_read_from_domain metrics)))"

text \<open>\<open>now\<close> is the Unix time that \<open>verify\<close> reads.\<close>

definition verify_signature ::
  "settings \<Rightarrow> request_clock \<Rightarrow> int \<Rightarrow> string option \<Rightarrow> signature_verify_request parsed \<Rightarrow> bool api" where
  "verify_signature cfg clk now presented params =
     with_params params (scoped ''endpoints:read'' clk presented) (\<lambda>auth body.
       let tolerance = (case sv_tolerance_seconds body of Some t \<Rightarrow> t | None \<Rightarrow> signature_tolerance_seconds cfg) in
       (\<lambda>w. (verify (sv_secret body) (sv_timestamp body) (encode (sv_body body)) (sv_signature body) tolerance now, w)))"

definition stream_attempts ::
  "request_clock \<Rightarrow> string option \<Rightarrow> string option \<Rightarrow> auth_context api" where
  "stream_attempts clk header query =
     serviceA (require_scope_allow_query_key ''endpoints:read'' (rc_now clk) header query)"

end
