(* ===== verification/Tenancy.thy ===== *)
theory Tenancy
  imports Api System
begin

section \<open>What a request can touch\<close>

text \<open>
  The operations of the authenticated API as one datatype, each request on its own (its draws without
  another transaction in the middle), and what any of them can do to the rows of another tenant.
\<close>

datatype operation =
    IngestEvent uuid uuid timestamp api_request "(event_create \<times> string) parsed"
  | CreateEndpoint endpoint_draw "endpoint_create parsed"
  | ListEndpoints "(string option \<times> int) parsed"
  | GetEndpoint "uuid parsed"
  | UpdateEndpoint "(uuid \<times> endpoint_update_body) parsed"
  | DeleteEndpoint "uuid parsed"
  | ReplayDelivery nat "uuid parsed"
  | ListDeadDeliveries "(string option \<times> int) parsed"
  | GetMetrics
  | VerifySignature int "signature_verify_request parsed"

definition discard :: "'a api \<Rightarrow> unit api" where
  "discard m = bindA m (\<lambda>_. returnA ())"

definition perform ::
  "settings \<Rightarrow> request_clock \<Rightarrow> (byte list \<Rightarrow> row_key option) \<Rightarrow> string option \<Rightarrow> operation \<Rightarrow> unit api" where
  "perform cfg clk foreign presented op =
     (case op of
        IngestEvent i j now rq params \<Rightarrow>
          discard (ingest_event cfg clk \<lparr>ed_event_id = i, ed_outbox_id = j, ed_now = now, ed_others = (\<lambda>s. s)\<rparr>
            rq presented params)
      | CreateEndpoint draw params \<Rightarrow> discard (create_endpoint cfg clk draw presented params)
      | ListEndpoints params \<Rightarrow> discard (list_endpoints clk foreign presented params)
      | GetEndpoint params \<Rightarrow> discard (get_endpoint clk presented params)
      | UpdateEndpoint params \<Rightarrow> discard (update_endpoint clk presented params)
      | DeleteEndpoint params \<Rightarrow> delete_endpoint clk presented params
      | ReplayDelivery now_ms params \<Rightarrow> discard (replay_delivery clk now_ms presented params)
      | ListDeadDeliveries params \<Rightarrow> discard (list_dead_deliveries clk foreign presented params)
      | GetMetrics \<Rightarrow> discard (get_metrics clk presented)
      | VerifySignature now params \<Rightarrow> discard (verify_signature cfg clk now presented params))"

subsection \<open>Who calls\<close>

definition api_db :: "api_world \<Rightarrow> db" where
  "api_db w = st_db (w_store (aw_world w))"

text \<open>The tenant of the key a request presents and holds the secret of.\<close>

definition caller :: "string option \<Rightarrow> db \<Rightarrow> uuid option" where
  "caller presented s = map_option k_tenant_id (presented_for presented s)"

definition auth_result :: "string \<Rightarrow> timestamp \<Rightarrow> string option \<Rightarrow> db \<Rightarrow> error + auth_context" where
  "auth_result scope now presented s =
     (case presented_for presented s of
        None \<Rightarrow> Inl unauthorized
      | Some k \<Rightarrow>
          if \<not> usable now s k then Inl unauthorized
          else if has_scope k scope
          then Inr \<lparr>ac_tenant = the (tenants_get (k_tenant_id k) s), ac_api_key = k\<rparr>
          else Inl (HTTPException 403 ''insufficient scope''))"

lemma auth_result_caller:
  "auth_result scope now presented s = Inr a \<Longrightarrow> caller presented s = Some (t_id (ac_tenant a))"
  by (auto simp: auth_result_def caller_def usable_def tenants_get_def split: option.splits if_splits
      dest!: find_by_SomeD)

lemma require_scope_run:
  "keys_hashed (st_db st) \<Longrightarrow>
   require_scope scope now presented st = (auth_result scope now presented (st_db st), st)"
  by (auto simp: require_scope_def authenticate_run auth_result_def split: option.splits)

lemma api_world_same [simp]:
  "w\<lparr>aw_world := (aw_world w)\<lparr>w_store := w_store (aw_world w)\<rparr>\<rparr> = w"
  by simp

lemma bindA_simps [simp]:
  "bindA (returnA x) k w = k x w"
  "bindA (raiseA e) k w = (Inl e, w)"
  "bindA m returnA w = m w"
  by (auto simp: bindA_def returnA_def raiseA_def split: sum.splits prod.splits)

lemma scoped_run:
  "keys_hashed (api_db w) \<Longrightarrow>
   bindA (scoped scope clk presented) k w =
     (case auth_result scope (rc_now clk) presented (api_db w) of Inl e \<Rightarrow> (Inl e, w) | Inr a \<Rightarrow> k a w)"
  by (auto simp: bindA_def scoped_def serviceA_def require_scope_run api_db_def split: sum.splits)

subsection \<open>Steps of a request\<close>

text \<open>
  \<open>acts P m\<close>: whenever \<open>m\<close> runs in a world whose database satisfies the invariant of the API, the
  world it leaves is related to the first one by \<open>P\<close>, given what came out.
\<close>

definition coherent :: "db \<Rightarrow> bool" where
  "coherent s \<longleftrightarrow>
     (\<forall>d \<in> set (db_deliveries s). \<forall>ev \<in> set (db_events s). \<forall>ep \<in> set (db_endpoints s).
        ev_id ev = d_event_id d \<longrightarrow> ep_id ep = d_endpoint_id d \<longrightarrow> ev_tenant_id ev = ep_tenant_id ep)"

definition events_of :: "uuid \<Rightarrow> db \<Rightarrow> uuid set" where
  "events_of t s = ev_id ` {ev \<in> set (db_events s). ev_tenant_id ev = t}"

definition deliveries_of :: "uuid \<Rightarrow> db \<Rightarrow> uuid set" where
  "deliveries_of t s = d_id ` {d \<in> set (db_deliveries s). d_event_id d \<in> events_of t s}"

definition untouched :: "uuid \<Rightarrow> db \<Rightarrow> db \<Rightarrow> bool" where
  "untouched t s s' \<longleftrightarrow>
     db_tenants s' = db_tenants s \<and> db_api_keys s' = db_api_keys s \<and>
     (\<forall>ep. ep_tenant_id ep \<noteq> t \<longrightarrow> (ep \<in> set (db_endpoints s') \<longleftrightarrow> ep \<in> set (db_endpoints s))) \<and>
     (\<forall>ev. ev_tenant_id ev \<noteq> t \<longrightarrow> (ev \<in> set (db_events s') \<longleftrightarrow> ev \<in> set (db_events s))) \<and>
     (\<forall>d. d_event_id d \<notin> events_of t s \<longrightarrow> (d \<in> set (db_deliveries s') \<longleftrightarrow> d \<in> set (db_deliveries s))) \<and>
     (\<forall>a. a_delivery_id a \<notin> deliveries_of t s \<longrightarrow> (a \<in> set (db_attempts s') \<longleftrightarrow> a \<in> set (db_attempts s)))"

lemma untouched_refl [simp]: "untouched t s s"
  by (simp add: untouched_def)

text \<open>Two worlds that differ in the bucket of one tenant at most.\<close>

definition same_buckets :: "uuid \<Rightarrow> api_world \<Rightarrow> api_world \<Rightarrow> bool" where
  "same_buckets t w w' \<longleftrightarrow> (\<forall>key. key \<noteq> t \<longrightarrow> aw_buckets w' key = aw_buckets w key)"

text \<open>What a request of tenant \<open>t\<close> may do: keep to its own rows, and nothing when it is refused.\<close>

definition tame :: "uuid \<Rightarrow> api_world \<Rightarrow> (error + 'a) \<times> api_world \<Rightarrow> bool" where
  "tame t w result \<longleftrightarrow>
     (let (r, w') = result in
      same_buckets t w w' \<and> untouched t (api_db w) (api_db w') \<and> coherent (api_db w') \<and> db_ok (api_db w') \<and>
      (case r of Inl e \<Rightarrow> aw_world w' = aw_world w | Inr _ \<Rightarrow> True))"

lemma tame_discard:
  "tame t w (m w) \<Longrightarrow> tame t w (discard m w)"
  by (auto simp: tame_def discard_def bindA_def returnA_def Let_def split: sum.splits prod.splits)

lemma tame_same: "coherent (api_db w) \<Longrightarrow> db_ok (api_db w) \<Longrightarrow> tame t w (r, w)"
  by (auto simp: tame_def same_buckets_def split: sum.splits)

lemma tame_map: "tame t w (m w) \<Longrightarrow> tame t w (bindA m (\<lambda>x. returnA (f x)) w)"
  by (auto simp: tame_def bindA_def returnA_def Let_def split: sum.splits prod.splits)

lemma tame_service:
  assumes "s (w_store (aw_world w)) = (r, st')" and "untouched t (api_db w) (st_db st')"
    and "coherent (st_db st')" and "db_ok (st_db st')"
    and "\<And>e. r = Inl e \<Longrightarrow> st' = w_store (aw_world w)"
  shows "tame t w (serviceA s w)"
  using assms by (auto simp: tame_def serviceA_def same_buckets_def api_db_def split: sum.splits)

text \<open>A service that only reads.\<close>

lemma tame_read:
  assumes "coherent (api_db w)" "db_ok (api_db w)" "snd (s (w_store (aw_world w))) = w_store (aw_world w)"
  shows "tame t w (serviceA s w)"
  by (rule tame_service [of s w "fst (s (w_store (aw_world w)))" "w_store (aw_world w)"])
     (use assms in \<open>auto simp: api_db_def prod_eq_iff\<close>)

text \<open>The change of the database that a request of tenant \<open>t\<close> may commit.\<close>

definition commit_ok :: "uuid \<Rightarrow> db \<Rightarrow> db \<Rightarrow> bool" where
  "commit_ok t s d \<longleftrightarrow> untouched t s d \<and> coherent d \<and> db_ok d"

lemma tame_commit:
  assumes "coherent (api_db w)" "db_ok (api_db w)"
    and "(\<exists>e. s (w_store (aw_world w)) = (Inl e, w_store (aw_world w))) \<or>
      (\<exists>x d. s (w_store (aw_world w)) = (Inr x, (w_store (aw_world w))\<lparr>st_db := d\<rparr>) \<and> commit_ok t (api_db w) d)"
  shows "tame t w (serviceA s w)"
proof (cases "\<exists>e. s (w_store (aw_world w)) = (Inl e, w_store (aw_world w))")
  case True
  then show ?thesis using assms(1,2) by (intro tame_read) auto
next
  case False
  with assms(3) obtain x d where "s (w_store (aw_world w)) = (Inr x, (w_store (aw_world w))\<lparr>st_db := d\<rparr>)"
    "commit_ok t (api_db w) d" by blast
  then show ?thesis by (intro tame_service [of s w "Inr x"]) (auto simp: commit_ok_def)
qed

lemma db_ok_refs:
  assumes "db_ok s"
  shows "d \<in> set (db_deliveries s) \<Longrightarrow> d_endpoint_id d \<in> ep_id ` set (db_endpoints s)"
    and "d \<in> set (db_deliveries s) \<Longrightarrow> d_event_id d \<in> ev_id ` set (db_events s)"
    and "a \<in> set (db_attempts s) \<Longrightarrow> a_delivery_id a \<in> d_id ` set (db_deliveries s)"
    and "distinct (map ep_id (db_endpoints s))" "distinct (map ev_id (db_events s))"
    and "distinct (map d_id (db_deliveries s))"
  using assms unfolding db_ok_def by (blast | simp)+

lemma commit_ok_endpoints_create:
  assumes "endpoints_create i now t url secret ts s = Inr (ep, d)" "coherent s" "db_ok s"
  shows "commit_ok t s d"
proof -
  have d: "d = s\<lparr>db_endpoints := db_endpoints s @ [ep]\<rparr>" "ep_tenant_id ep = t" "ep_id ep = i"
    "i \<notin> ep_id ` set (db_endpoints s)"
    using assms(1) by (auto simp: endpoints_create_def Let_def split: if_splits)
  have "coherent d"
    using assms(2) d(3,4) db_ok_refs(1) [OF assms(3)] unfolding coherent_def d(1) by auto
  moreover have "untouched t s d" using d(2) by (auto simp: untouched_def d(1))
  ultimately show ?thesis using db_ok_endpoints_create [OF assms(1,3)] by (simp add: commit_ok_def)
qed

lemma register_tame:
  assumes "coherent (api_db w)" "db_ok (api_db w)"
  shows "tame t w (serviceA (endpoint_register i now b t url ts) w)"
  using assms commit_ok_endpoints_create [of i now t url "token_urlsafe b" ts "api_db w"]
  by (intro tame_commit) (auto simp: endpoint_register_run api_db_def split: sum.split)

lemma owned_endpoint_SomeD:
  "owned_endpoint i t s = Some ep \<Longrightarrow> endpoints_get i s = Some ep \<and> ep \<in> set (db_endpoints s) \<and> ep_id ep = i \<and> ep_tenant_id ep = t"
  by (auto simp: owned_endpoint_def endpoints_get_def split: option.splits if_splits dest: find_by_SomeD)

text \<open>With distinct keys, an update changes the one row, and a row with another value stays.\<close>

lemma in_update_by_iff:
  assumes "distinct (map key rows)" "r0 \<in> set rows" "key r0 = k" "P r0" "P (f r0)" "\<not> P r"
  shows "r \<in> set (update_by key k f rows) \<longleftrightarrow> r \<in> set rows"
proof
  assume "r \<in> set (update_by key k f rows)"
  then consider "r \<in> set rows" | r1 where "r1 \<in> set rows" "key r1 = k" "r = f r1"
    by (auto dest!: set_update_byD)
  then show "r \<in> set rows"
  proof cases
    case 2
    then have "r1 = r0" using assms(1-3) by (auto simp: distinct_map inj_on_def)
    with 2 assms(5,6) show ?thesis by simp
  qed
next
  assume r: "r \<in> set rows"
  then have "key r \<noteq> k" using assms by (metis distinct_map inj_onD)
  with r show "r \<in> set (update_by key k f rows)" by (force simp: update_by_def)
qed

lemma commit_ok_endpoints_update:
  assumes "endpoints_update i url ts status s = Inr (m, d)" "owned_endpoint i t s = Some ep" "coherent s" "db_ok s"
  shows "commit_ok t s d"
proof -
  let ?f = "change_endpoint url ts status"
  have ep: "ep \<in> set (db_endpoints s)" "ep_id ep = i" "ep_tenant_id ep = t"
    using owned_endpoint_SomeD [OF assms(2)] by auto
  have d: "d = s\<lparr>db_endpoints := update_by ep_id i ?f (db_endpoints s)\<rparr>"
    using assms(1) by (auto simp: endpoints_update_eq endpoints_modify_Inr)
  have sel: "ep_id (?f e) = ep_id e" "ep_tenant_id (?f e) = ep_tenant_id e" for e
    by (simp_all add: change_endpoint_def)
  have "x \<in> set (db_endpoints d) \<longleftrightarrow> x \<in> set (db_endpoints s)" if "ep_tenant_id x \<noteq> t" for x
    using in_update_by_iff [of ep_id "db_endpoints s" ep i "\<lambda>e. ep_tenant_id e = t" ?f x] ep that db_ok_refs(4) [OF assms(4)]
    by (simp add: d sel)
  then have "untouched t s d" by (simp add: untouched_def d)
  moreover have "coherent d"
    using assms(3) unfolding coherent_def d by (auto dest!: set_update_byD simp: sel)
  ultimately show ?thesis using db_ok_endpoints_update [OF assms(1,4)] by (simp add: commit_ok_def)
qed

lemma update_tame:
  assumes "coherent (api_db w)" "db_ok (api_db w)"
  shows "tame t w (serviceA (endpoint_update i t url ts status) w)"
  using assms commit_ok_endpoints_update [of i url ts status "api_db w" _ _ t]
  by (intro tame_commit) (auto simp: endpoint_update_run api_db_def split: sum.split option.split)

text \<open>A deletion takes the endpoint's deliveries with it, which are the tenant's in a coherent database.\<close>

lemma commit_ok_endpoints_delete:
  assumes "endpoints_delete i s = Inr (u, d)" "owned_endpoint i t s = Some ep" "coherent s" "db_ok s"
  shows "commit_ok t s d"
proof -
  note d = assms(1) [unfolded endpoints_delete_Inr, THEN conjunct2]
  have ep: "ep \<in> set (db_endpoints s)" "ep_id ep = i" "ep_tenant_id ep = t"
    using owned_endpoint_SomeD [OF assms(2)] by auto
  have own: "ep_tenant_id x = t" if "x \<in> set (db_endpoints s)" "ep_id x = i" for x
    using ep that db_ok_refs(4) [OF assms(4)] by (metis distinct_map inj_onD)
  have gone: "d_event_id x \<in> events_of t s" if "x \<in> set (db_deliveries s)" "d_endpoint_id x = i" for x
  proof -
    have "d_event_id x \<in> ev_id ` set (db_events s)" by (rule db_ok_refs(2) [OF assms(4) that(1)])
    then obtain ev where "ev \<in> set (db_events s)" "ev_id ev = d_event_id x" by auto
    moreover from this have "ev_tenant_id ev = t"
      using assms(3) that ep unfolding coherent_def by blast
    ultimately show ?thesis unfolding events_of_def by force
  qed
  have "untouched t s d"
    using own gone unfolding untouched_def d deliveries_of_def by auto
  moreover have "coherent d" using assms(3) unfolding coherent_def d by auto
  ultimately show ?thesis using db_ok_endpoints_delete [OF assms(1,4)] by (simp add: commit_ok_def)
qed

lemma delete_tame:
  assumes "coherent (api_db w)" "db_ok (api_db w)"
  shows "tame t w (serviceA (endpoint_delete i t) w)"
  using assms commit_ok_endpoints_delete [of i "api_db w" _ _ t]
  by (intro tame_commit) (auto simp: endpoint_delete_run api_db_def split: sum.split option.split)

lemma commit_ok_ingest:
  assumes "events_create i now t ty p k c s = Inr (m, d)" "outbox_create j now (ev_id m) d = Inr (q, d')"
    "coherent s" "db_ok s"
  shows "commit_ok t s d'"
proof -
  have d: "m = accepted_event i now t ty p k c" "d = s\<lparr>db_events := db_events s @ [m]\<rparr>"
    "i \<notin> ev_id ` set (db_events s)"
    using assms(1) events_create_Inr [OF assms(1)] by (auto simp: events_create_def split: if_splits)
  have d': "d' = d\<lparr>db_outbox := db_outbox d @ [q]\<rparr>" using outbox_create_Inr [OF assms(2)] by simp
  have "coherent d'"
    using assms(3) d(1,3) db_ok_refs(2) [OF assms(4)] unfolding coherent_def d' d(2) by auto
  moreover have "untouched t s d'" by (auto simp: untouched_def d' d(1,2))
  moreover have "db_ok d'"
    using db_ok_outbox_create [OF assms(2) db_ok_events_create [OF assms(1,4)]] .
  ultimately show ?thesis by (simp add: commit_ok_def)
qed

lemma ingest_tame:
  assumes "coherent (api_db w)" "db_ok (api_db w)"
  shows "tame t w (serviceA (ingest i j now (\<lambda>s. s) t ty p k c) w)"
proof -
  let ?st = "w_store (aw_world w)"
  have id: "effect_point (\<lambda>s. s) t k ?st = ?st" by (simp add: effect_point_def)
  obtain r st' where run: "ingest i j now (\<lambda>s. s) t ty p k c ?st = (r, st')" by fastforce
  from run have "(st' = ?st \<or> commit_ok t (api_db w) (st_db st')) \<and> (\<forall>e. r = Inl e \<longrightarrow> st' = ?st)"
  proof (cases rule: ingest_outcomes)
    case (created m d q d')
    then show ?thesis
      using commit_ok_ingest [OF _ created(4)] assms by (simp add: id api_db_def)
  qed (simp_all add: id)
  then show ?thesis
    using assms
    by (intro tame_service [of "ingest i j now (\<lambda>s. s) t ty p k c" w r st']) (auto simp: run commit_ok_def api_db_def)
qed

text \<open>A replay resets one delivery of the caller's events and publishes its message.\<close>

lemma commit_ok_replayed:
  assumes "deliveries_get i s = Some d" "events_get (d_event_id d) s = Some ev" "ev_tenant_id ev = t"
    "coherent s" "db_ok s"
  shows "commit_ok t s (s\<lparr>db_deliveries := update_by d_id i set_replayed (db_deliveries s)\<rparr>)"
proof -
  have d: "d \<in> set (db_deliveries s)" "d_id d = i" and ev: "ev \<in> set (db_events s)" "ev_id ev = d_event_id d"
    using assms(1,2) by (auto simp: deliveries_get_def events_get_def dest: find_by_SomeD)
  then have mine: "d_event_id d \<in> events_of t s" using assms(3) by (force simp: events_of_def)
  have "x \<in> set (update_by d_id i set_replayed (db_deliveries s)) \<longleftrightarrow> x \<in> set (db_deliveries s)"
    if "d_event_id x \<notin> events_of t s" for x
    using in_update_by_iff [of d_id "db_deliveries s" d i "\<lambda>d. d_event_id d \<in> events_of t s" set_replayed x]
      d mine that db_ok_refs(6) [OF assms(5)] by simp
  moreover have "coherent (s\<lparr>db_deliveries := update_by d_id i set_replayed (db_deliveries s)\<rparr>)"
    using assms(4) unfolding coherent_def by (auto dest!: set_update_byD)
  moreover have "db_ok (s\<lparr>db_deliveries := update_by d_id i set_replayed (db_deliveries s)\<rparr>)"
    using db_ok_deliveries_modify [of i set_replayed s] assms(1,5) by (simp add: deliveries_modify_Inr)
  ultimately show ?thesis by (simp add: commit_ok_def untouched_def)
qed

lemma replay_tame:
  assumes "coherent (api_db w)" "db_ok (api_db w)"
  shows "tame t w (worldA (replay now_ms i t) w)"
  using assms commit_ok_replayed [of i "api_db w"]
  by (auto simp: worldA_def replay_def replay_run tame_def same_buckets_def api_db_def commit_ok_def
      split: option.split)

subsection \<open>Whole requests\<close>

definition api_ok :: "api_world \<Rightarrow> bool" where
  "api_ok w \<longleftrightarrow> keys_hashed (api_db w) \<and> db_ok (api_db w) \<and> coherent (api_db w)"

text \<open>What a request may do, seen from the key it presents.\<close>

definition answered :: "string option \<Rightarrow> api_world \<Rightarrow> (error + 'a) \<times> api_world \<Rightarrow> bool" where
  "answered presented w result \<longleftrightarrow>
     (case caller presented (api_db w) of
        None \<Rightarrow> (\<exists>e. fst result = Inl e) \<and> snd result = w
      | Some t \<Rightarrow> tame t w result)"

lemma answered_error: "api_ok w \<Longrightarrow> answered presented w (Inl e, w)"
  by (auto simp: answered_def tame_same api_ok_def split: option.split)

lemma answered_discard: "answered presented w (m w) \<Longrightarrow> answered presented w (discard m w)"
proof (cases "caller presented (api_db w)")
  case None
  then show "answered presented w (m w) \<Longrightarrow> ?thesis"
    by (auto simp: answered_def discard_def bindA_def returnA_def split: sum.splits prod.splits)
qed (simp add: answered_def tame_discard)

lemma answered_auth:
  assumes "api_ok w"
    and "\<And>a. auth_result scope (rc_now clk) presented (api_db w) = Inr a \<Longrightarrow> tame (t_id (ac_tenant a)) w (k a w)"
  shows "answered presented w (bindA (scoped scope clk presented) k w)"
proof (cases "auth_result scope (rc_now clk) presented (api_db w)")
  case (Inl e)
  then show ?thesis using assms(1) by (simp add: scoped_run api_ok_def answered_error)
next
  case (Inr a)
  then show ?thesis
    using assms auth_result_caller [OF Inr] by (simp add: scoped_run api_ok_def answered_def)
qed

lemma answered_params:
  assumes "api_ok w"
    and "\<And>v. answered presented w (bindA dep (\<lambda>_. raiseA (RequestValidationError v) :: 'c api) w)"
    and "\<And>b. answered presented w (bindA dep (\<lambda>a. h a b :: 'c api) w)"
  shows "answered presented w (with_params params dep h w)"
  using assms by (cases params) (simp_all add: with_params_def raiseA_def answered_error)

lemma answered_scoped:
  assumes "api_ok w" and "\<And>a b. tame (t_id (ac_tenant a)) w (h a b w)"
  shows "answered presented w (with_params params (scoped scope clk presented) h w)"
  using assms
  by (intro answered_params answered_auth) (auto simp: raiseA_def api_ok_def intro: tame_same)

lemma tame_bucket:
  "tame t (w\<lparr>aw_buckets := (aw_buckets w)(t := b)\<rparr>) res \<Longrightarrow> tame t w res"
  by (auto simp: tame_def same_buckets_def api_db_def Let_def split: sum.splits)

lemma quota_reads [simp]:
  "snd (assert_event_quota cfg tn st) = st" "snd (assert_endpoint_quota cfg tn st) = st"
  by (auto simp: assert_event_quota_def assert_endpoint_quota_def checked_def)

lemma tame_checked:
  assumes "coherent (api_db w)" "db_ok (api_db w)" "snd (s (w_store (aw_world w))) = w_store (aw_world w)"
    and "\<And>x. tame t w (k x w)"
  shows "tame t w (bindA (serviceA s) k w)"
proof -
  have "serviceA s w = (fst (s (w_store (aw_world w))), w)"
    using assms(3) by (simp add: serviceA_def split_beta)
  then show ?thesis using assms by (auto simp: bindA_def split: sum.split intro: tame_same)
qed

lemma bindA_rate_limit:
  "bindA (rate_limitA clk key rate burst) k w =
     (case allow (aw_buckets w key) rate burst 1 (rc_time clk) (rc_server_time clk) of
        (d, b) \<Rightarrow> k d (w\<lparr>aw_buckets := (aw_buckets w)(key := Some b)\<rparr>))"
  by (simp add: bindA_def rate_limitA_def split: prod.split)

lemma bindA_assoc: "bindA (bindA m f) g = bindA m (\<lambda>x. bindA (f x) g)"
  by (auto simp: bindA_def fun_eq_iff split: sum.splits prod.splits)

lemma bindA_fun: "bindA (returnA x) k = k x" "bindA (raiseA e) k = raiseA e"
  by (simp_all add: fun_eq_iff raiseA_def)

lemma bindA_if: "bindA (if b then m else n) k = (if b then bindA m k else bindA n k)"
  by simp

lemma ingest_event_answered:
  assumes "api_ok w"
  shows "answered presented w (ingest_event cfg clk \<lparr>ed_event_id = i, ed_outbox_id = j, ed_now = now, ed_others = (\<lambda>s. s)\<rparr>
      rq presented params w)"
proof -
  have inv: "coherent (api_db w)" "db_ok (api_db w)" using assms by (simp_all add: api_ok_def)
  have dep: "answered presented w (bindA (rate_limited_auth cfg clk presented) k w)"
    if k: "\<And>a w. coherent (api_db w) \<Longrightarrow> db_ok (api_db w) \<Longrightarrow> tame (t_id (ac_tenant a)) w (k a w)" for k :: "auth_context \<Rightarrow> 'x api"
  proof -
    have "tame (t_id (ac_tenant a)) w (bindA (rate_limitA clk (t_id (ac_tenant a)) rate burst) (\<lambda>decision.
          if \<not> rl_allowed decision then raiseA (RateLimitExceeded (rl_retry_after_seconds decision))
          else bindA (serviceA (assert_event_quota cfg (ac_tenant a))) (\<lambda>_. k a)) w)" for a rate burst
    proof -
      obtain d b where b: "allow (aw_buckets w (t_id (ac_tenant a))) rate burst 1 (rc_time clk) (rc_server_time clk) = (d, b)"
        by fastforce
      let ?w = "w\<lparr>aw_buckets := (aw_buckets w)(t_id (ac_tenant a) := Some b)\<rparr>"
      have "coherent (api_db ?w)" "db_ok (api_db ?w)" using inv by (simp_all add: api_db_def)
      then have "tame (t_id (ac_tenant a)) ?w (if \<not> rl_allowed d then (Inl (RateLimitExceeded (rl_retry_after_seconds d)), ?w)
          else bindA (serviceA (assert_event_quota cfg (ac_tenant a))) (\<lambda>_. k a) ?w)"
        by (simp add: tame_same tame_checked k)
      then show ?thesis by (intro tame_bucket [of _ w "Some b"]) (simp add: bindA_rate_limit b raiseA_def split: if_splits)
    qed
    then show ?thesis
      unfolding rate_limited_auth_def bindA_assoc Let_def
      by (intro answered_auth [OF assms]) (simp add: bindA_assoc bindA_if bindA_fun cong: if_cong)
  qed
  show ?thesis
    unfolding ingest_event_def
    by (rule answered_params [OF assms]; rule dep;
        auto simp: raiseA_def tame_same split: prod.split intro!: tame_map ingest_tame)
qed

lemma create_endpoint_answered:
  assumes "api_ok w"
  shows "answered presented w (create_endpoint cfg clk draw presented params w)"
proof -
  have inv: "coherent (api_db w)" "db_ok (api_db w)" using assms by (simp_all add: api_ok_def)
  have dep: "answered presented w (bindA (quota_checked_write_auth cfg clk presented) k w)"
    if k: "\<And>a. tame (t_id (ac_tenant a)) w (k a w)" for k :: "auth_context \<Rightarrow> 'x api"
    unfolding quota_checked_write_auth_def bindA_assoc
    by (intro answered_auth [OF assms]) (simp add: bindA_assoc bindA_fun inv k tame_checked)
  show ?thesis
    unfolding create_endpoint_def
    using inv by (intro answered_params [OF assms] dep) (simp_all add: raiseA_def tame_same tame_map register_tame)
qed

lemma reads_tame [simp]:
  assumes "coherent (api_db w)" "db_ok (api_db w)"
  shows "tame t w (serviceA (endpoint_list foreign u cursor limit) w)"
    "tame t w (serviceA (endpoint_get i u) w)"
    "tame t w (serviceA (dlq_list_dead foreign u cursor limit) w)"
    "tame t w (serviceA (metrics_snapshot u n) w)"
  by (intro tame_read [OF assms];
      simp add: endpoint_list_run endpoint_get_run dlq_list_dead_run metrics_snapshot_def with_uow_def tx_simps
        split: option.split sum.split)+

lemma perform_answered:
  assumes "api_ok w"
  shows "answered presented w (perform cfg clk foreign presented op w)"
proof -
  have inv: "coherent (api_db w)" "db_ok (api_db w)" using assms by (simp_all add: api_ok_def)
  show ?thesis
  proof (cases op)
    case IngestEvent
    then show ?thesis by (simp add: perform_def answered_discard ingest_event_answered [OF assms])
  next
    case CreateEndpoint
    then show ?thesis by (simp add: perform_def answered_discard create_endpoint_answered [OF assms])
  next
    case GetMetrics
    have "answered presented w (get_metrics clk presented w)"
      unfolding get_metrics_def using inv by (intro answered_auth [OF assms]) (simp add: tame_map)
    then show ?thesis using GetMetrics by (simp add: perform_def answered_discard)
  next
    case (VerifySignature now params)
    have "answered presented w (verify_signature cfg clk now presented params w)"
      unfolding verify_signature_def using inv by (intro answered_scoped [OF assms]) (simp add: Let_def tame_same)
    then show ?thesis using VerifySignature by (simp add: perform_def answered_discard)
  next
    case (ListEndpoints params)
    have "answered presented w (list_endpoints clk foreign presented params w)"
      unfolding list_endpoints_def using inv
      by (intro answered_scoped [OF assms]) (simp add: tame_map split: prod.split)
    then show ?thesis using ListEndpoints by (simp add: perform_def answered_discard)
  next
    case (ListDeadDeliveries params)
    have "answered presented w (list_dead_deliveries clk foreign presented params w)"
      unfolding list_dead_deliveries_def using inv
      by (intro answered_scoped [OF assms]) (simp add: tame_map split: prod.split)
    then show ?thesis using ListDeadDeliveries by (simp add: perform_def answered_discard)
  next
    case (GetEndpoint params)
    have "answered presented w (get_endpoint clk presented params w)"
      unfolding get_endpoint_def using inv by (intro answered_scoped [OF assms]) (simp add: tame_map)
    then show ?thesis using GetEndpoint by (simp add: perform_def answered_discard)
  next
    case (UpdateEndpoint params)
    have "answered presented w (update_endpoint clk presented params w)"
      unfolding update_endpoint_def using inv
      by (intro answered_scoped [OF assms]) (simp add: tame_map update_tame split: prod.split)
    then show ?thesis using UpdateEndpoint by (simp add: perform_def answered_discard)
  next
    case (DeleteEndpoint params)
    then show ?thesis
      using inv by (simp add: perform_def delete_endpoint_def answered_scoped [OF assms] delete_tame)
  next
    case (ReplayDelivery now_ms params)
    have "answered presented w (replay_delivery clk now_ms presented params w)"
      unfolding replay_delivery_def using inv
      by (intro answered_scoped [OF assms]) (simp add: tame_map replay_tame)
    then show ?thesis using ReplayDelivery by (simp add: perform_def answered_discard)
  qed
qed

subsection \<open>Properties\<close>


text \<open>The tenants of the services' examples, with a key for the first.\<close>

definition issued_keys :: db where
  "issued_keys = two_tenants\<lparr>db_api_keys := [new_key issue_draw 1 [''endpoints:write''] None]\<rparr>"

definition issued_world :: api_world where
  "issued_world =
     \<lparr>aw_world = \<lparr>w_store = store_of issued_keys, w_stream = empty_stream, w_retries = [], w_feed = []\<rparr>,
      aw_buckets = (\<lambda>_. None)\<rparr>"

lemma issued_world_ok:
  "keys_hashed (api_db issued_world)" "db_ok (api_db issued_world)" "coherent (api_db issued_world)"
  by (auto simp: keys_hashed_def api_db_def issued_world_def store_of_def issued_keys_def new_key_def coherent_def
      db_ok_def two_tenants_def empty_db_def)

lemma issued_caller: "caller (Some (plaintext issue_draw)) (api_db issued_world) = Some 1"
proof -
  have "split_api_key (plaintext issue_draw) = Some (token_urlsafe [1], token_urlsafe [2])"
    by (simp add: plaintext_def split_api_key_Some_iff token_urlsafe_no_dot token_urlsafe_nonempty issue_draw_def)
  then show ?thesis
    by (simp add: caller_def presented_for_def api_keys_get_by_prefix_def api_db_def issued_world_def store_of_def
        issued_keys_def new_key_def issue_draw_def opens_def verify_hash_secret)
qed


end
