(* ===== verification/SandboxAccess.thy ===== *)
theory SandboxAccess
  imports Tenancy
begin

section \<open>From a sandbox to its first request\<close>

text \<open>
  \<open>POST /v1/sandbox\<close> followed by the requests its key is for: the routes' limiter, the provisioning
  service, the key's issue and the authentication of the later requests, composed.
\<close>

definition fresh_sandbox :: "sandbox_draw \<Rightarrow> db \<Rightarrow> bool" where
  "fresh_sandbox draw s \<longleftrightarrow>
     xd_tenant_id draw \<notin> t_id ` set (db_tenants s) \<and>
     kd_id (xd_key draw) \<notin> k_id ` set (db_api_keys s) \<and>
     token_urlsafe (kd_prefix_bytes (xd_key draw)) \<notin> k_key_prefix ` set (db_api_keys s) \<and>
     kd_prefix_bytes (xd_key draw) \<noteq> [] \<and> kd_secret_bytes (xd_key draw) \<noteq> []"

definition sandbox_tenant :: "sandbox_draw \<Rightarrow> tenant" where
  "sandbox_tenant draw =
     \<lparr>t_id = xd_tenant_id draw, t_name = ''sandbox-'' @ take 8 (uuid_hex (xd_name draw)),
      t_created_at = xd_created_at draw, t_deleted_at = None, t_is_sandbox = True\<rparr>"

text \<open>The two transactions of a provisioning with fresh identifiers.\<close>

lemma sandbox_provision_run:
  assumes "fresh_sandbox draw (st_db st)"
  shows "\<exists>k st' r.
    api_key_issue (xd_key draw) (xd_tenant_id draw) SANDBOX_SCOPES (Some (sandbox_expiry cfg (xd_now draw)))
        (st\<lparr>st_db := (st_db st)\<lparr>db_tenants := db_tenants (st_db st) @ [sandbox_tenant draw]\<rparr>\<rparr>) =
      (Inr (k, sp_plaintext_key r), st') \<and>
    sandbox_provision cfg (xd_now draw) (xd_tenant_id draw) (xd_created_at draw) (xd_name draw) (xd_key draw) st =
      (Inr r, st') \<and>
    sp_tenant r = sandbox_tenant draw \<and> sp_expires_at r = sandbox_expiry cfg (xd_now draw)"
proof -
  let ?st = "st\<lparr>st_db := (st_db st)\<lparr>db_tenants := db_tenants (st_db st) @ [sandbox_tenant draw]\<rparr>\<rparr>"
  have t: "with_uow (bindT (repoT (tenants_create (xd_tenant_id draw) (xd_created_at draw)
        (''sandbox-'' @ take 8 (uuid_hex (xd_name draw))) True)) (\<lambda>t. bindT uow_commit (\<lambda>_. returnT t))) st =
      (Inr (sandbox_tenant draw), ?st)"
    using assms unfolding with_uow_repo_commit [where f = "\<lambda>x. x"]
    by (simp add: tenants_create_def Let_def fresh_sandbox_def sandbox_tenant_def)
  have "\<exists>k st'. api_key_issue (xd_key draw) (xd_tenant_id draw) SANDBOX_SCOPES
      (Some (sandbox_expiry cfg (xd_now draw))) ?st = (Inr (k, plaintext (xd_key draw)), st')"
    using assms by (simp add: api_key_issue_run fresh_sandbox_def sandbox_tenant_def)
  then obtain k st' where i: "api_key_issue (xd_key draw) (xd_tenant_id draw) SANDBOX_SCOPES
      (Some (sandbox_expiry cfg (xd_now draw))) ?st = (Inr (k, plaintext (xd_key draw)), st')" by blast
  let ?r = "\<lparr>sp_tenant = sandbox_tenant draw, sp_api_key = k, sp_plaintext_key = plaintext (xd_key draw),
     sp_expires_at = sandbox_expiry cfg (xd_now draw),
     sp_quotas = \<lparr>sq_max_endpoints = sandbox_max_endpoints cfg, sq_max_events = sandbox_max_events cfg,
       sq_rate_limit_requests_per_second = sandbox_rate_limit_requests_per_second cfg,
       sq_ttl_minutes = sandbox_ttl_minutes cfg\<rparr>\<rparr>"
  have "t_id (sandbox_tenant draw) = xd_tenant_id draw" by (simp add: sandbox_tenant_def)
  then have "sandbox_provision cfg (xd_now draw) (xd_tenant_id draw) (xd_created_at draw) (xd_name draw)
      (xd_key draw) st = (Inr ?r, st')"
    unfolding sandbox_provision_def t using i by simp
  with i show ?thesis by (intro exI [of _ k] exI [of _ st'] exI [of _ ?r]) simp
qed

lemma create_sandbox_run:
  "create_sandbox cfg clk draw host w =
     (let ip = uuid5 SANDBOX_IP_NAMESPACE (client_ip host) in
      case allow (aw_buckets w ip) (sandbox_creation_rate_limit_requests_per_second cfg)
             (sandbox_creation_rate_limit_burst cfg) 1 (rc_time clk) (rc_server_time clk) of
        (d, b) \<Rightarrow>
          let w1 = w\<lparr>aw_buckets := (aw_buckets w)(ip := Some b)\<rparr> in
          if \<not> rl_allowed d then (Inl (RateLimitExceeded (rl_retry_after_seconds d)), w1)
          else (case sandbox_provision cfg (xd_now draw) (xd_tenant_id draw) (xd_created_at draw) (xd_name draw)
                       (xd_key draw) (w_store (aw_world w)) of
              (Inl e, st) \<Rightarrow> (Inl e, w1\<lparr>aw_world := (aw_world w)\<lparr>w_store := st\<rparr>\<rparr>)
            | (Inr p, st) \<Rightarrow> (Inr (sandbox_created_from_result p), w1\<lparr>aw_world := (aw_world w)\<lparr>w_store := st\<rparr>\<rparr>)))"
  unfolding create_sandbox_def Let_def bindA_rate_limit
  by (auto simp: bindA_def serviceA_def raiseA_def returnA_def split: prod.split sum.split)

text \<open>What the key of a provisioned sandbox opens, and until when.\<close>

lemma provisioned_key_auth:
  assumes "keys_hashed (st_db st)" and "fresh_sandbox draw (st_db st)"
    and p: "api_key_issue (xd_key draw) (xd_tenant_id draw) SANDBOX_SCOPES
        (Some (sandbox_expiry cfg (xd_now draw)))
        (st\<lparr>st_db := (st_db st)\<lparr>db_tenants := db_tenants (st_db st) @ [sandbox_tenant draw]\<rparr>\<rparr>) =
      (Inr (k, key), st')"
  shows "k_tenant_id k = xd_tenant_id draw"
    and "require_scope scope now (Some key) st' =
      (if sandbox_expiry cfg (xd_now draw) \<le> now then Inl unauthorized
       else if scope \<in> set SANDBOX_SCOPES then Inr \<lparr>ac_tenant = sandbox_tenant draw, ac_api_key = k\<rparr>
       else Inl (HTTPException 403 ''insufficient scope''), st')"
proof -
  let ?s = "(st_db st)\<lparr>db_tenants := db_tenants (st_db st) @ [sandbox_tenant draw]\<rparr>"
  have "keys_hashed ?s" using assms(1) by (simp add: keys_hashed_def)
  moreover have "tenants_get (xd_tenant_id draw) ?s = Some (sandbox_tenant draw)"
    using assms(2) unfolding fresh_sandbox_def
    by (simp add: tenants_get_def find_by_append sandbox_tenant_def find_by_None_iff [THEN iffD2])
  moreover have "\<not> is_deleted (sandbox_tenant draw)" by (simp add: is_deleted_def sandbox_tenant_def)
  moreover have "WILDCARD_SCOPE \<notin> set SANDBOX_SCOPES" by (simp add: WILDCARD_SCOPE_def SANDBOX_SCOPES_def)
  ultimately show "require_scope scope now (Some key) st' =
      (if sandbox_expiry cfg (xd_now draw) \<le> now then Inl unauthorized
       else if scope \<in> set SANDBOX_SCOPES then Inr \<lparr>ac_tenant = sandbox_tenant draw, ac_api_key = k\<rparr>
       else Inl (HTTPException 403 ''insufficient scope''), st')"
    using issued_key_auth(1) [OF _ _ _ _ _ _ p] assms(2) by (simp add: fresh_sandbox_def)
  show "k_tenant_id k = xd_tenant_id draw"
    using p by (auto simp: api_key_issue_run new_key_def split: if_splits)
qed

text \<open>
  C23. A sandbox works from the moment it is created until it expires, and no longer: with fresh
  identifiers the only way \<open>POST /v1/sandbox\<close> is refused is by its rate limit, and then it changes
  nothing but the bucket of the client's address; otherwise the returned key authenticates every
  request for the sandbox's scopes as the new sandbox tenant up to the returned expiry, is refused
  any other scope, and from the expiry on is refused with the 401 of an unknown key.
\<close>

theorem sandbox_lives_exactly_its_ttl:
  assumes "keys_hashed (api_db w)" and "fresh_sandbox draw (api_db w)"
    and "create_sandbox cfg clk draw host w = (r, w')"
  shows "case r of
      Inl e \<Rightarrow> (\<exists>s. e = RateLimitExceeded s) \<and> aw_world w' = aw_world w \<and>
        (\<forall>key. key \<noteq> uuid5 SANDBOX_IP_NAMESPACE (client_ip host) \<longrightarrow> aw_buckets w' key = aw_buckets w key)
    | Inr c \<Rightarrow>
        sc_tenant_id c = xd_tenant_id draw \<and>
        sc_expires_at c = xd_now draw + 60000000 * int (sandbox_ttl_minutes cfg) \<and>
        (\<exists>k. k_tenant_id k = sc_tenant_id c \<and>
          (\<forall>scope now. require_scope scope now (Some (sc_api_key c)) (w_store (aw_world w')) =
            (if sc_expires_at c \<le> now then Inl (HTTPException 401 ''missing or invalid API key'')
             else if scope \<in> set SANDBOX_SCOPES then Inr \<lparr>ac_tenant = sandbox_tenant draw, ac_api_key = k\<rparr>
             else Inl (HTTPException 403 ''insufficient scope''), w_store (aw_world w'))))"
proof -
  let ?ip = "uuid5 SANDBOX_IP_NAMESPACE (client_ip host)"
  obtain d b where b: "allow (aw_buckets w ?ip) (sandbox_creation_rate_limit_requests_per_second cfg)
      (sandbox_creation_rate_limit_burst cfg) 1 (rc_time clk) (rc_server_time clk) = (d, b)" by fastforce
  let ?w = "w\<lparr>aw_buckets := (aw_buckets w)(?ip := Some b)\<rparr>" let ?st = "w_store (aw_world w)"
  have db: "st_db ?st = api_db w" by (simp add: api_db_def)
  obtain k st' p where p: "api_key_issue (xd_key draw) (xd_tenant_id draw) SANDBOX_SCOPES
        (Some (sandbox_expiry cfg (xd_now draw)))
        (?st\<lparr>st_db := (st_db ?st)\<lparr>db_tenants := db_tenants (st_db ?st) @ [sandbox_tenant draw]\<rparr>\<rparr>) =
      (Inr (k, sp_plaintext_key p), st')"
    "sandbox_provision cfg (xd_now draw) (xd_tenant_id draw) (xd_created_at draw) (xd_name draw) (xd_key draw) ?st =
      (Inr p, st')"
    "sp_tenant p = sandbox_tenant draw" "sp_expires_at p = sandbox_expiry cfg (xd_now draw)"
    using sandbox_provision_run [of draw ?st cfg] assms(2) unfolding db by blast
  have run: "(r, w') = (if rl_allowed d
      then (Inr (sandbox_created_from_result p), ?w\<lparr>aw_world := (aw_world w)\<lparr>w_store := st'\<rparr>\<rparr>)
      else (Inl (RateLimitExceeded (rl_retry_after_seconds d)), ?w))"
    using assms(3) p(2)
    by (simp add: create_sandbox_run Let_def b split: if_splits)
  show ?thesis
  proof (cases "rl_allowed d")
    case False
    then show ?thesis using run by simp
  next
    case True
    then show ?thesis
      using run p(3,4) provisioned_key_auth [OF _ _ p(1)] assms(1,2)
      by (auto simp: db sandbox_created_from_result_def unauthorized_def INVALID_KEY_DETAIL_def
          sandbox_expiry_def sandbox_tenant_def intro!: exI [of _ k])
  qed
qed

definition demo_sandbox :: sandbox_draw where
  "demo_sandbox = \<lparr>xd_now = 5, xd_tenant_id = 9, xd_created_at = 5, xd_name = 0,
     xd_key = \<lparr>kd_id = 8, kd_now = 5, kd_prefix_bytes = [1], kd_secret_bytes = [2], kd_salt = []\<rparr>\<rparr>"

definition empty_api_world :: api_world where
  "empty_api_world = \<lparr>aw_world = \<lparr>w_store = store_of empty_db, w_stream = empty_stream, w_retries = [], w_feed = []\<rparr>,
     aw_buckets = (\<lambda>_. None)\<rparr>"

lemma sandbox_lives_exactly_its_ttl_witness:
  "\<exists>c w' k. create_sandbox default_settings \<lparr>rc_now = 5, rc_time = 1, rc_server_time = 1\<rparr> demo_sandbox None empty_api_world = (Inr c, w') \<and>
     fst (require_scope ''dlq:read'' 6 (Some (sc_api_key c)) (w_store (aw_world w'))) =
       Inr \<lparr>ac_tenant = sandbox_tenant demo_sandbox, ac_api_key = k\<rparr>"
proof -
  let ?clk = "\<lparr>rc_now = 5, rc_time = 1, rc_server_time = 1\<rparr>"
  obtain r w' where run: "create_sandbox default_settings ?clk demo_sandbox None empty_api_world = (r, w')" by fastforce
  have ok: "keys_hashed (api_db empty_api_world)" "fresh_sandbox demo_sandbox (api_db empty_api_world)"
    by (simp_all add: keys_hashed_def fresh_sandbox_def api_db_def empty_api_world_def store_of_def empty_db_def demo_sandbox_def)
  note t = sandbox_lives_exactly_its_ttl [OF ok run]
  obtain b where b: "allow None (1 / 20) 3 1 1 1 = (\<lparr>rl_allowed = True, rl_retry_after_seconds = 0, rl_remaining_tokens = 2\<rparr>, b)"
    by (simp add: allow_level Let_def level_def refill_def bucket_read_def)
  have cfg: "sandbox_creation_rate_limit_requests_per_second default_settings = 1 / 20"
      "sandbox_creation_rate_limit_burst default_settings = 3" "aw_buckets empty_api_world = (\<lambda>_. None)"
    by (simp_all add: default_settings_def empty_api_world_def)
  have "\<exists>c. r = Inr c"
    using run sandbox_provision_run [of demo_sandbox "w_store (aw_world empty_api_world)" default_settings] ok(2)
    by (auto simp: create_sandbox_run Let_def cfg b api_db_def split: sum.splits prod.splits)
  then obtain c where c: "r = Inr c" by blast
  have "sc_expires_at c = 5 + 60000000 * 60"
    using t c by (simp add: demo_sandbox_def default_settings_def)
  then show ?thesis using t c run by (auto simp: SANDBOX_SCOPES_def)
qed

end
