(* ===== verification/Sse.thy ===== *)
theory Sse
  imports AttemptEvents
begin

section \<open>The live feed as server-sent events\<close>

text \<open>
  \<open>_with_heartbeat\<close> and \<open>_event_stream\<close> of \<open>relay/api/v1/sandbox/router.py\<close>. A source is what its
  iterator yields with the time each payload arrives, and the time it ends; a run starts at \<open>now\<close> and
  its consumer takes every frame at once. A frame carries the time it is sent. The loop waits for the
  pending payload at most \<open>_SSE_HEARTBEAT_SECONDS\<close>, and keeps waiting for the same one after a
  heartbeat.
\<close>

definition SSE_HEARTBEAT_SECONDS :: rat where "SSE_HEARTBEAT_SECONDS = 15"

definition data_frame :: "string \<Rightarrow> string" where
  "data_frame payload = ''data: '' @ payload @ [CHR 10, CHR 10]"

definition keep_alive :: string where
  "keep_alive = '': keep-alive'' @ [CHR 10, CHR 10]"

text \<open>The time that is waited for; each heartbeat brings it 15 seconds nearer, so the loop ends.\<close>

definition awaited :: "(rat \<times> string) list \<Rightarrow> rat \<Rightarrow> rat" where
  "awaited source ends = (case source of [] \<Rightarrow> ends | (t, _) # _ \<Rightarrow> t)"

lemma nearer: "\<not> t \<le> now + 15 \<Longrightarrow> \<lceil>t - (now + 15)\<rceil> < \<lceil>t - now\<rceil>" for t now :: rat
proof -
  assume a: "\<not> t \<le> now + 15"
  have "\<lceil>t - (now + 15)\<rceil> = \<lceil>t - now\<rceil> - 15"
    using ceiling_diff_of_int [of "t - now" 15] by (simp add: algebra_simps)
  then show ?thesis by linarith
qed

function with_heartbeat :: "rat \<Rightarrow> (rat \<times> string) list \<Rightarrow> rat \<Rightarrow> (rat \<times> string) list" where
  "with_heartbeat now [] ends =
     (if ends \<le> now + SSE_HEARTBEAT_SECONDS then []
      else (now + SSE_HEARTBEAT_SECONDS, keep_alive) # with_heartbeat (now + SSE_HEARTBEAT_SECONDS) [] ends)"
| "with_heartbeat now ((t, payload) # source) ends =
     (if t \<le> now + SSE_HEARTBEAT_SECONDS
      then (max now t, data_frame payload) # with_heartbeat (max now t) source ends
      else (now + SSE_HEARTBEAT_SECONDS, keep_alive)
             # with_heartbeat (now + SSE_HEARTBEAT_SECONDS) ((t, payload) # source) ends)"
  by pat_completeness auto
termination
  by (relation "measures [\<lambda>(now, source, ends). length source,
        \<lambda>(now, source, ends). nat \<lceil>awaited source ends - now\<rceil>]")
     (auto simp: awaited_def SSE_HEARTBEAT_SECONDS_def nearer)

declare with_heartbeat.simps [simp del]

text \<open>What a subscription of the tenant's channel yields: the payloads published on it, as they arrive.\<close>

definition event_stream :: "rat \<Rightarrow> uuid \<Rightarrow> (rat \<times> string \<times> string) list \<Rightarrow> rat \<Rightarrow> (rat \<times> string) list" where
  "event_stream now tenant_id published ends =
     with_heartbeat now
       (concat (map (\<lambda>(t, p). map (Pair t) (subscribe_attempt_events tenant_id [p])) published)) ends"

subsection \<open>What a client reads\<close>

text \<open>
  The dispatch of an \<open>EventSource\<close>, for the lines these frames are made of: a comment is skipped, a
  \<open>data\<close> field is collected, and a blank line dispatches what was collected.
\<close>

fun split_lines :: "string \<Rightarrow> string \<Rightarrow> string list" where
  "split_lines line [] = []"
| "split_lines line (c # cs) = (if c = CHR 10 then rev line # split_lines [] cs else split_lines (c # line) cs)"

fun dispatch :: "string option \<Rightarrow> string list \<Rightarrow> string list" where
  "dispatch buf [] = []"
| "dispatch buf (l # ls) =
     (if l = [] then (case buf of None \<Rightarrow> dispatch None ls | Some d \<Rightarrow> d # dispatch None ls)
      else if take 6 l = ''data: ''
      then dispatch (Some (case buf of None \<Rightarrow> drop 6 l | Some d \<Rightarrow> d @ [CHR 10] @ drop 6 l)) ls
      else dispatch buf ls)"

definition received :: "string \<Rightarrow> string list" where
  "received s = dispatch None (split_lines [] s)"

lemma split_lines_line: "CHR 10 \<notin> set s \<Longrightarrow> split_lines acc (s @ CHR 10 # rest) = (rev acc @ s) # split_lines [] rest"
  by (induction s arbitrary: acc) auto

lemma received_data: "CHR 10 \<notin> set p \<Longrightarrow> received (data_frame p @ rest) = p # received rest"
  using split_lines_line [of "''data: '' @ p" "[]" "CHR 10 # rest"]
  by (simp add: received_def data_frame_def)

lemma received_keep_alive: "received (keep_alive @ rest) = received rest"
  using split_lines_line [of "'': keep-alive''" "[]" "CHR 10 # rest"]
  by (simp add: received_def keep_alive_def)

lemma received_Nil: "received [] = []"
  by (simp add: received_def)

lemma received_run:
  "\<forall>(t, p) \<in> set source. CHR 10 \<notin> set p \<Longrightarrow>
   received (concat (map snd (with_heartbeat now source ends))) = map snd source"
proof (induction now source ends rule: with_heartbeat.induct)
  case (1 now ends)
  then show ?case
    by (simp add: with_heartbeat.simps(1) [of now] received_keep_alive received_Nil)
next
  case (2 now t payload source ends)
  then show ?case
    by (simp add: with_heartbeat.simps(2) [of now] received_data received_keep_alive)
qed

text \<open>The rendered events hold no line break, because JSON strings escape it.\<close>

lemma hex_no_newline: "CHR 10 \<notin> set (byte_hex b)"
  using hex_codes [of "CHR 10" "[b]"] by (auto simp: hex_def)

lemma json_string_no_newline: "CHR 10 \<notin> set (json_string s)"
  using hex_no_newline by (auto simp: json_string_def json_escape_char_def Let_def)

lemma join_with_no_newline:
  "CHR 10 \<notin> set sep \<Longrightarrow> \<forall>x \<in> set xs. CHR 10 \<notin> set x \<Longrightarrow> CHR 10 \<notin> set (join_with sep xs)"
  by (induction sep xs rule: join_with.induct) auto

lemma decimal_no_newline: "CHR 10 \<notin> set (decimal i)"
  using decimal_chars [of "CHR 10" i] by (auto simp: is_digit_def)

lemma json_dumps_no_newline:
  "(\<And>r. CHR 10 \<notin> set (frepr r)) \<Longrightarrow> CHR 10 \<notin> set (json_dumps frepr j)"
proof (induction j)
  case (JArr xs)
  then have "CHR 10 \<notin> set (join_with '', '' (map (json_dumps frepr) xs))"
    by (intro join_with_no_newline) auto
  then show ?case by simp
next
  case (JObj fs)
  have "CHR 10 \<notin> set (json_string k @ '': '' @ json_dumps frepr v)" if "(k, v) \<in> set fs" for k v
    using JObj.IH [OF that] JObj.prems json_string_no_newline [of k] by (auto simp: snds.simps)
  then have "CHR 10 \<notin> set (join_with '', '' (map (\<lambda>(k, v). json_string k @ '': '' @ json_dumps frepr v) fs))"
    by (intro join_with_no_newline) auto
  then show ?case by simp
qed (simp_all add: json_string_no_newline decimal_no_newline)

lemma to_json_no_newline: "CHR 10 \<notin> set (to_json e)"
  by (simp add: to_json_def json_dumps_no_newline)

lemma stream_source:
  "concat (map (\<lambda>(t, p). map (Pair t) (subscribe_attempt_events u [p]))
      (map (\<lambda>(t, v, e). (t, publish_attempt_event v e)) es)) =
   map (\<lambda>(t, v, e). (t, to_json e)) (filter (\<lambda>(t, v, e). v = u) es)"
  by (induction es)
     (auto simp: subscribe_attempt_events_def pubsub_listen_def publish_attempt_event_def)

subsection \<open>Properties\<close>

text \<open>
  C32. What the console reads is what was published: the events an \<open>EventSource\<close> dispatches from the
  stream of a tenant are exactly the renderings of that tenant's events, each once and in order,
  however the heartbeats fall between them; none of another tenant's is among them.
\<close>

theorem live_feed_reaches_the_client:
  "received (concat (map snd (event_stream now u (map (\<lambda>(t, v, e). (t, publish_attempt_event v e)) es) ends))) =
     map (\<lambda>(t, v, e). to_json e) (filter (\<lambda>(t, v, e). v = u) es)"
proof -
  have "\<forall>(t, p) \<in> set (map (\<lambda>(t, v, e). (t, to_json e)) (filter (\<lambda>(t, v, e). v = u) es)). CHR 10 \<notin> set p"
    using to_json_no_newline by auto
  from received_run [OF this] show ?thesis
    unfolding event_stream_def stream_source by (simp add: split_beta comp_def)
qed

text \<open>Every frame follows the one before it within the heartbeat, and the end follows the last.\<close>

fun gaps_ok :: "rat \<Rightarrow> rat list \<Rightarrow> rat \<Rightarrow> bool" where
  "gaps_ok now [] ends \<longleftrightarrow> ends \<le> now + SSE_HEARTBEAT_SECONDS"
| "gaps_ok now (t # ts) ends \<longleftrightarrow> now \<le> t \<and> t \<le> now + SSE_HEARTBEAT_SECONDS \<and> gaps_ok t ts ends"

text \<open>
  C33. The feed is never silent: from the start of the stream to its end no two consecutive frames are
  more than the heartbeat apart, a payload is sent at the moment it arrives, so that a heartbeat
  never delays or drops one, and the generator ends when its source does.
\<close>

theorem feed_is_never_silent:
  assumes "sorted (now # map fst source)" and "last (now # map fst source) \<le> ends"
  shows "gaps_ok now (map fst (with_heartbeat now source ends)) ends \<and>
    filter (\<lambda>f. snd f \<noteq> keep_alive) (with_heartbeat now source ends) =
      map (\<lambda>(t, p). (t, data_frame p)) source"
  using assms
proof (induction now source ends rule: with_heartbeat.induct)
  case (1 now ends)
  then show ?case
    by (simp add: with_heartbeat.simps(1) [of now] SSE_HEARTBEAT_SECONDS_def)
next
  case (2 now t payload source ends)
  have d: "data_frame payload \<noteq> keep_alive" by (simp add: data_frame_def keep_alive_def)
  have le: "now \<le> t" "max now t = t" using 2(3) by simp_all
  show ?case
  proof (cases "t \<le> now + SSE_HEARTBEAT_SECONDS")
    case True
    then show ?thesis using 2 le d by (simp add: with_heartbeat.simps(2) [of now])
  next
    case False
    then have "sorted ((now + SSE_HEARTBEAT_SECONDS) # map fst ((t, payload) # source))" using 2(3) by auto
    then show ?thesis using 2(2) [OF False] 2(4) False
      by (simp add: with_heartbeat.simps(2) [of now] SSE_HEARTBEAT_SECONDS_def)
  qed
qed

lemma feed_is_never_silent_witness:
  "gaps_ok 0 (map fst (with_heartbeat 0 [(20, ''a''), (21, ''b'')] 40)) 40 \<and>
   filter (\<lambda>f. snd f \<noteq> keep_alive) (with_heartbeat 0 [(20, ''a''), (21, ''b'')] 40) =
     [(20, data_frame ''a''), (21, data_frame ''b'')]"
  using feed_is_never_silent [of 0 "[(20, ''a''), (21, ''b'')]" 40] by simp

end
