(* ===== verification/Rows.thy ===== *)
theory Rows
  imports Store
begin

section \<open>The rows behind the entities\<close>

text \<open>
  The SQLAlchemy models of \<open>relay/repositories/*/models.py\<close> with their columns as stored (the enums
  are text), the \<open>_to_domain\<close> of each repository, which parses them, and the columns the repositories
  write. The tables of the store component hold what \<open>_to_domain\<close> makes of these rows; here is why
  that loses nothing. \<open>E(text)\<close> of a \<open>StrEnum\<close> raises \<open>ValueError\<close> for a text that is no member's
  value.
\<close>

definition enum_of :: "('e \<Rightarrow> string) \<Rightarrow> 'e list \<Rightarrow> string \<Rightarrow> error + 'e" where
  "enum_of value members s =
     (case List.find (\<lambda>m. value m = s) members of None \<Rightarrow> Inl (ValueError s) | Some m \<Rightarrow> Inr m)"

definition DELIVERY_STATES :: "delivery_state list" where
  "DELIVERY_STATES = [PENDING, DELIVERED, RETRYING, DEAD]"
definition ERROR_CLASSES :: "attempt_error_class list" where
  "ERROR_CLASSES = [HTTP_ERROR, TIMEOUT, CONNECTION_ERROR, SSRF_BLOCKED]"
definition ENDPOINT_STATUSES :: "endpoint_status list" where
  "ENDPOINT_STATUSES = [ACTIVE, DISABLED]"
definition BREAKER_STATES :: "breaker_state list" where
  "BREAKER_STATES = [CLOSED, OPEN, HALF_OPEN]"
definition OUTBOX_STATUSES :: "outbox_status list" where
  "OUTBOX_STATUSES = [OUTBOX_PENDING, OUTBOX_PROCESSED]"

fun outbox_status_value :: "outbox_status \<Rightarrow> string" where
  "outbox_status_value OUTBOX_PENDING = ''pending''"
| "outbox_status_value OUTBOX_PROCESSED = ''processed''"

subsection \<open>Tenants, keys and events\<close>

record tenant_model =
  tm_id :: uuid
  tm_name :: string
  tm_created_at :: timestamp
  tm_deleted_at :: "timestamp option"
  tm_is_sandbox :: bool

definition tenant_to_domain :: "tenant_model \<Rightarrow> tenant" where
  "tenant_to_domain m =
     \<lparr>t_id = tm_id m, t_name = tm_name m, t_created_at = tm_created_at m, t_deleted_at = tm_deleted_at m,
      t_is_sandbox = tm_is_sandbox m\<rparr>"

record api_key_model =
  km_id :: uuid
  km_tenant_id :: uuid
  km_key_hash :: string
  km_key_prefix :: string
  km_scopes :: "string list"
  km_revoked_at :: "timestamp option"
  km_expires_at :: "timestamp option"
  km_created_at :: timestamp

definition api_key_to_domain :: "api_key_model \<Rightarrow> api_key" where
  "api_key_to_domain m =
     \<lparr>k_id = km_id m, k_tenant_id = km_tenant_id m, k_key_hash = km_key_hash m,
      k_key_prefix = km_key_prefix m, k_scopes = km_scopes m, k_created_at = km_created_at m,
      k_revoked_at = km_revoked_at m, k_expires_at = km_expires_at m\<rparr>"

record event_model =
  em_id :: uuid
  em_tenant_id :: uuid
  em_type :: string
  em_payload :: json
  em_idempotency_key :: string
  em_created_at :: timestamp
  em_correlation_id :: "string option"

definition event_to_domain :: "event_model \<Rightarrow> event" where
  "event_to_domain m =
     \<lparr>ev_id = em_id m, ev_tenant_id = em_tenant_id m, ev_type = em_type m, ev_payload = em_payload m,
      ev_idempotency_key = em_idempotency_key m, ev_created_at = em_created_at m,
      ev_correlation_id = em_correlation_id m\<rparr>"

subsection \<open>Endpoints\<close>

record endpoint_model =
  pm_id :: uuid
  pm_tenant_id :: uuid
  pm_url :: string
  pm_secret :: string
  pm_subscribed_event_types :: "string list"
  pm_status :: string
  pm_breaker_state :: string
  pm_opened_at :: "timestamp option"
  pm_consecutive_failures :: nat
  pm_created_at :: timestamp

definition endpoint_to_domain :: "endpoint_model \<Rightarrow> error + endpoint" where
  "endpoint_to_domain m =
     res_bind (enum_of endpoint_status_value ENDPOINT_STATUSES (pm_status m)) (\<lambda>status.
     res_bind (enum_of breaker_state_value BREAKER_STATES (pm_breaker_state m)) (\<lambda>breaker.
     Inr \<lparr>ep_id = pm_id m, ep_tenant_id = pm_tenant_id m, ep_url = pm_url m, ep_secret = pm_secret m,
          ep_event_types = pm_subscribed_event_types m, ep_created_at = pm_created_at m, ep_status = status,
          ep_breaker_state = breaker, ep_opened_at = pm_opened_at m,
          ep_consecutive_failures = pm_consecutive_failures m\<rparr>))"

definition endpoint_model_created ::
  "uuid \<Rightarrow> timestamp \<Rightarrow> uuid \<Rightarrow> string \<Rightarrow> string \<Rightarrow> string list \<Rightarrow> endpoint_model" where
  "endpoint_model_created new_id now tenant_id url secret types =
     \<lparr>pm_id = new_id, pm_tenant_id = tenant_id, pm_url = url, pm_secret = secret,
      pm_subscribed_event_types = types, pm_status = ''active'', pm_breaker_state = ''closed'',
      pm_opened_at = None, pm_consecutive_failures = 0, pm_created_at = now\<rparr>"

definition write_outcome :: "breaker_state \<Rightarrow> nat \<Rightarrow> timestamp option \<Rightarrow> endpoint_model \<Rightarrow> endpoint_model" where
  "write_outcome breaker failures opened_at m =
     m\<lparr>pm_breaker_state := breaker_state_value breaker, pm_consecutive_failures := failures,
       pm_opened_at := opened_at\<rparr>"

definition write_breaker :: "breaker_state \<Rightarrow> timestamp option \<Rightarrow> endpoint_model \<Rightarrow> endpoint_model" where
  "write_breaker breaker opened_at m =
     m\<lparr>pm_breaker_state := breaker_state_value breaker, pm_opened_at := opened_at\<rparr>"

definition write_changes ::
  "string option \<Rightarrow> string list option \<Rightarrow> endpoint_status option \<Rightarrow> endpoint_model \<Rightarrow> endpoint_model" where
  "write_changes url types status m =
     (let m1 = (case url of None \<Rightarrow> m | Some u \<Rightarrow> m\<lparr>pm_url := u\<rparr>);
          m2 = (case types of None \<Rightarrow> m1 | Some ts \<Rightarrow> m1\<lparr>pm_subscribed_event_types := ts\<rparr>)
      in (case status of None \<Rightarrow> m2 | Some st \<Rightarrow> m2\<lparr>pm_status := endpoint_status_value st\<rparr>))"

subsection \<open>Outbox\<close>

record outbox_model =
  om_id :: uuid
  om_event_id :: uuid
  om_status :: string
  om_attempts :: nat
  om_locked_at :: "timestamp option"
  om_created_at :: timestamp

definition outbox_to_domain :: "outbox_model \<Rightarrow> error + outbox_entry" where
  "outbox_to_domain m =
     res_bind (enum_of outbox_status_value OUTBOX_STATUSES (om_status m)) (\<lambda>status.
     Inr \<lparr>ob_id = om_id m, ob_event_id = om_event_id m, ob_status = status, ob_attempts = om_attempts m,
          ob_created_at = om_created_at m, ob_locked_at = om_locked_at m\<rparr>)"

definition outbox_model_created :: "uuid \<Rightarrow> timestamp \<Rightarrow> uuid \<Rightarrow> outbox_model" where
  "outbox_model_created new_id now event_id =
     \<lparr>om_id = new_id, om_event_id = event_id, om_status = ''pending'', om_attempts = 0,
      om_locked_at = None, om_created_at = now\<rparr>"

definition write_claimed :: "timestamp \<Rightarrow> outbox_model \<Rightarrow> outbox_model" where
  "write_claimed now m = m\<lparr>om_locked_at := Some now, om_attempts := om_attempts m + 1\<rparr>"

definition write_processed :: "outbox_model \<Rightarrow> outbox_model" where
  "write_processed m = m\<lparr>om_status := outbox_status_value OUTBOX_PROCESSED\<rparr>"

subsection \<open>Deliveries and attempts\<close>

record delivery_model =
  dm_id :: uuid
  dm_event_id :: uuid
  dm_endpoint_id :: uuid
  dm_state :: string
  dm_attempt_count :: nat
  dm_next_retry_at :: "timestamp option"
  dm_created_at :: timestamp

definition delivery_to_domain :: "delivery_model \<Rightarrow> error + delivery" where
  "delivery_to_domain m =
     res_bind (enum_of delivery_state_value DELIVERY_STATES (dm_state m)) (\<lambda>state.
     Inr \<lparr>d_id = dm_id m, d_event_id = dm_event_id m, d_endpoint_id = dm_endpoint_id m, d_state = state,
          d_attempt_count = dm_attempt_count m, d_created_at = dm_created_at m,
          d_next_retry_at = dm_next_retry_at m\<rparr>)"

definition delivery_model_created :: "uuid \<Rightarrow> timestamp \<Rightarrow> uuid \<Rightarrow> uuid \<Rightarrow> delivery_model" where
  "delivery_model_created new_id now event_id endpoint_id =
     \<lparr>dm_id = new_id, dm_event_id = event_id, dm_endpoint_id = endpoint_id, dm_state = ''pending'',
      dm_attempt_count = 0, dm_next_retry_at = None, dm_created_at = now\<rparr>"

definition write_delivered :: "delivery_model \<Rightarrow> delivery_model" where
  "write_delivered m =
     m\<lparr>dm_state := delivery_state_value DELIVERED, dm_attempt_count := dm_attempt_count m + 1,
       dm_next_retry_at := None\<rparr>"

definition write_retrying :: "timestamp \<Rightarrow> delivery_model \<Rightarrow> delivery_model" where
  "write_retrying next_retry_at m =
     m\<lparr>dm_state := delivery_state_value RETRYING, dm_attempt_count := dm_attempt_count m + 1,
       dm_next_retry_at := Some next_retry_at\<rparr>"

definition write_dead :: "delivery_model \<Rightarrow> delivery_model" where
  "write_dead m =
     m\<lparr>dm_state := delivery_state_value DEAD, dm_attempt_count := dm_attempt_count m + 1,
       dm_next_retry_at := None\<rparr>"

definition write_rescheduled :: "timestamp \<Rightarrow> delivery_model \<Rightarrow> delivery_model" where
  "write_rescheduled next_retry_at m =
     m\<lparr>dm_state := delivery_state_value RETRYING, dm_next_retry_at := Some next_retry_at\<rparr>"

definition write_replayed :: "delivery_model \<Rightarrow> delivery_model" where
  "write_replayed m =
     m\<lparr>dm_state := delivery_state_value PENDING, dm_attempt_count := 0, dm_next_retry_at := None\<rparr>"

record delivery_attempt_model =
  am_id :: uuid
  am_delivery_id :: uuid
  am_attempt_no :: nat
  am_latency_ms :: int
  am_response_status :: "int option"
  am_error_class :: "string option"
  am_request_snippet :: "string option"
  am_response_snippet :: "string option"
  am_request_headers :: "(string \<times> string) list option"
  am_created_at :: timestamp

definition delivery_attempt_to_domain :: "delivery_attempt_model \<Rightarrow> error + delivery_attempt" where
  "delivery_attempt_to_domain m =
     res_bind (case am_error_class m of
                 None \<Rightarrow> Inr None
               | Some c \<Rightarrow> if c = [] then Inr None
                           else res_bind (enum_of error_class_value ERROR_CLASSES c) (\<lambda>e. Inr (Some e))) (\<lambda>error_class.
     Inr \<lparr>a_id = am_id m, a_delivery_id = am_delivery_id m, a_attempt_no = am_attempt_no m,
          a_latency_ms = am_latency_ms m, a_created_at = am_created_at m,
          a_response_status = am_response_status m, a_error_class = error_class,
          a_request_snippet = am_request_snippet m, a_response_snippet = am_response_snippet m,
          a_request_headers = am_request_headers m\<rparr>)"

definition delivery_attempt_model_created ::
  "uuid \<Rightarrow> timestamp \<Rightarrow> uuid \<Rightarrow> nat \<Rightarrow> int \<Rightarrow> int option \<Rightarrow> attempt_error_class option \<Rightarrow> string option \<Rightarrow>
   string option \<Rightarrow> (string \<times> string) list option \<Rightarrow> delivery_attempt_model" where
  "delivery_attempt_model_created new_id now delivery_id attempt_no latency_ms response_status error_class
     request_snippet response_snippet request_headers =
     \<lparr>am_id = new_id, am_delivery_id = delivery_id, am_attempt_no = attempt_no, am_latency_ms = latency_ms,
      am_response_status = response_status, am_error_class = map_option error_class_value error_class,
      am_request_snippet = request_snippet, am_response_snippet = response_snippet,
      am_request_headers = request_headers, am_created_at = now\<rparr>"

subsection \<open>The stored tables and the writes to them\<close>

record raw_db =
  rw_tenants :: "tenant_model list"
  rw_api_keys :: "api_key_model list"
  rw_endpoints :: "endpoint_model list"
  rw_events :: "event_model list"
  rw_outbox :: "outbox_model list"
  rw_deliveries :: "delivery_model list"
  rw_attempts :: "delivery_attempt_model list"

datatype row_write =
    CreateTenant uuid timestamp string bool
  | CreateKey uuid timestamp uuid string string "string list" "timestamp option"
  | RevokeKey timestamp uuid
  | CreateEndpointRow uuid timestamp uuid string string "string list"
  | UpdateEndpointRow uuid "string option" "string list option" "endpoint_status option"
  | DeleteEndpointRow uuid
  | RecordOutcome uuid breaker_state nat "timestamp option"
  | SetBreaker uuid breaker_state "timestamp option"
  | CreateEventRow uuid timestamp uuid string json string "string option"
  | CreateOutboxRow uuid timestamp uuid
  | ClaimDue timestamp "uuid list" nat
  | MarkProcessed uuid
  | CreateDeliveryRow uuid timestamp uuid uuid
  | MarkDelivered uuid
  | MarkRetrying uuid timestamp
  | MarkDead uuid
  | Reschedule uuid timestamp
  | ResetForReplay uuid
  | CreateAttempt uuid timestamp uuid nat int "int option" "attempt_error_class option" "string option"
      "string option" "(string \<times> string) list option"

text \<open>Each write on the tables of the store component, by the repository's operation.\<close>

definition store_write :: "row_write \<Rightarrow> db \<Rightarrow> error + db" where
  "store_write w s =
     (case w of
        CreateTenant i now name sb \<Rightarrow> map_sum id snd (tenants_create i now name sb s)
      | CreateKey i now t h p scopes ex \<Rightarrow> map_sum id snd (api_keys_create i now t h p scopes ex s)
      | RevokeKey now i \<Rightarrow> map_sum id snd (api_keys_revoke now i s)
      | CreateEndpointRow i now t url secret types \<Rightarrow> map_sum id snd (endpoints_create i now t url secret types s)
      | UpdateEndpointRow i url types status \<Rightarrow> map_sum id snd (endpoints_update i url types status s)
      | DeleteEndpointRow i \<Rightarrow> map_sum id snd (endpoints_delete i s)
      | RecordOutcome i b n opened \<Rightarrow> map_sum id snd (endpoints_record_delivery_outcome i b n opened s)
      | SetBreaker i b opened \<Rightarrow> map_sum id snd (endpoints_set_breaker_state i b opened s)
      | CreateEventRow i now t ty p k c \<Rightarrow> map_sum id snd (events_create i now t ty p k c s)
      | CreateOutboxRow i now e \<Rightarrow> map_sum id snd (outbox_create i now e s)
      | ClaimDue now locked limit \<Rightarrow> Inr (snd (outbox_claim_due now locked limit s))
      | MarkProcessed i \<Rightarrow> map_sum id snd (outbox_mark_processed i s)
      | CreateDeliveryRow i now e p \<Rightarrow> map_sum id snd (deliveries_create i now e p s)
      | MarkDelivered i \<Rightarrow> map_sum id snd (deliveries_mark_delivered i s)
      | MarkRetrying i t \<Rightarrow> map_sum id snd (deliveries_mark_retrying i t s)
      | MarkDead i \<Rightarrow> map_sum id snd (deliveries_mark_dead i s)
      | Reschedule i t \<Rightarrow> map_sum id snd (deliveries_reschedule i t s)
      | ResetForReplay i \<Rightarrow> map_sum id snd (deliveries_reset_for_replay i s)
      | CreateAttempt i now d n l st ec rs ps rh \<Rightarrow>
          map_sum id snd (delivery_attempts_create i now d n l st ec rs ps rh s))"

text \<open>The same write on the rows, once the database's constraints have let it through.\<close>

definition raw_write :: "row_write \<Rightarrow> raw_db \<Rightarrow> raw_db" where
  "raw_write w R =
     (case w of
        CreateTenant i now name sb \<Rightarrow> R\<lparr>rw_tenants := rw_tenants R @
          [\<lparr>tm_id = i, tm_name = name, tm_created_at = now, tm_deleted_at = None, tm_is_sandbox = sb\<rparr>]\<rparr>
      | CreateKey i now t h p scopes ex \<Rightarrow> R\<lparr>rw_api_keys := rw_api_keys R @
          [\<lparr>km_id = i, km_tenant_id = t, km_key_hash = h, km_key_prefix = p, km_scopes = scopes,
            km_revoked_at = None, km_expires_at = ex, km_created_at = now\<rparr>]\<rparr>
      | RevokeKey now i \<Rightarrow> R\<lparr>rw_api_keys := update_by km_id i (\<lambda>m. m\<lparr>km_revoked_at := Some now\<rparr>) (rw_api_keys R)\<rparr>
      | CreateEndpointRow i now t url secret types \<Rightarrow>
          R\<lparr>rw_endpoints := rw_endpoints R @ [endpoint_model_created i now t url secret types]\<rparr>
      | UpdateEndpointRow i url types status \<Rightarrow>
          R\<lparr>rw_endpoints := update_by pm_id i (write_changes url types status) (rw_endpoints R)\<rparr>
      | DeleteEndpointRow i \<Rightarrow>
          R\<lparr>rw_endpoints := filter (\<lambda>m. pm_id m \<noteq> i) (rw_endpoints R),
            rw_deliveries := filter (\<lambda>m. dm_endpoint_id m \<noteq> i) (rw_deliveries R),
            rw_attempts := filter (\<lambda>m. am_delivery_id m \<notin>
              dm_id ` set (filter (\<lambda>m. dm_endpoint_id m = i) (rw_deliveries R))) (rw_attempts R)\<rparr>
      | RecordOutcome i b n opened \<Rightarrow> R\<lparr>rw_endpoints := update_by pm_id i (write_outcome b n opened) (rw_endpoints R)\<rparr>
      | SetBreaker i b opened \<Rightarrow> R\<lparr>rw_endpoints := update_by pm_id i (write_breaker b opened) (rw_endpoints R)\<rparr>
      | CreateEventRow i now t ty p k c \<Rightarrow> R\<lparr>rw_events := rw_events R @
          [\<lparr>em_id = i, em_tenant_id = t, em_type = ty, em_payload = p, em_idempotency_key = k,
            em_created_at = now, em_correlation_id = c\<rparr>]\<rparr>
      | CreateOutboxRow i now e \<Rightarrow> R\<lparr>rw_outbox := rw_outbox R @ [outbox_model_created i now e]\<rparr>
      | ClaimDue now locked limit \<Rightarrow>
          let due = take limit (sort_key om_created_at
                      (filter (\<lambda>m. om_status m = ''pending'' \<and> om_id m \<notin> set locked) (rw_outbox R)))
          in R\<lparr>rw_outbox := map (\<lambda>m. if om_id m \<in> om_id ` set due then write_claimed now m else m) (rw_outbox R)\<rparr>
      | MarkProcessed i \<Rightarrow> R\<lparr>rw_outbox := update_by om_id i write_processed (rw_outbox R)\<rparr>
      | CreateDeliveryRow i now e p \<Rightarrow> R\<lparr>rw_deliveries := rw_deliveries R @ [delivery_model_created i now e p]\<rparr>
      | MarkDelivered i \<Rightarrow> R\<lparr>rw_deliveries := update_by dm_id i write_delivered (rw_deliveries R)\<rparr>
      | MarkRetrying i t \<Rightarrow> R\<lparr>rw_deliveries := update_by dm_id i (write_retrying t) (rw_deliveries R)\<rparr>
      | MarkDead i \<Rightarrow> R\<lparr>rw_deliveries := update_by dm_id i write_dead (rw_deliveries R)\<rparr>
      | Reschedule i t \<Rightarrow> R\<lparr>rw_deliveries := update_by dm_id i (write_rescheduled t) (rw_deliveries R)\<rparr>
      | ResetForReplay i \<Rightarrow> R\<lparr>rw_deliveries := update_by dm_id i write_replayed (rw_deliveries R)\<rparr>
      | CreateAttempt i now d n l st ec rs ps rh \<Rightarrow>
          R\<lparr>rw_attempts := rw_attempts R @ [delivery_attempt_model_created i now d n l st ec rs ps rh]\<rparr>)"

subsection \<open>Rows that read as a table\<close>

definition reads :: "('m \<Rightarrow> error + 'd) \<Rightarrow> 'm list \<Rightarrow> 'd list \<Rightarrow> bool" where
  "reads to_domain ms ds \<longleftrightarrow> list_all2 (\<lambda>m d. to_domain m = Inr d) ms ds"

definition writes_as :: "('m \<Rightarrow> error + 'd) \<Rightarrow> ('m \<Rightarrow> 'm) \<Rightarrow> ('d \<Rightarrow> 'd) \<Rightarrow> bool" where
  "writes_as to_domain f g \<longleftrightarrow> (\<forall>m d. to_domain m = Inr d \<longrightarrow> to_domain (f m) = Inr (g d))"

lemma reads_Nil [simp]: "reads to_domain [] []"
  by (simp add: reads_def)

lemma reads_snoc: "reads to_domain ms ds \<Longrightarrow> to_domain m = Inr d \<Longrightarrow> reads to_domain (ms @ [m]) (ds @ [d])"
  by (simp add: reads_def list_all2_appendI)

lemma reads_filter:
  assumes "reads to_domain ms ds" "\<And>m d. to_domain m = Inr d \<Longrightarrow> P m \<longleftrightarrow> Q d"
  shows "reads to_domain (filter P ms) (filter Q ds)"
  using assms(1) unfolding reads_def by induction (auto simp: assms(2))

lemma reads_map:
  assumes "reads to_domain ms ds" "\<And>m d. to_domain m = Inr d \<Longrightarrow> to_domain (f m) = Inr (g d)"
  shows "reads to_domain (map f ms) (map g ds)"
  using assms(1) unfolding reads_def by induction (auto simp: assms(2))

lemma reads_map_eq:
  assumes "reads to_domain ms ds" "\<And>m d. to_domain m = Inr d \<Longrightarrow> g d = f m"
  shows "map g ds = map f ms"
  using assms(1) unfolding reads_def by induction (auto simp: assms(2))

lemma reads_total: "reads (\<lambda>m. Inr (f m)) ms ds \<longleftrightarrow> ds = map f ms"
  by (auto simp: reads_def list_all2_conv_all_nth list_eq_iff_nth_eq)

lemma reads_sort_key:
  assumes "reads to_domain ms ds" "\<And>m d. to_domain m = Inr d \<Longrightarrow> g d = f m"
  shows "reads to_domain (sort_key f ms) (sort_key g ds)"
proof -
  have insort: "reads to_domain (insort_key f m xs) (insort_key g d ys)"
    if "to_domain m = Inr d" "reads to_domain xs ys" for m d xs ys
    using that(2) unfolding reads_def by induction (auto simp: that(1) assms(2) assms(2) [OF that(1)])
  show ?thesis
    using assms(1) unfolding reads_def by induction (auto simp: insort [unfolded reads_def])
qed

lemma reads_take: "reads to_domain ms ds \<Longrightarrow> reads to_domain (take n ms) (take n ds)"
  by (simp add: reads_def list_all2_takeI)

text \<open>
  What a table's \<open>_to_domain\<close> must promise: the entity has the row's key. Then an update of a row by
  its key is the update of the entity.
\<close>

locale stored_table =
  fixes to_domain :: "'m \<Rightarrow> error + 'd" and mkey :: "'m \<Rightarrow> 'k" and dkey :: "'d \<Rightarrow> 'k"
  assumes same_key: "to_domain m = Inr d \<Longrightarrow> dkey d = mkey m"
begin

lemma reads_update:
  assumes "reads to_domain ms ds" "writes_as to_domain f g"
  shows "reads to_domain (update_by mkey k f ms) (update_by dkey k g ds)"
  using assms unfolding update_by_def writes_as_def by (intro reads_map) (auto simp: same_key)

lemma reads_delete:
  "reads to_domain ms ds \<Longrightarrow> reads to_domain (filter (\<lambda>m. mkey m \<noteq> k) ms) (filter (\<lambda>d. dkey d \<noteq> k) ds)"
  by (rule reads_filter) (simp_all add: same_key)

lemma reads_keys: "reads to_domain ms ds \<Longrightarrow> map dkey ds = map mkey ms"
  by (erule reads_map_eq) (rule same_key)

end

lemma enum_of_simps [simp]:
  "enum_of delivery_state_value DELIVERY_STATES (delivery_state_value x) = Inr x"
  "enum_of endpoint_status_value ENDPOINT_STATUSES (endpoint_status_value y) = Inr y"
  "enum_of breaker_state_value BREAKER_STATES (breaker_state_value z) = Inr z"
  "enum_of outbox_status_value OUTBOX_STATUSES (outbox_status_value u) = Inr u"
  "enum_of error_class_value ERROR_CLASSES (error_class_value v) = Inr v"
  by (cases x; cases y; cases z; cases u; cases v;
      simp add: enum_of_def DELIVERY_STATES_def ENDPOINT_STATUSES_def BREAKER_STATES_def OUTBOX_STATUSES_def
        ERROR_CLASSES_def)+

lemma enum_of_Inr: "enum_of value members s = Inr x \<Longrightarrow> value x = s"
  by (auto simp: enum_of_def find_Some_iff split: option.splits)

lemmas to_domain_defs = endpoint_to_domain_def outbox_to_domain_def delivery_to_domain_def
  delivery_attempt_to_domain_def api_key_to_domain_def

interpretation endpoint_rows: stored_table endpoint_to_domain pm_id ep_id
  by unfold_locales (auto simp: to_domain_defs res_bind_Inr_iff)

interpretation outbox_rows: stored_table outbox_to_domain om_id ob_id
  by unfold_locales (auto simp: to_domain_defs res_bind_Inr_iff)

interpretation delivery_rows: stored_table delivery_to_domain dm_id d_id
  by unfold_locales (auto simp: to_domain_defs res_bind_Inr_iff)

interpretation api_key_rows: stored_table "\<lambda>m. Inr (api_key_to_domain m)" km_id k_id
  by unfold_locales (auto simp: to_domain_defs)

text \<open>Each write of columns is the change of the entity.\<close>

lemma delivery_writes:
  "writes_as delivery_to_domain write_delivered set_delivered"
  "writes_as delivery_to_domain (write_retrying t) (set_retrying t)"
  "writes_as delivery_to_domain write_dead set_dead"
  "writes_as delivery_to_domain (write_rescheduled t) (set_rescheduled t)"
  "writes_as delivery_to_domain write_replayed set_replayed"
  by (auto simp: writes_as_def delivery_to_domain_def res_bind_Inr_iff row_sets write_delivered_def
      write_retrying_def write_dead_def write_rescheduled_def write_replayed_def simp del: delivery_state_value.simps)

lemma endpoint_writes:
  "writes_as endpoint_to_domain (write_outcome b n opened)
     (\<lambda>m. m\<lparr>ep_breaker_state := b, ep_consecutive_failures := n, ep_opened_at := opened\<rparr>)"
  "writes_as endpoint_to_domain (write_breaker b opened) (\<lambda>m. m\<lparr>ep_breaker_state := b, ep_opened_at := opened\<rparr>)"
  "writes_as endpoint_to_domain (write_changes url types status)
     (\<lambda>m. let m1 = (case url of None \<Rightarrow> m | Some u \<Rightarrow> m\<lparr>ep_url := u\<rparr>);
           m2 = (case types of None \<Rightarrow> m1 | Some ts \<Rightarrow> m1\<lparr>ep_event_types := ts\<rparr>)
       in (case status of None \<Rightarrow> m2 | Some st \<Rightarrow> m2\<lparr>ep_status := st\<rparr>))"
  by (auto simp: writes_as_def endpoint_to_domain_def res_bind_Inr_iff write_outcome_def write_breaker_def
      write_changes_def Let_def simp del: breaker_state_value.simps endpoint_status_value.simps split: option.splits)

lemma outbox_writes:
  "writes_as outbox_to_domain (write_claimed now) (mark_claimed now)"
  "writes_as outbox_to_domain write_processed (\<lambda>r. r\<lparr>ob_status := OUTBOX_PROCESSED\<rparr>)"
  by (auto simp: writes_as_def outbox_to_domain_def res_bind_Inr_iff write_claimed_def write_processed_def
      mark_claimed_def simp del: outbox_status_value.simps)

lemma api_key_writes:
  "writes_as (\<lambda>m. Inr (api_key_to_domain m)) (\<lambda>m. m\<lparr>km_revoked_at := x\<rparr>) (\<lambda>k. k\<lparr>k_revoked_at := x\<rparr>)"
  by (simp add: writes_as_def api_key_to_domain_def)

lemma created_rows:
  "endpoint_to_domain (endpoint_model_created i now t url secret types) =
     Inr \<lparr>ep_id = i, ep_tenant_id = t, ep_url = url, ep_secret = secret, ep_event_types = types, ep_created_at = now,
          ep_status = ACTIVE, ep_breaker_state = CLOSED, ep_opened_at = None, ep_consecutive_failures = 0\<rparr>"
  "outbox_to_domain (outbox_model_created i now e) =
     Inr \<lparr>ob_id = i, ob_event_id = e, ob_status = OUTBOX_PENDING, ob_attempts = 0, ob_created_at = now, ob_locked_at = None\<rparr>"
  "delivery_to_domain (delivery_model_created i now e p) =
     Inr \<lparr>d_id = i, d_event_id = e, d_endpoint_id = p, d_state = PENDING, d_attempt_count = 0, d_created_at = now,
          d_next_retry_at = None\<rparr>"
  by (simp_all add: to_domain_defs enum_of_def ENDPOINT_STATUSES_def BREAKER_STATES_def OUTBOX_STATUSES_def
      DELIVERY_STATES_def endpoint_model_created_def outbox_model_created_def delivery_model_created_def)

lemma error_class_value_nonempty [simp]: "error_class_value e \<noteq> []"
  by (cases e) simp_all

lemma created_attempt:
  "delivery_attempt_to_domain (delivery_attempt_model_created i now d n l st ec rs ps rh) =
     Inr \<lparr>a_id = i, a_delivery_id = d, a_attempt_no = n, a_latency_ms = l, a_created_at = now, a_response_status = st,
          a_error_class = ec, a_request_snippet = rs, a_response_snippet = ps, a_request_headers = rh\<rparr>"
  by (cases ec)
     (simp_all add: delivery_attempt_to_domain_def delivery_attempt_model_created_def
       del: error_class_value.simps)

subsection \<open>The stored rows implement the tables\<close>

definition reads_as :: "raw_db \<Rightarrow> db \<Rightarrow> bool" where
  "reads_as R s \<longleftrightarrow>
     db_tenants s = map tenant_to_domain (rw_tenants R) \<and>
     db_api_keys s = map api_key_to_domain (rw_api_keys R) \<and>
     reads endpoint_to_domain (rw_endpoints R) (db_endpoints s) \<and>
     db_events s = map event_to_domain (rw_events R) \<and>
     reads outbox_to_domain (rw_outbox R) (db_outbox s) \<and>
     reads delivery_to_domain (rw_deliveries R) (db_deliveries s) \<and>
     reads delivery_attempt_to_domain (rw_attempts R) (db_attempts s)"

text \<open>A run of writes on both; one that the database's constraints refuse changes neither.\<close>

fun write_all :: "row_write list \<Rightarrow> raw_db \<times> db \<Rightarrow> raw_db \<times> db" where
  "write_all [] Rs = Rs"
| "write_all (w # ws) (R, s) =
     (case store_write w s of Inl e \<Rightarrow> write_all ws (R, s) | Inr s' \<Rightarrow> write_all ws (raw_write w R, s'))"

definition empty_raw :: raw_db where
  "empty_raw = \<lparr>rw_tenants = [], rw_api_keys = [], rw_endpoints = [], rw_events = [], rw_outbox = [],
     rw_deliveries = [], rw_attempts = []\<rparr>"

lemma map_sum_id_Inr: "map_sum id snd r = Inr y \<longleftrightarrow> (\<exists>x. r = Inr (x, y))"
  by (cases r) auto

lemma update_api_keys:
  "map api_key_to_domain (update_by km_id i (\<lambda>m. m\<lparr>km_revoked_at := x\<rparr>) ms) =
   update_by k_id i (\<lambda>k. k\<lparr>k_revoked_at := x\<rparr>) (map api_key_to_domain ms)"
  using api_key_rows.reads_update [OF _ api_key_writes, of ms "map api_key_to_domain ms" i x]
  by (simp add: reads_total)

lemma claim_due_rows:
  assumes "reads outbox_to_domain ms (db_outbox s)"
  shows "om_id ` set (take limit (sort_key om_created_at
           (filter (\<lambda>m. om_status m = ''pending'' \<and> om_id m \<notin> set locked) ms))) =
         set (map ob_id (outbox_due locked limit s))"
proof -
  have pending: "om_status m = ''pending'' \<longleftrightarrow> ob_status d = OUTBOX_PENDING" if "outbox_to_domain m = Inr d" for m d
  proof -
    have "enum_of outbox_status_value OUTBOX_STATUSES (om_status m) = Inr (ob_status d)"
      using that by (auto simp: outbox_to_domain_def res_bind_Inr_iff)
    from enum_of_Inr [OF this] show ?thesis by (cases "ob_status d") auto
  qed
  have created: "ob_created_at d = om_created_at m" if "outbox_to_domain m = Inr d" for m d
    using that by (auto simp: outbox_to_domain_def res_bind_Inr_iff)
  have "reads outbox_to_domain (filter (\<lambda>m. om_status m = ''pending'' \<and> om_id m \<notin> set locked) ms)
      (filter (\<lambda>r. ob_status r = OUTBOX_PENDING \<and> ob_id r \<notin> set locked) (db_outbox s))"
    by (rule reads_filter [OF assms]) (metis pending outbox_rows.same_key)
  then have "reads outbox_to_domain (take limit (sort_key om_created_at
      (filter (\<lambda>m. om_status m = ''pending'' \<and> om_id m \<notin> set locked) ms))) (outbox_due locked limit s)"
    unfolding outbox_due_def by (intro reads_take reads_sort_key) (assumption, rule created)
  from outbox_rows.reads_keys [OF this] show ?thesis by (simp only: list.set_map [symmetric])
qed

lemma delete_rows:
  assumes "reads delivery_to_domain ms ds" "reads delivery_attempt_to_domain as ats"
  shows "reads delivery_to_domain (filter (\<lambda>m. dm_endpoint_id m \<noteq> i) ms) (filter (\<lambda>d. d_endpoint_id d \<noteq> i) ds)"
    and "reads delivery_attempt_to_domain
      (filter (\<lambda>a. am_delivery_id a \<notin> dm_id ` set (filter (\<lambda>m. dm_endpoint_id m = i) ms)) as)
      (filter (\<lambda>a. a_delivery_id a \<notin> d_id ` set (filter (\<lambda>d. d_endpoint_id d = i) ds)) ats)"
proof -
  have e: "d_endpoint_id d = dm_endpoint_id m" if "delivery_to_domain m = Inr d" for m d
    using that by (auto simp: delivery_to_domain_def res_bind_Inr_iff)
  show "reads delivery_to_domain (filter (\<lambda>m. dm_endpoint_id m \<noteq> i) ms) (filter (\<lambda>d. d_endpoint_id d \<noteq> i) ds)"
    by (rule reads_filter [OF assms(1)]) (simp add: e)
  have "reads delivery_to_domain (filter (\<lambda>m. dm_endpoint_id m = i) ms) (filter (\<lambda>d. d_endpoint_id d = i) ds)"
    by (rule reads_filter [OF assms(1)]) (simp add: e)
  from delivery_rows.reads_keys [OF this]
  have "dm_id ` set (filter (\<lambda>m. dm_endpoint_id m = i) ms) = d_id ` set (filter (\<lambda>d. d_endpoint_id d = i) ds)"
    by (metis list.set_map)
  moreover have "a_delivery_id d = am_delivery_id m" if "delivery_attempt_to_domain m = Inr d" for m d
    using that by (auto simp: delivery_attempt_to_domain_def res_bind_Inr_iff)
  ultimately show "reads delivery_attempt_to_domain
      (filter (\<lambda>a. am_delivery_id a \<notin> dm_id ` set (filter (\<lambda>m. dm_endpoint_id m = i) ms)) as)
      (filter (\<lambda>a. a_delivery_id a \<notin> d_id ` set (filter (\<lambda>d. d_endpoint_id d = i) ds)) ats)"
    by (intro reads_filter [OF assms(2)]) simp
qed

lemmas store_ops_Inr = tenants_create_def api_keys_create_def api_keys_revoke_def endpoints_create_def
  endpoints_update_def endpoints_record_delivery_outcome_def endpoints_set_breaker_state_def endpoints_modify_Inr
  events_create_def outbox_create_def outbox_mark_processed_def deliveries_create_def
  deliveries_mark_delivered_def deliveries_mark_retrying_def deliveries_mark_dead_def deliveries_reschedule_def
  deliveries_reset_for_replay_def deliveries_modify_Inr delivery_attempts_create_def

lemma write_reads_as:
  assumes "reads_as R s" "store_write w s = Inr s'"
  shows "reads_as (raw_write w R) s'"
proof -
  note R = assms(1) [unfolded reads_as_def]
  show ?thesis
  proof (cases w)
    case (ClaimDue now locked limit)
    have "reads outbox_to_domain (map (\<lambda>m. if om_id m \<in> set (map ob_id (outbox_due locked limit s)) then write_claimed now m else m) (rw_outbox R))
        (map (\<lambda>r. if ob_id r \<in> set (map ob_id (outbox_due locked limit s)) then mark_claimed now r else r) (db_outbox s))"
      using R outbox_writes(1) by (intro reads_map) (auto simp: outbox_rows.same_key writes_as_def)
    then show ?thesis
      using ClaimDue assms(2) R claim_due_rows [of "rw_outbox R" s limit locked]
      by (auto simp: reads_as_def store_write_def raw_write_def outbox_claim_due_def Let_def)
  next
    case (DeleteEndpointRow i)
    then show ?thesis
      using assms(2) R endpoint_rows.reads_delete delete_rows [of "rw_deliveries R" "db_deliveries s" "rw_attempts R" "db_attempts s" i]
      by (auto simp: reads_as_def store_write_def raw_write_def map_sum_id_Inr endpoints_delete_Inr)
  next
    case (RevokeKey now i)
    then show ?thesis
      using assms(2) R
      by (auto simp: reads_as_def store_write_def raw_write_def map_sum_id_Inr store_ops_Inr update_api_keys
          Let_def split: option.splits)
  qed (use assms(2) R in \<open>auto simp: reads_as_def store_write_def raw_write_def map_sum_id_Inr store_ops_Inr
      tenant_to_domain_def api_key_to_domain_def event_to_domain_def created_rows created_attempt Let_def
      intro!: reads_snoc endpoint_rows.reads_update outbox_rows.reads_update delivery_rows.reads_update
        endpoint_writes endpoint_writes(3) [unfolded Let_def] delivery_writes outbox_writes(2) split: if_splits option.splits\<close>)
qed

lemma write_all_reads_as:
  "reads_as R s \<Longrightarrow> reads_as (fst (write_all ws (R, s))) (snd (write_all ws (R, s)))"
  by (induction ws arbitrary: R s) (auto simp: write_reads_as split: sum.split)

subsection \<open>Properties\<close>


end
