(* ===== verification/Receiver.thy ===== *)
theory Receiver
  imports DeliveryAttempts Problems Pagination
begin

section \<open>The receiver's side of a signature\<close>

text \<open>
  \<open>scripts/verify_signature_independently.py\<close>: a verifier written from the documentation alone, with
  its command line. An argument that \<open>argparse\<close> refuses ends the process with status 2. Files and
  standard input are arguments.
\<close>

definition DEFAULT_TOLERANCE_SECONDS :: int where "DEFAULT_TOLERANCE_SECONDS = 300"

definition compute_signature :: "string \<Rightarrow> int \<Rightarrow> byte list \<Rightarrow> string" where
  "compute_signature secret timestamp body =
     (let signed = encode (decimal timestamp @ ''.'') @ body in hex (hmac_sha256 (encode secret) signed))"

definition receiver_verify ::
  "string \<Rightarrow> int \<Rightarrow> byte list \<Rightarrow> string \<Rightarrow> int \<Rightarrow> int \<Rightarrow> error + bool \<times> string" where
  "receiver_verify secret timestamp body signature tolerance_seconds now =
     (let skew = \<bar>now - timestamp\<bar> in
      if tolerance_seconds < skew
      then Inr (False, ''timestamp is '' @ decimal skew @ ''s away from now, outside the '' @
                       decimal tolerance_seconds @ ''s window'')
      else res_bind (compare_digest (compute_signature secret timestamp body) signature) (\<lambda>same.
        if \<not> same then Inr (False, ''signature does not match the body, timestamp and secret'')
        else Inr (True, ''signature verified over '' @ decimal_nat (length body) @ '' bytes'')))"

subsection \<open>The command line\<close>

record verify_args =
  va_secret :: string
  va_timestamp :: string
  va_signature :: string
  va_body :: "string option"
  va_body_file :: "string option"
  va_tolerance :: "string option"

definition read_body :: "(string \<Rightarrow> byte list option) \<Rightarrow> byte list \<Rightarrow> verify_args \<Rightarrow> error + byte list" where
  "read_body files stdin args =
     (if va_body_file args = Some ''-'' then Inr stdin
      else case va_body_file args of
        Some f \<Rightarrow>
          if f \<noteq> [] then (case files f of Some b \<Rightarrow> Inr b | None \<Rightarrow> Inl (OSError f))
          else (case va_body args of Some b \<Rightarrow> Inr (encode b) | None \<Rightarrow> Inl (TypeError ''NoneType''))
      | None \<Rightarrow> (case va_body args of Some b \<Rightarrow> Inr (encode b) | None \<Rightarrow> Inl (TypeError ''NoneType'')))"

text \<open>\<open>int(text)\<close>, which strips Unicode white space.\<close>

definition int_of_text :: "string \<Rightarrow> int option" where
  "int_of_text s = int10 (strip_set is_py_space s)"

text \<open>Exactly one source of the body, whole numbers where they are asked for, then the verdict.\<close>

definition receiver_main ::
  "(string \<Rightarrow> byte list option) \<Rightarrow> byte list \<Rightarrow> int \<Rightarrow> verify_args \<Rightarrow> error + int \<times> string" where
  "receiver_main files stdin now args =
     (case (int_of_text (va_timestamp args),
            (case va_tolerance args of None \<Rightarrow> Some DEFAULT_TOLERANCE_SECONDS | Some t \<Rightarrow> int_of_text t)) of
        (Some timestamp, Some tolerance) \<Rightarrow>
          if (va_body args = None) = (va_body_file args = None) then Inr (2, [])
          else res_bind (read_body files stdin args) (\<lambda>body.
            res_bind (receiver_verify (va_secret args) timestamp body (va_signature args) tolerance now) (\<lambda>(ok, why).
              Inr (if ok then 0 else 1, (if ok then ''VALID  '' else ''INVALID'') @ ''  '' @ why)))
      | _ \<Rightarrow> Inr (2, []))"

subsection \<open>Facts\<close>

lemma compute_signature_sign [simp]: "compute_signature = sign"
  by (simp add: fun_eq_iff compute_signature_def sign_def signed_message_def)

lemma receiver_verify_eq:
  "receiver_verify secret timestamp body signature tolerance now =
     res_bind (verify secret timestamp body signature tolerance now) (\<lambda>ok.
       Inr (ok, if ok then ''signature verified over '' @ decimal_nat (length body) @ '' bytes''
                else if tolerance < \<bar>now - timestamp\<bar>
                then ''timestamp is '' @ decimal \<bar>now - timestamp\<bar> @ ''s away from now, outside the '' @
                       decimal tolerance @ ''s window''
                else ''signature does not match the body, timestamp and secret''))"
  by (auto simp: receiver_verify_def verify_def compare_digest_def Let_def)

text \<open>A decimal rendering of at most 4300 digits is read back.\<close>

lemma digits10_all:
  "list_all is_digit s \<Longrightarrow> digits10 b n acc s =
     (if s = [] \<and> \<not> b then None else Some (n + length s, foldl (\<lambda>n c. 10 * n + (of_char c - 48)) acc s))"
proof (induction s arbitrary: b n acc)
  case (Cons c s)
  then show ?case by (simp add: mult.commute add.commute)
qed simp

lemma decimal_nat_nonempty [simp]: "decimal_nat n \<noteq> []"
  by (cases n rule: decimal_nat.cases) (simp add: decimal_nat.simps)

lemma unsigned10_decimal:
  "length (decimal_nat n) \<le> 4300 \<Longrightarrow> unsigned10 (decimal_nat n) = Some n"
  using digits10_all [of "decimal_nat n" False 0 0] decimal_value_decimal_nat [of n]
  by (simp add: unsigned10_def list_all_iff decimal_nat_digits decimal_value_def)

lemma int_of_text_decimal:
  assumes "\<bar>t\<bar> < 10 ^ 12"
  shows "int_of_text (decimal t) = Some t"
proof -
  obtain n where n: "n = nat \<bar>t\<bar>" by simp
  have u: "unsigned10 (decimal_nat n) = Some n"
    using length_decimal_nat [of n 12] assms unsigned10_decimal [of n] by (simp add: n nat_less_iff)
  have space: "\<not> is_py_space c" "\<not> is_ascii_space c" if "c \<in> set (decimal t)" for c
    using decimal_chars [OF that] by (auto simp: is_digit_def is_py_space_def is_ascii_space_def Let_def)
  have strip: "strip_set is_py_space (decimal t) = decimal t" "strip_set is_ascii_space (decimal t) = decimal t"
    by (simp_all add: strip_set_absent space)
  obtain c cs where cs: "decimal_nat n = c # cs" by (cases "decimal_nat n") auto
  then have "is_digit c" using decimal_nat_digits [of c n] by simp
  then have "c \<noteq> CHR ''-''" "c \<noteq> CHR ''+''" by (auto simp: is_digit_def)
  then show ?thesis
    using u cs n strip
    by (cases "t < 0") (simp_all add: int_of_text_def int10_def decimal_def)
qed

subsection \<open>Properties\<close>

text \<open>
  C20. The documented contract is the one the dispatcher keeps. Run with the secret of the endpoint on
  the headers of a request as it was sent, with the body on standard input, the independent verifier
  answers, for every body at all, exactly what Relay's own \<open>verify\<close> answers for it and never fails:
  its status is 0 exactly when the clock is within five minutes of the timestamp, on either side,
  and the body is the one that was sent, or HMAC-SHA256 collides on the two signed messages.
\<close>

theorem independent_verifier_agrees:
  assumes "\<bar>unix_seconds (en_now env)\<bar> < 10 ^ 12"
    and "hs = request_headers env ev ep delivery_id"
    and "map_of hs ''X-Relay-Timestamp'' = Some ts" and "map_of hs ''X-Relay-Signature'' = Some sig"
  shows "\<exists>ok why. receiver_main files body now
       \<lparr>va_secret = ep_secret ep, va_timestamp = ts, va_signature = sig, va_body = None,
        va_body_file = Some ''-'', va_tolerance = None\<rparr> = Inr (if ok then 0 else 1, why) \<and>
     verify (ep_secret ep) (unix_seconds (en_now env)) body sig 300 now = Inr ok \<and>
     (ok \<longleftrightarrow> \<bar>now - unix_seconds (en_now env)\<bar> \<le> 300 \<and>
        (body = request_payload env ev \<or>
         hmac_sha256 (encode (ep_secret ep)) (signed_message (unix_seconds (en_now env)) body) =
           hmac_sha256 (encode (ep_secret ep)) (signed_message (unix_seconds (en_now env)) (request_payload env ev))))"
proof -
  let ?t = "unix_seconds (en_now env)"
  have ts: "ts = decimal ?t" and sig: "sig = sign (ep_secret ep) ?t (request_payload env ev)"
    using assms(2-4) by (auto simp: request_headers_def Let_def)
  have "verify (ep_secret ep) ?t body sig 300 now =
      Inr (\<bar>now - ?t\<bar> \<le> 300 \<and> sign (ep_secret ep) ?t body = sig)"
    by (auto simp: verify_def compare_digest_def sig sign_ascii)
  moreover have "sign (ep_secret ep) ?t body = sig \<longleftrightarrow>
      hmac_sha256 (encode (ep_secret ep)) (signed_message ?t body) =
        hmac_sha256 (encode (ep_secret ep)) (signed_message ?t (request_payload env ev))"
    unfolding sig sign_def by (auto dest: hex_inject)
  ultimately show ?thesis
    using int_of_text_decimal [OF assms(1)]
    by (auto simp: receiver_main_def ts read_body_def receiver_verify_eq DEFAULT_TOLERANCE_SECONDS_def)
qed

theorem independent_verifier_agrees_witness:
  "\<exists>why. receiver_main (\<lambda>_. None) (request_payload (answers (Inl SsrfBlocked)) demo_event) 1
     \<lparr>va_secret = ep_secret demo_endpoint, va_timestamp = ''1'',
      va_signature = sign (ep_secret demo_endpoint) 1 (request_payload (answers (Inl SsrfBlocked)) demo_event),
      va_body = None, va_body_file = Some ''-'', va_tolerance = None\<rparr> = Inr (0, why)"
proof -
  have t: "unix_seconds (en_now (answers (Inl SsrfBlocked))) = 1" by (simp add: answers_def unix_seconds_def)
  have "decimal 1 = ''1''" by code_simp
  then show ?thesis
    using independent_verifier_agrees [of "answers (Inl SsrfBlocked)" _ demo_event demo_endpoint 9 "''1''"
        "sign (ep_secret demo_endpoint) 1 (request_payload (answers (Inl SsrfBlocked)) demo_event)" "\<lambda>_. None"
        "request_payload (answers (Inl SsrfBlocked)) demo_event" 1, OF _ refl]
    by (auto simp: t request_headers_def Let_def)
qed

end
