(* ===== verification/Loops.thy ===== *)
theory Loops
  imports Workers "HOL-Library.Multiset"
begin

section \<open>The loops around the runs\<close>

text \<open>
  \<open>run_forever\<close> of \<open>relay/workers/relay.py\<close>, \<open>relay/workers/scheduler.py\<close> and
  \<open>relay/workers/reaper.py\<close>, with \<open>relay/workers/shutdown.py\<close>. Time is in seconds; the signal is the
  time at which the shutdown event is set, if it ever is. A turn is what one iteration meets: the
  draws and clocks of its run, how long the run takes, and what everybody else did since the last.
  A loop is watched for as many turns as it is given, so that one without a signal is still running
  at the end of them. An exception of a run ends the process.
\<close>

record ('e, 'w) turn =
  tn_env :: 'e
  tn_lasts :: rat
  tn_meanwhile :: "'w \<Rightarrow> 'w"

datatype loop_end = Running | Stopped | Crashed error

definition is_set :: "rat option \<Rightarrow> rat \<Rightarrow> bool" where
  "is_set shutdown now = (case shutdown of None \<Rightarrow> False | Some s \<Rightarrow> s \<le> now)"

text \<open>The time at which the wait is over.\<close>

definition wait_or_shutdown :: "rat option \<Rightarrow> rat \<Rightarrow> rat \<Rightarrow> rat" where
  "wait_or_shutdown shutdown now seconds =
     (let timeout = now + max 0 seconds in
      case shutdown of None \<Rightarrow> timeout | Some s \<Rightarrow> if s \<le> now then now else min s timeout)"

text \<open>The shape the three loops share; \<open>pause n\<close> is the wait after a run that returned \<open>n\<close>.\<close>

fun poll_loop ::
  "(nat \<Rightarrow> rat option) \<Rightarrow> rat option \<Rightarrow> ('e \<Rightarrow> 'w \<Rightarrow> (error + nat) \<times> 'w) \<Rightarrow> ('e, 'w) turn list \<Rightarrow> rat \<Rightarrow> 'w \<Rightarrow>
   loop_end \<times> rat \<times> 'w" where
  "poll_loop pause shutdown run [] now w = (if is_set shutdown now then Stopped else Running, now, w)"
| "poll_loop pause shutdown run (t # ts) now w =
     (if is_set shutdown now then (Stopped, now, w)
      else case run (tn_env t) (tn_meanwhile t w) of
          (Inl e, w') \<Rightarrow> (Crashed e, now + tn_lasts t, w')
        | (Inr n, w') \<Rightarrow>
            poll_loop pause shutdown run ts
              (case pause n of None \<Rightarrow> now + tn_lasts t
                             | Some seconds \<Rightarrow> wait_or_shutdown shutdown (now + tn_lasts t) seconds) w')"

subsection \<open>The three workers\<close>

definition relay_in :: "relay_env \<Rightarrow> nat \<Rightarrow> world \<Rightarrow> (error + nat) \<times> world" where
  "relay_in env batch_size w =
     (case relay_run_once env batch_size (w_store w) (w_stream w) of
        (r, st, x) \<Rightarrow> (r, w\<lparr>w_store := st, w_stream := x\<rparr>))"

text \<open>The relay polls again at once while a run finds rows.\<close>

definition relay_run_forever ::
  "settings \<Rightarrow> nat option \<Rightarrow> rat option \<Rightarrow> rat option \<Rightarrow> (relay_env, world) turn list \<Rightarrow> rat \<Rightarrow> world \<Rightarrow>
   loop_end \<times> rat \<times> world" where
  "relay_run_forever cfg batch_size poll_interval shutdown turns now w =
     (let batch = (case batch_size of Some b \<Rightarrow> if b = 0 then outbox_claim_batch_size cfg else b
                                    | None \<Rightarrow> outbox_claim_batch_size cfg);
          interval = (case poll_interval of Some p \<Rightarrow> p | None \<Rightarrow> outbox_poll_interval_seconds cfg)
      in poll_loop (\<lambda>n. if n = 0 then Some interval else None) shutdown
           (\<lambda>env. relay_in env batch) turns now w)"

definition DEFAULT_POP_LIMIT :: nat where "DEFAULT_POP_LIMIT = 100"

definition scheduler_run_forever ::
  "settings \<Rightarrow> rat option \<Rightarrow> nat option \<Rightarrow> rat option \<Rightarrow> (timestamp \<times> nat, world) turn list \<Rightarrow> rat \<Rightarrow> world \<Rightarrow>
   loop_end \<times> rat \<times> world" where
  "scheduler_run_forever cfg tick_interval limit shutdown turns now w =
     (let tick = (case tick_interval of Some t \<Rightarrow> t | None \<Rightarrow> scheduler_tick_interval_seconds cfg);
          pop_limit = (case limit of Some n \<Rightarrow> n | None \<Rightarrow> DEFAULT_POP_LIMIT)
      in poll_loop (\<lambda>_. Some tick) shutdown
           (\<lambda>(now_dt, now_ms). scheduler_run_once now_dt now_ms pop_limit) turns now w)"

definition reaper_run_forever ::
  "settings \<Rightarrow> string \<Rightarrow> rat option \<Rightarrow> nat option \<Rightarrow> rat option \<Rightarrow>
   ((message_id \<Rightarrow> attempt_env) \<times> nat, world) turn list \<Rightarrow> rat \<Rightarrow> world \<Rightarrow> loop_end \<times> rat \<times> world" where
  "reaper_run_forever cfg consumer tick_interval min_idle_ms shutdown turns now w =
     (let tick = (case tick_interval of Some t \<Rightarrow> t | None \<Rightarrow> reaper_tick_interval_seconds cfg);
          min_idle = (case min_idle_ms of Some m \<Rightarrow> m | None \<Rightarrow> reaper_min_idle_ms cfg)
      in poll_loop (\<lambda>_. Some tick) shutdown
           (\<lambda>(envs, now_ms). reaper_run_once cfg envs now_ms consumer min_idle) turns now w)"

subsection \<open>The end of a loop\<close>

text \<open>Over, and no later than \<open>longest\<close> after the signal at \<open>s\<close>; stopped only by it.\<close>

definition winds_down :: "rat \<Rightarrow> rat \<Rightarrow> loop_end \<times> rat \<times> 'w \<Rightarrow> bool" where
  "winds_down s longest r \<longleftrightarrow>
     (case r of (Running, _, _) \<Rightarrow> False
              | (Stopped, t, _) \<Rightarrow> s \<le> t \<and> t \<le> s + longest
              | (Crashed e, t, _) \<Rightarrow> t \<le> s + longest)"

lemma wait_or_shutdown_bounds:
  "now \<le> wait_or_shutdown shutdown now seconds"
  "s \<le> now \<Longrightarrow> wait_or_shutdown (Some s) now seconds = now"
  "now \<le> s \<Longrightarrow> wait_or_shutdown (Some s) now seconds \<le> s"
  by (auto simp: wait_or_shutdown_def Let_def split: option.split)

text \<open>Runs that take time use up the time to the signal, whatever the pauses add.\<close>

lemma poll_loop_winds_down:
  assumes "\<forall>t \<in> set ts. d \<le> tn_lasts t \<and> tn_lasts t \<le> longest" and "0 < d" and "d \<le> longest"
    and "now \<le> s + longest" and "s - now \<le> d * of_nat (length ts)"
  shows "winds_down s longest (poll_loop pause (Some s) run ts now w)"
  using assms(1,4,5)
proof (induction ts arbitrary: now w)
  case Nil
  then show ?case by (simp add: winds_down_def is_set_def)
next
  case (Cons t ts)
  show ?case
  proof (cases "s \<le> now")
    case True
    then show ?thesis using Cons.prems by (simp add: winds_down_def is_set_def)
  next
    case False
    obtain r w' where run: "run (tn_env t) (tn_meanwhile t w) = (r, w')" by fastforce
    have lasts: "d \<le> tn_lasts t" "tn_lasts t \<le> longest" using Cons.prems(1) by simp_all
    let ?next = "\<lambda>n. case pause n of None \<Rightarrow> now + tn_lasts t
      | Some seconds \<Rightarrow> wait_or_shutdown (Some s) (now + tn_lasts t) seconds"
    have step: "now + tn_lasts t \<le> ?next n \<and> ?next n \<le> s + longest" for n
    proof (cases "pause n")
      case (Some seconds)
      have "0 \<le> longest" using assms(2,3) by linarith
      with wait_or_shutdown_bounds(1) [of "now + tn_lasts t" "Some s" seconds]
        wait_or_shutdown_bounds(2) [of s "now + tn_lasts t" seconds]
        wait_or_shutdown_bounds(3) [of "now + tn_lasts t" s seconds] False lasts Some
      show ?thesis by (cases "s \<le> now + tn_lasts t") auto
    qed (use False lasts in simp)
    have "s - ?next n \<le> d * of_nat (length ts)" for n
      using step [of n] Cons.prems(3) lasts by (simp add: algebra_simps)
    with step have "winds_down s longest (poll_loop pause (Some s) run ts (?next n) w')" for n
      using Cons by simp
    then show ?thesis
      using False lasts by (simp add: is_set_def run winds_down_def split: sum.split)
  qed
qed

subsection \<open>A backlog and the relay's loop\<close>

text \<open>The rows still to be fanned out, and the deliveries they call for, as pairs of event and endpoint.\<close>

definition backlog :: "db \<Rightarrow> outbox_entry list" where
  "backlog s = filter (\<lambda>e. ob_status e = OUTBOX_PENDING) (db_outbox s)"

definition wanted :: "db \<Rightarrow> outbox_entry \<Rightarrow> (uuid \<times> uuid) list" where
  "wanted s e =
     (case events_get (ob_event_id e) s of
        None \<Rightarrow> []
      | Some ev \<Rightarrow> map (\<lambda>ep. (ev_id ev, ep_id ep))
          (endpoints_list_active_subscribed (ev_tenant_id ev) (ev_type ev) s))"

definition targets :: "db \<Rightarrow> (uuid \<times> uuid) list" where
  "targets s = concat (map (wanted s) (backlog s))"

definition delivery_key :: "delivery \<Rightarrow> uuid \<times> uuid" where
  "delivery_key d = (d_event_id d, d_endpoint_id d)"

definition relay_keys :: "db \<Rightarrow> bool" where
  "relay_keys s \<longleftrightarrow>
     distinct (map ob_id (db_outbox s)) \<and> distinct (map ob_event_id (db_outbox s)) \<and>
     distinct (map ep_id (db_endpoints s))"

lemma db_ok_relay_keys: "db_ok s \<Longrightarrow> relay_keys s"
  by (simp add: db_ok_def relay_keys_def)

lemma planned_key:
  "map delivery_key (planned env n s) = concat (map (wanted s) (outbox_due (re_locked env) n s))"
  "map d_id (planned env n s) = map (case_prod (re_new_id env)) (concat (map (wanted s) (outbox_due (re_locked env) n s)))"
  by (auto simp: planned_def map_concat deliveries_for_def wanted_def delivery_key_def fresh_delivery_def comp_def
      intro!: arg_cong [where f = concat] split: option.split)

lemma wanted_event: "p \<in> set (wanted s e) \<Longrightarrow> fst p = ob_event_id e"
  by (cases "events_get (ob_event_id e) s") (auto simp: wanted_def events_get_def dest: find_by_SomeD)

lemma distinct_wanted:
  assumes "distinct (map ep_id (db_endpoints s))" and "distinct (map ob_event_id es)"
  shows "distinct (concat (map (wanted s) es))"
  using assms(2)
proof (induction es)
  case (Cons e es)
  have "distinct (wanted s e)"
    using assms(1) by (auto simp: wanted_def distinct_map endpoints_list_active_subscribed_def inj_on_def
        split: option.split)
  moreover have "p \<notin> set (wanted s e')" if "p \<in> set (wanted s e)" "e' \<in> set es" for p e'
    using that Cons.prems wanted_event [of p s e] wanted_event [of p s e'] by auto
  ultimately show ?case using Cons by auto
qed simp

lemma due_splits_backlog:
  assumes "relay_keys s"
  shows "mset (backlog s) = mset (outbox_due [] n s) +
      mset (filter (\<lambda>e. ob_id e \<notin> ob_id ` set (outbox_due [] n s)) (backlog s))"
    and "distinct (map ob_event_id (outbox_due [] n s))"
proof -
  let ?due = "outbox_due [] n s"
  have due: "?due = take n (sort_key ob_created_at (backlog s))" by (simp add: outbox_due_def backlog_def)
  have sub: "set ?due \<subseteq> set (backlog s)" unfolding due using set_take_subset [of n] by fastforce
  have db: "distinct (map ob_id (backlog s))" "distinct (map ob_event_id (backlog s))"
    using assms by (simp_all add: relay_keys_def backlog_def distinct_map_filterI)
  have sorted: "distinct (map f (sort_key ob_created_at (backlog s)))" if "distinct (map f (backlog s))"
    for f :: "outbox_entry \<Rightarrow> uuid"
    using that by (simp add: distinct_map)
  show ev: "distinct (map ob_event_id ?due)"
    using sorted [OF db(2)] unfolding due by (simp add: take_map [symmetric])
  have "e \<in> set ?due" if "e \<in> set (backlog s)" "ob_id e \<in> ob_id ` set ?due" for e
    using that sub db(1) by (auto simp: distinct_map dest: inj_onD)
  then have "set (filter (\<lambda>e. ob_id e \<in> ob_id ` set ?due) (backlog s)) = set ?due" using sub by auto
  moreover have "distinct ?due" using ev by (simp add: distinct_map)
  moreover have "distinct (filter (\<lambda>e. ob_id e \<in> ob_id ` set ?due) (backlog s))"
    using db(1) by (simp add: distinct_map)
  ultimately have due_mset: "mset (filter (\<lambda>e. ob_id e \<in> ob_id ` set ?due) (backlog s)) = mset ?due"
    by (intro set_eq_iff_mset_eq_distinct [THEN iffD1])
  have "mset (backlog s) = mset (filter (\<lambda>e. ob_id e \<in> ob_id ` set ?due) (backlog s)) +
      mset (filter (\<lambda>e. ob_id e \<notin> ob_id ` set ?due) (backlog s))"
    using multiset_partition [of "mset (backlog s)" "\<lambda>e. ob_id e \<in> ob_id ` set ?due"] by simp
  then show "mset (backlog s) = mset ?due + mset (filter (\<lambda>e. ob_id e \<notin> ob_id ` set ?due) (backlog s))"
    by (simp only: due_mset)
qed

lemma mset_concat_map_split:
  assumes "mset xs = mset ys + mset zs"
  shows "mset (concat (map g xs)) = mset (concat (map g ys)) + mset (concat (map g zs))"
proof -
  have "mset (concat (map g xs)) = sum_mset (image_mset (\<lambda>x. mset (g x)) (mset xs))" for xs
    by (induction xs) simp_all
  then show ?thesis by (simp only: assms image_mset_union sum_mset.union)
qed

lemma filter_pending_processed:
  "filter (\<lambda>e. ob_status e = OUTBOX_PENDING)
     (map (\<lambda>e. if ob_id e \<in> D then processed (mark_claimed now e) else e) rows) =
   filter (\<lambda>e. ob_id e \<notin> D) (filter (\<lambda>e. ob_status e = OUTBOX_PENDING) rows)"
  by (induction rows) (simp_all add: processed_def)

text \<open>One run with fresh identifiers and no other relay at work: the batch is gone, its deliveries are there.\<close>

lemma relay_tick:
  assumes "relay_keys (st_db (w_store w))" and "re_locked env = []"
    and "inj_on (case_prod (re_new_id env)) (set (targets (st_db (w_store w))))"
    and "case_prod (re_new_id env) ` set (targets (st_db (w_store w))) \<inter>
      d_id ` set (db_deliveries (st_db (w_store w))) = {}"
  shows "\<exists>w' ds. relay_in env n w = (Inr (min n (length (backlog (st_db (w_store w))))), w') \<and>
    relay_keys (st_db (w_store w')) \<and>
    db_deliveries (st_db (w_store w')) = db_deliveries (st_db (w_store w)) @ ds \<and>
    d_id ` set ds \<subseteq> case_prod (re_new_id env) ` set (targets (st_db (w_store w))) \<and>
    mset (targets (st_db (w_store w))) = mset (map delivery_key ds) + mset (targets (st_db (w_store w'))) \<and>
    length (backlog (st_db (w_store w'))) = length (backlog (st_db (w_store w))) - n \<and>
    grown (w_stream w) (map d_id ds) (w_stream w')"
proof -
  let ?s = "st_db (w_store w)" let ?due = "outbox_due [] n ?s" let ?ds = "planned env n ?s"
  note split = due_splits_backlog [OF assms(1), of n]
  have sub: "set (concat (map (wanted ?s) ?due)) \<subseteq> set (targets ?s)"
    using arg_cong [OF split(1), of set_mset] by (auto simp: targets_def)
  have "distinct (concat (map (wanted ?s) ?due))"
    using distinct_wanted [OF _ split(2)] assms(1) by (simp add: relay_keys_def)
  then have "distinct (map d_id ?ds)"
    using inj_on_subset [OF assms(3) sub] unfolding planned_key(2) assms(2) by (simp add: distinct_map)
  moreover have "d_id ` set ?ds \<subseteq> case_prod (re_new_id env) ` set (targets ?s)"
    using image_mono [OF sub] unfolding set_map [symmetric] planned_key(2) assms(2) by (simp add: image_image)
  ultimately have new: "distinct (map d_id ?ds)"
    "d_id ` set ?ds \<subseteq> case_prod (re_new_id env) ` set (targets ?s)" by blast+
  then have fresh: "d_id ` set ?ds \<inter> d_id ` set (db_deliveries ?s) = {}" using assms(4) by blast
  from relay_run_planned [OF new(1) fresh, of "w_stream w"] obtain st' x' where
    run: "relay_run_once env n (w_store w) (w_stream w) = (Inr (length ?due), st', x')" and
    db: "st_db st' = ?s\<lparr>db_deliveries := db_deliveries ?s @ ?ds,
      db_outbox := map (\<lambda>e. if ob_id e \<in> ob_id ` set ?due then processed (mark_claimed (re_now env) e) else e)
        (db_outbox ?s)\<rparr>" and g: "grown (w_stream w) (map d_id ?ds) x'"
    unfolding assms(2) by (elim exE conjE) (rule that)
  have left: "backlog (st_db st') = filter (\<lambda>e. ob_id e \<notin> ob_id ` set ?due) (backlog ?s)"
    by (simp add: db backlog_def filter_pending_processed)
  have want: "wanted (st_db st') = wanted ?s"
    by (auto simp: fun_eq_iff wanted_def db events_get_def endpoints_list_active_subscribed_def split: option.split)
  have "mset (targets ?s) = mset (map delivery_key ?ds) + mset (targets (st_db st'))"
    unfolding targets_def want left planned_key(1) assms(2) by (rule mset_concat_map_split [OF split(1)])
  moreover have due: "length ?due = min n (length (backlog ?s))" by (simp add: outbox_due_def backlog_def)
  moreover have "length (backlog (st_db st')) = length (backlog ?s) - n"
    using arg_cong [OF split(1), of size] unfolding left by (simp add: due del: mset_filter)
  moreover have "relay_keys (st_db st')"
    using assms(1) by (simp add: relay_keys_def db processed_def mark_claimed_def comp_def if_distrib cong: if_cong)
  ultimately show ?thesis
    using new(2) g db
    by (intro exI [of _ "w\<lparr>w_store := st', w_stream := x'\<rparr>"] exI [of _ ?ds]) (simp add: relay_in_def run)
qed

text \<open>Turns that nothing else interferes with, drawing identifiers not used before.\<close>

fun fresh_turns :: "(uuid \<times> uuid) set \<Rightarrow> uuid set \<Rightarrow> (relay_env, world) turn list \<Rightarrow> bool" where
  "fresh_turns W used [] \<longleftrightarrow> True"
| "fresh_turns W used (t # ts) \<longleftrightarrow>
     tn_meanwhile t = (\<lambda>w. w) \<and> re_locked (tn_env t) = [] \<and>
     inj_on (case_prod (re_new_id (tn_env t))) W \<and> case_prod (re_new_id (tn_env t)) ` W \<inter> used = {} \<and>
     fresh_turns W (used \<union> case_prod (re_new_id (tn_env t)) ` W) ts"

lemma fresh_turns_mono: "fresh_turns W used ts \<Longrightarrow> W' \<subseteq> W \<Longrightarrow> used' \<subseteq> used \<Longrightarrow> fresh_turns W' used' ts"
proof (induction ts arbitrary: used used')
  case (Cons t ts)
  let ?f = "case_prod (re_new_id (tn_env t))"
  have "fresh_turns W' (used' \<union> ?f ` W') ts"
    using Cons.prems by (intro Cons.IH [of "used \<union> ?f ` W"]) (auto intro: image_mono)
  then show ?case using Cons.prems by (fastforce intro: inj_on_subset)
qed simp

lemma relay_loop_drains:
  assumes "0 < b" and "relay_keys (st_db (w_store w))"
    and "fresh_turns (set (targets (st_db (w_store w)))) (d_id ` set (db_deliveries (st_db (w_store w)))) ts"
    and "b * (length ts - 1) < length (backlog (st_db (w_store w)))"
    and "length (backlog (st_db (w_store w))) \<le> b * length ts"
  shows "\<exists>w' ds. poll_loop (\<lambda>n. if n = 0 then Some interval else None) None (\<lambda>env. relay_in env b) ts now w =
      (Running, now + sum_list (map tn_lasts ts), w') \<and>
    backlog (st_db (w_store w')) = [] \<and>
    db_deliveries (st_db (w_store w')) = db_deliveries (st_db (w_store w)) @ ds \<and>
    mset (map delivery_key ds) = mset (targets (st_db (w_store w))) \<and>
    grown (w_stream w) (map d_id ds) (w_stream w')"
  using assms(2-)
proof (induction ts arbitrary: now w)
  case (Cons t ts)
  let ?s = "st_db (w_store w)" let ?f = "case_prod (re_new_id (tn_env t))"
  obtain w1 ds1 where tick: "relay_in (tn_env t) b w = (Inr (min b (length (backlog ?s))), w1)"
    "relay_keys (st_db (w_store w1))" "db_deliveries (st_db (w_store w1)) = db_deliveries ?s @ ds1"
    "d_id ` set ds1 \<subseteq> ?f ` set (targets ?s)"
    "mset (targets ?s) = mset (map delivery_key ds1) + mset (targets (st_db (w_store w1)))"
    "length (backlog (st_db (w_store w1))) = length (backlog ?s) - b" "grown (w_stream w) (map d_id ds1) (w_stream w1)"
    using relay_tick [OF Cons.prems(1), of "tn_env t" b] Cons.prems(2) by auto
  have sub: "set (targets (st_db (w_store w1))) \<subseteq> set (targets ?s)"
    using arg_cong [OF tick(5), of set_mset] by auto
  have pos: "0 < length (backlog ?s)" by (rule le_less_trans [OF le0 Cons.prems(3)])
  have run: "poll_loop (\<lambda>n. if n = 0 then Some interval else None) None (\<lambda>env. relay_in env b) (t # ts) now w =
      poll_loop (\<lambda>n. if n = 0 then Some interval else None) None (\<lambda>env. relay_in env b) ts (now + tn_lasts t) w1"
    using Cons.prems(2) tick(1) pos assms(1) by (simp add: is_set_def min_def)
  show ?case
  proof (cases "ts = []")
    case True
    then have "backlog (st_db (w_store w1)) = []" using tick(6) Cons.prems(4) by simp
    then show ?thesis
      using True tick unfolding run by (auto simp: is_set_def targets_def)
  next
    case False
    have used: "d_id ` set (db_deliveries (st_db (w_store w1))) \<subseteq>
        d_id ` set (db_deliveries ?s) \<union> ?f ` set (targets ?s)"
      using tick(4) unfolding tick(3) by auto
    have "fresh_turns (set (targets ?s)) (d_id ` set (db_deliveries ?s) \<union> ?f ` set (targets ?s)) ts"
      using Cons.prems(2) by simp
    from fresh_turns_mono [OF this sub used]
    have "fresh_turns (set (targets (st_db (w_store w1)))) (d_id ` set (db_deliveries (st_db (w_store w1)))) ts" .
    moreover have "b * (length ts - 1) < length (backlog (st_db (w_store w1)))"
      "length (backlog (st_db (w_store w1))) \<le> b * length ts"
      using Cons.prems(3,4) tick(6) False by (cases ts; simp add: algebra_simps)+
    ultimately obtain w' ds where
      "poll_loop (\<lambda>n. if n = 0 then Some interval else None) None (\<lambda>env. relay_in env b) ts (now + tn_lasts t) w1 =
        (Running, now + tn_lasts t + sum_list (map tn_lasts ts), w')"
      "backlog (st_db (w_store w')) = []"
      "db_deliveries (st_db (w_store w')) = db_deliveries (st_db (w_store w1)) @ ds"
      "mset (map delivery_key ds) = mset (targets (st_db (w_store w1)))"
      "grown (w_stream w1) (map d_id ds) (w_stream w')"
      using Cons.IH [OF tick(2), of "now + tn_lasts t"] by blast
    then show ?thesis
      using tick grown_trans [of "w_stream w1" "map d_id ds" "w_stream w'" "w_stream w" "map d_id ds1"]
      unfolding run by (intro exI [of _ w'] exI [of _ "ds1 @ ds"]) (simp add: add.assoc)
  qed
qed simp

subsection \<open>Properties\<close>

text \<open>
  C31. A signal ends each of the three workers. If every run takes between \<open>d > 0\<close> and \<open>longest\<close>
  seconds, a worker that is signalled at \<open>s\<close> is over after at most \<open>(s - now) / d\<close> turns and no later
  than \<open>longest\<close> after the signal: no pause between runs, however long the configured interval,
  delays the shutdown; and a worker that no run's exception has ended stops because of the signal only.
\<close>

theorem workers_wind_down:
  assumes "0 < d" and "d \<le> longest" and "now \<le> s"
    and "\<forall>t \<in> set relays. d \<le> tn_lasts t \<and> tn_lasts t \<le> longest" and "s - now \<le> d * of_nat (length relays)"
    and "\<forall>t \<in> set ticks. d \<le> tn_lasts t \<and> tn_lasts t \<le> longest" and "s - now \<le> d * of_nat (length ticks)"
    and "\<forall>t \<in> set sweeps. d \<le> tn_lasts t \<and> tn_lasts t \<le> longest" and "s - now \<le> d * of_nat (length sweeps)"
  shows "winds_down s longest (relay_run_forever cfg batch_size poll_interval (Some s) relays now w) \<and>
    winds_down s longest (scheduler_run_forever cfg tick_interval limit (Some s) ticks now w) \<and>
    winds_down s longest (reaper_run_forever cfg consumer tick_interval min_idle_ms (Some s) sweeps now w)"
  using assms
  by (simp add: relay_run_forever_def scheduler_run_forever_def reaper_run_forever_def Let_def
      poll_loop_winds_down [where d = d])

text \<open>
  C12. The relay's loop empties the outbox: with \<open>n\<close> rows due and a batch of \<open>b\<close>, the next \<open>n / b\<close> runs,
  rounded up, follow each other without a pause, and at their end no row is due; for every due event
  and every active endpoint of its tenant subscribed to its type there is exactly one delivery more,
  each named by a message the consumer group owes, and no other delivery has been added or changed.
\<close>

theorem relay_loop_empties_the_outbox:
  assumes "0 < b" and "db_ok (st_db (w_store w))" and "stream_ok (w_stream w)"
    and "fresh_turns (set (targets (st_db (w_store w)))) (d_id ` set (db_deliveries (st_db (w_store w)))) ts"
    and "b * (length ts - 1) < length (backlog (st_db (w_store w)))"
    and "length (backlog (st_db (w_store w))) \<le> b * length ts"
  shows "\<exists>w' ds. relay_run_forever cfg (Some b) poll_interval None ts now w =
      (Running, now + sum_list (map tn_lasts ts), w') \<and>
    backlog (st_db (w_store w')) = [] \<and>
    db_deliveries (st_db (w_store w')) = db_deliveries (st_db (w_store w)) @ ds \<and>
    mset (map delivery_key ds) = mset (targets (st_db (w_store w))) \<and>
    snd ` outstanding (w_stream w') = snd ` outstanding (w_stream w) \<union> d_id ` set ds"
proof -
  from relay_loop_drains [OF assms(1) db_ok_relay_keys [OF assms(2)] assms(4-6)] obtain w' ds where
    "poll_loop (\<lambda>n. if n = 0 then Some (case poll_interval of Some p \<Rightarrow> p | None \<Rightarrow> outbox_poll_interval_seconds cfg)
        else None) None (\<lambda>env. relay_in env b) ts now w = (Running, now + sum_list (map tn_lasts ts), w')"
    "backlog (st_db (w_store w')) = []"
    "db_deliveries (st_db (w_store w')) = db_deliveries (st_db (w_store w)) @ ds"
    "mset (map delivery_key ds) = mset (targets (st_db (w_store w)))" "grown (w_stream w) (map d_id ds) (w_stream w')"
    by blast
  then show ?thesis
    using grown_outstanding [of "w_stream w" "map d_id ds" "w_stream w'"] assms(1,3)
    by (intro exI [of _ w'] exI [of _ ds]) (simp add: relay_run_forever_def Let_def)
qed

definition demo_turn :: "(relay_env, world) turn" where
  "demo_turn = \<lparr>tn_env = demo_relay_env, tn_lasts = 1 / 10, tn_meanwhile = (\<lambda>w. w)\<rparr>"

definition demo_relay_world :: world where
  "demo_relay_world = \<lparr>w_store = demo_due, w_stream = empty_stream, w_retries = [], w_feed = []\<rparr>"

theorem workers_wind_down_witness:
  "winds_down (1 / 5) (1 / 10) (relay_run_forever default_settings None None (Some (1 / 5))
     [demo_turn, demo_turn] 0 demo_relay_world)"
  using workers_wind_down [of "1 / 10" "1 / 10" 0 "1 / 5" "[demo_turn, demo_turn]"
      "[\<lparr>tn_env = (0, 0), tn_lasts = 1 / 10, tn_meanwhile = (\<lambda>w. w)\<rparr>, \<lparr>tn_env = (0, 0), tn_lasts = 1 / 10, tn_meanwhile = (\<lambda>w. w)\<rparr>]"
      "[\<lparr>tn_env = (\<lambda>_. answers (Inl SsrfBlocked), 0), tn_lasts = 1 / 10, tn_meanwhile = (\<lambda>w. w)\<rparr>,
        \<lparr>tn_env = (\<lambda>_. answers (Inl SsrfBlocked), 0), tn_lasts = 1 / 10, tn_meanwhile = (\<lambda>w. w)\<rparr>]"
      default_settings None None demo_relay_world]
  by (simp add: demo_turn_def)

theorem relay_loop_empties_the_outbox_witness:
  "\<exists>w'. relay_run_forever default_settings (Some 50) None None [demo_turn] 0 demo_relay_world = (Running, 1 / 10, w') \<and>
     backlog (st_db (w_store w')) = []"
proof -
  have "targets (st_db demo_due) = [(7, 3)]" "length (backlog (st_db demo_due)) = 1" "db_deliveries (st_db demo_due) = []"
    by (simp_all add: targets_def backlog_def wanted_def demo_due_def events_get_def accepted_event_def
        endpoints_list_active_subscribed_def is_active_def is_subscribed_to_def empty_db_def)
  moreover have "db_ok (st_db demo_due)"
    by (simp add: db_ok_def demo_due_def empty_db_def accepted_event_def demo_tenant_def)
  ultimately show ?thesis
    using relay_loop_empties_the_outbox [of 50 demo_relay_world "[demo_turn]" default_settings None 0] stream_ok_empty
    by (auto simp: demo_turn_def demo_relay_world_def demo_relay_env_def)
qed

end
