(* ===== verification/Mock.thy ===== *)
theory Mock
  imports HttpSender
begin

section \<open>The mock receivers\<close>

text \<open>
  \<open>relay/api/mock/router.py\<close>: five destinations of the service's own, each of which shows one
  outcome of a delivery. An answer is the status, the \<open>Location\<close>, the JSON content and the seconds
  it takes; the draw of \<open>random.random()\<close> and the received body are arguments.
\<close>

record mock_answer =
  mk_status :: int
  mk_location :: "string option"
  mk_content :: "json option"
  mk_after :: rat

definition SLOW_RESPONSE_SECONDS :: rat where "SLOW_RESPONSE_SECONDS = 8"

definition METADATA_REDIRECT_TARGET :: string where
  "METADATA_REDIRECT_TARGET = ''http://169.254.169.254/latest/meta-data/''"

definition json_answer :: "int \<Rightarrow> (string \<times> json) list \<Rightarrow> mock_answer" where
  "json_answer status content =
     \<lparr>mk_status = status, mk_location = None, mk_content = Some (JObj content), mk_after = 0\<rparr>"

definition always_200 :: "byte list \<Rightarrow> mock_answer" where
  "always_200 body =
     json_answer 200 [(''mock'', JStr ''always-200''), (''received_bytes'', JInt (int (length body)))]"

definition always_500 :: mock_answer where
  "always_500 = json_answer 500 [(''mock'', JStr ''always-500'')]"

definition slow_8s :: mock_answer where
  "slow_8s = (json_answer 200 [(''mock'', JStr ''slow-8s'')])\<lparr>mk_after := SLOW_RESPONSE_SECONDS\<rparr>"

definition flaky_50 :: "rat \<Rightarrow> mock_answer" where
  "flaky_50 draw =
     (if draw < 1 / 2 then json_answer 200 [(''mock'', JStr ''flaky-50''), (''outcome'', JStr ''ok'')]
      else json_answer 500 [(''mock'', JStr ''flaky-50''), (''outcome'', JStr ''fail'')])"

definition redirect_to_metadata :: mock_answer where
  "redirect_to_metadata =
     \<lparr>mk_status = 307, mk_location = Some METADATA_REDIRECT_TARGET, mk_content = None, mk_after = 0\<rparr>"

subsection \<open>A delivery to a mock receiver\<close>

text \<open>
  The transport of the first hop brings back the answer of the receiver, or gives up on one that
  takes longer than the read timeout, as \<open>httpx\<close> does; \<open>render\<close> is the text of a JSON response.
\<close>

definition reaches_mock :: "rat \<Rightarrow> (json \<Rightarrow> string) \<Rightarrow> (byte list \<Rightarrow> mock_answer) \<Rightarrow> http_env \<Rightarrow> bool" where
  "reaches_mock read_timeout render receiver env \<longleftrightarrow>
     (\<forall>rq. he_transport env 0 rq =
        Inr (let a = receiver (rq_body rq) in
             if read_timeout < mk_after a then TimeoutException
             else Response (mk_status a) (mk_location a)
                    (case mk_content a of None \<Rightarrow> [] | Some j \<Rightarrow> render j)))"

lemma send_answered:
  assumes "check_url url (he_allowed_ports env) (he_resolver env 0) = Inr c" and "sc_allowed c"
    and "he_build env url payload (outbound_headers env headers) = Inr rq0" and "rq_body rq0 = payload"
    and "reaches_mock read_timeout render receiver env" and "mk_location (receiver payload) = None"
  shows "\<exists>rq. send env url payload headers =
    (Inr (if read_timeout < mk_after (receiver payload) then failed_result (he_elapsed_ms env 0) TIMEOUT
          else final_result (he_elapsed_ms env 0) (mk_status (receiver payload))
                 (case mk_content (receiver payload) of None \<Rightarrow> [] | Some j \<Rightarrow> render j)), [rq])"
proof -
  from check_url_allowed [OF assms(1,2)] obtain h ip where "sc_hostname c = Some h" "sc_resolved_ip c = Some ip"
    by metis
  then show ?thesis
    using assms(5) unfolding reaches_mock_def send_def
    by (intro exI [of _ "pin_request ip h rq0"], subst send_from.simps)
       (simp add: assms(1-4,6) pin_request_sel Let_def)
qed

lemma metadata_split:
  "urlsplit_with s METADATA_REDIRECT_TARGET = Inr \<lparr>u_scheme = ''http'', u_netloc = ''169.254.169.254'',
     u_path = ''/latest/meta-data/'', u_query = [], u_fragment = []\<rparr>"
  by (simp add: url_eval METADATA_REDIRECT_TARGET_def)

text \<open>The guard refuses the metadata address on any port: by its address, or already by the port.\<close>

lemma metadata_blocked:
  assumes "resolve_host ''169.254.169.254'' = Inr [''169.254.169.254'']"
  shows "\<exists>c. check_url METADATA_REDIRECT_TARGET ports resolve_host = Inr c \<and> \<not> sc_allowed c"
proof -
  have "parse_ip ''169.254.169.254'' = Inr METADATA_IP" by (simp add: ip_eval METADATA_IP_def)
  moreover have "is_denied METADATA_IP" by (simp add: is_denied_def)
  ultimately have "check_candidates ''169.254.169.254'' p [''169.254.169.254''] = Inr (denied_result
      (Some ''169.254.169.254'') (Some p) (Some ''169.254.169.254'') ''address denied: 169.254.169.254'')" for p
    by (simp add: check_candidates_def)
  then show ?thesis
    by (simp add: check_url_def urlsplit_def metadata_split url_hostname_def url_port_def hostinfo_def
        after_last_def py_partition_def py_lower_def py_lower_char_def denied_result_def assms Let_def)
qed

subsection \<open>Properties\<close>

text \<open>What each receiver is there to show.\<close>

datatype mock_route = Always200 | Always500 | Slow8s | Flaky50 rat | RedirectToMetadata

fun receiver_of :: "mock_route \<Rightarrow> byte list \<Rightarrow> mock_answer" where
  "receiver_of Always200 body = always_200 body"
| "receiver_of Always500 body = always_500"
| "receiver_of Slow8s body = slow_8s"
| "receiver_of (Flaky50 draw) body = flaky_50 draw"
| "receiver_of RedirectToMetadata body = redirect_to_metadata"

fun shown :: "mock_route \<Rightarrow> attempt_error_class option" where
  "shown Always200 = None"
| "shown Always500 = Some HTTP_ERROR"
| "shown Slow8s = Some TIMEOUT"
| "shown (Flaky50 draw) = (if draw < 1 / 2 then None else Some HTTP_ERROR)"
| "shown RedirectToMetadata = Some SSRF_BLOCKED"

text \<open>
  C35. Every failure path has its receiver: a delivery to a mock receiver makes one connection, the one
  to the receiver, and its recorded error class is the one the receiver is named for. In particular
  the redirect to the metadata address is followed by the guard's refusal and by no connection, and
  the slow receiver is a timeout for any read timeout below its eight seconds.
\<close>

theorem mock_receivers_show_their_outcome:
  assumes "check_url url (he_allowed_ports env) (he_resolver env 0) = Inr c" and "sc_allowed c"
    and "he_build env url payload (outbound_headers env headers) = Inr rq0" and "rq_body rq0 = payload"
    and "reaches_mock read_timeout render (receiver_of route) env" and "0 < read_timeout" and "read_timeout < 8"
    and "he_resolver env 1 ''169.254.169.254'' = Inr [''169.254.169.254'']"
  shows "\<exists>r rq. send env url payload headers = (Inr r, [rq]) \<and> o_error_class r = shown route \<and>
    (succeeded r \<longleftrightarrow> shown route = None)"
proof (cases "route = RedirectToMetadata")
  case True
  from check_url_allowed [OF assms(1,2)] obtain u where u: "urlsplit url = Inr u"
    "u_scheme u \<in> {''http'', ''https''}" by metis
  have join: "urljoin url METADATA_REDIRECT_TARGET = Inr METADATA_REDIRECT_TARGET"
    by (rule urljoin_absolute [OF u metadata_split])
       (simp_all add: METADATA_REDIRECT_TARGET_def split_params_def after_last_def py_partition_def uses_params_def)
  have answer: "\<forall>rq. he_transport env 0 rq = Inr (Response 307 (Some METADATA_REDIRECT_TARGET) [])"
    using assms(5,6) True by (simp add: reaches_mock_def redirect_to_metadata_def)
  obtain c' where "check_url METADATA_REDIRECT_TARGET (he_allowed_ports env) (he_resolver env 1) = Inr c'"
    "\<not> sc_allowed c'" 
    using metadata_blocked [of "he_resolver env 1" "he_allowed_ports env"] assms(8) by blast
  then show ?thesis
    using send_redirected [OF assms(1-3) answer _ _ _ join] True
    by (auto simp: send_from.simps [of env payload _ 2] MAX_REDIRECT_HOPS_def blocked_def succeeded_def
        METADATA_REDIRECT_TARGET_def)
next
  case False
  then have "mk_location (receiver_of route payload) = None"
    by (cases route) (simp_all add: always_200_def always_500_def slow_8s_def flaky_50_def json_answer_def)
  from send_answered [OF assms(1-5) this] show ?thesis
    using False assms(6,7)
    by (cases route)
       (auto simp: always_200_def always_500_def slow_8s_def flaky_50_def json_answer_def SLOW_RESPONSE_SECONDS_def
         failed_result_def final_result_def succeeded_def)
qed

text \<open>The console's scenario: the receiver is public, and redirects to the metadata address.\<close>

definition demo_mock :: http_env where
  "demo_mock = (demo_http TimeoutException)\<lparr>
     he_resolver := (\<lambda>_ h. if h = ''169.254.169.254'' then Inr [h] else demo_resolver h),
     he_transport := (\<lambda>_ _. Inr (Response 307 (Some METADATA_REDIRECT_TARGET) []))\<rparr>"

theorem mock_receivers_show_their_outcome_witness:
  "\<exists>r rq. send demo_mock ''https://example.com/hook'' [] [] = (Inr r, [rq]) \<and> o_error_class r = Some SSRF_BLOCKED"
proof -
  have "demo_resolver ''example.com'' = he_resolver demo_mock 0 ''example.com''"
    by (simp add: demo_mock_def)
  then have "check_url ''https://example.com/hook'' (he_allowed_ports demo_mock) (he_resolver demo_mock 0) =
      check_url ''https://example.com/hook'' [80, 443] demo_resolver"
    by (simp add: check_url_def demo_split url_hostname_def hostinfo_def after_last_def py_partition_def
        py_lower_def py_lower_char_def demo_mock_def demo_http_def)
  then have "check_url ''https://example.com/hook'' (he_allowed_ports demo_mock) (he_resolver demo_mock 0) =
      Inr \<lparr>sc_allowed = True, sc_hostname = Some ''example.com'', sc_port = Some 443,
          sc_resolved_ip = Some ''93.184.216.34'', sc_reason = None\<rparr>"
    by (simp add: demo_check)
  moreover have "reaches_mock 5 (\<lambda>_. []) (receiver_of RedirectToMetadata) demo_mock"
    by (simp add: reaches_mock_def demo_mock_def redirect_to_metadata_def)
  ultimately show ?thesis
    using mock_receivers_show_their_outcome [of "''https://example.com/hook''" demo_mock _ "[]" "[]" _ 5 "\<lambda>_. []"
        RedirectToMetadata]
    by (fastforce simp: demo_mock_def demo_http_def)
qed

end
