(* ===== verification/Backup.thy ===== *)
theory Backup
  imports Receiver "HOL-Library.List_Lexorder" "HOL-Library.Char_ord"
begin

section \<open>Backups and the restore drill\<close>

text \<open>
  \<open>scripts/backup_postgres.py\<close> and \<open>scripts/restore_drill.py\<close>. The object store, Docker and the two
  databases are arguments: what a listing holds, what a download and each command brings back. A
  drill returns its exit status, or the exception that ends it, with the commands it gave to the
  scratch container. A \<open>TimeoutError\<close> is an \<open>OSError\<close>.
\<close>

text \<open>\<open>strftime('%Y%m%dT%H%M%SZ')\<close>, for years of four digits.\<close>

definition compact_time :: "timestamp \<Rightarrow> string" where
  "compact_time t =
     (let (y, m, d) = civil_of_days (t div 86400000000); s = t mod 86400000000 div 1000000
      in pad_decimal 4 (nat y) @ pad_decimal 2 (nat m) @ pad_decimal 2 (nat d) @ ''T'' @
         pad_decimal 2 (nat (s div 3600)) @ pad_decimal 2 (nat (s div 60 mod 60)) @
         pad_decimal 2 (nat (s mod 60)) @ ''Z'')"

definition build_backup_key :: "string \<Rightarrow> timestamp \<Rightarrow> string" where
  "build_backup_key prefix now = prefix @ ''/relay-'' @ compact_time now @ ''.dump''"

text \<open>\<open>max\<close> of the listed keys, by code points.\<close>

definition latest_backup_key :: "string list \<Rightarrow> string option" where
  "latest_backup_key objects = (case objects of [] \<Rightarrow> None | k # ks \<Rightarrow> Some (foldl max k ks))"

subsection \<open>The drill\<close>

definition VERIFY_TABLES :: "string list" where
  "VERIFY_TABLES = [''tenants'', ''api_keys'', ''endpoints'', ''events'', ''outbox'', ''deliveries'', ''delivery_attempts'']"

definition READY_POLL_ATTEMPTS :: nat where "READY_POLL_ATTEMPTS = 30"

text \<open>\<open>status i\<close> is the exit status of the \<open>i\<close>-th \<open>pg_isready\<close>.\<close>

fun poll_ready :: "(nat \<Rightarrow> int) \<Rightarrow> nat \<Rightarrow> nat \<Rightarrow> bool" where
  "poll_ready status i 0 = False"
| "poll_ready status i (Suc n) = (if status i = 0 then True else poll_ready status (i + 1) n)"

definition wait_until_ready :: "string \<Rightarrow> (nat \<Rightarrow> int) \<Rightarrow> error + unit" where
  "wait_until_ready container status =
     (if poll_ready status 0 READY_POLL_ATTEMPTS then Inr ()
      else Inl (OSError (container @ '' never became ready to accept connections'')))"

text \<open>\<open>psql\<close> prints the count of a table, or the command fails.\<close>

fun row_counts :: "(string \<Rightarrow> error + string) \<Rightarrow> string list \<Rightarrow> error + (string \<times> int) list" where
  "row_counts psql [] = Inr []"
| "row_counts psql (table # tables) =
     res_bind (psql table) (\<lambda>out.
       case int_of_text out of
         None \<Rightarrow> Inl (ValueError out)
       | Some n \<Rightarrow> res_bind (row_counts psql tables) (\<lambda>counts. Inr ((table, n) # counts)))"

definition table_problem :: "(string \<times> int) list \<Rightarrow> string \<times> int \<Rightarrow> string list" where
  "table_problem live row =
     (case row of (table, restored_count) \<Rightarrow>
        (case map_of live table of
           None \<Rightarrow> [table @ '': missing from the live database entirely'']
         | Some live_count \<Rightarrow>
             if live_count < restored_count
             then [table @ '': restored '' @ decimal restored_count @ '' rows but live has only '' @
                   decimal live_count @ '' -- rows present at dump time have since disappeared'']
             else if restored_count = 0 \<and> 0 < live_count
             then [table @ '': restored 0 rows against '' @ decimal live_count @
                   '' live -- the dump or the restore did nothing for this table'']
             else []))"

definition compare_to_live :: "(string \<times> int) list \<Rightarrow> (string \<times> int) list \<Rightarrow> bool \<times> string list" where
  "compare_to_live restored live =
     (let problems = concat (map (table_problem live) restored) in (problems = [], problems))"

datatype drill_action = StartScratch string | RestoreInto string "byte list" | Teardown string

record drill_env =
  de_objects :: "string list"
  de_download :: "string \<Rightarrow> error + byte list"
  de_container :: string
  de_start :: "error + unit"
  de_ready :: "nat \<Rightarrow> int"
  de_restore :: "byte list \<Rightarrow> error + unit"
  de_scratch :: "string \<Rightarrow> error + string"
  de_live :: "string \<Rightarrow> error + string"

text \<open>The body of the \<open>try\<close>: the exit status, and whether the dump was handed to the container.\<close>

definition drill_body :: "bool \<Rightarrow> drill_env \<Rightarrow> byte list \<Rightarrow> (error + int) \<times> drill_action list" where
  "drill_body compare_live env dump =
     (case wait_until_ready (de_container env) (de_ready env) of
        Inl e \<Rightarrow> (Inl e, [])
      | Inr _ \<Rightarrow>
          (res_bind (de_restore env dump) (\<lambda>_.
           res_bind (row_counts (de_scratch env) VERIFY_TABLES) (\<lambda>restored.
             if \<not> compare_live then Inr 0
             else res_bind (row_counts (de_live env) VERIFY_TABLES) (\<lambda>live.
               Inr (if fst (compare_to_live restored live) then 0 else 1)))),
           [RestoreInto (de_container env) dump]))"

definition restore_drill :: "bool \<Rightarrow> bool \<Rightarrow> drill_env \<Rightarrow> (error + int) \<times> drill_action list" where
  "restore_drill keep compare_live env =
     (case latest_backup_key (de_objects env) of
        None \<Rightarrow> (Inr 1, [])
      | Some key \<Rightarrow>
          (case de_download env key of
             Inl e \<Rightarrow> (Inl e, [])
           | Inr dump \<Rightarrow>
               (case de_start env of
                  Inl e \<Rightarrow> (Inl e, [StartScratch (de_container env)])
                | Inr _ \<Rightarrow>
                    (case drill_body compare_live env dump of
                       (r, actions) \<Rightarrow>
                         (r, StartScratch (de_container env) # actions @
                             (if keep then [] else [Teardown (de_container env)]))))))"

subsection \<open>Days and dates are in the same order\<close>

definition leaps :: "int \<Rightarrow> int" where
  "leaps y = y div 4 - y div 100 + y div 400"

lemma leaps_mono: "a \<le> b \<Longrightarrow> leaps a \<le> leaps b"
proof -
  have eq: "leaps y = 24 * (y div 100) + y div 100 div 4 + y mod 100 div 4" for y
  proof -
    have "y = 100 * (y div 100) + y mod 100" by simp
    then have "y div 4 = 25 * (y div 100) + y mod 100 div 4" by linarith
    moreover have "y div 400 = y div 100 div 4" by (simp add: zdiv_zmult2_eq [symmetric])
    ultimately show ?thesis by (simp add: leaps_def)
  qed
  assume le: "a \<le> b"
  then have q: "a div 100 \<le> b div 100" by (simp add: zdiv_mono1)
  show ?thesis
  proof (cases "a div 100 = b div 100")
    case True
    then have "a mod 100 \<le> b mod 100" using le by (metis mult_div_mod_eq add_le_cancel_left)
    then show ?thesis unfolding eq True by (simp add: zdiv_mono1)
  next
    case False
    have "a div 100 div 4 \<le> b div 100 div 4" using q by (simp add: zdiv_mono1)
    moreover have "a mod 100 div 4 \<le> 24" "0 \<le> b mod 100 div 4"
      using pos_mod_bound [of 100 a] by (simp_all add: pos_imp_zdiv_nonneg_iff)
    ultimately show ?thesis unfolding eq using q False by linarith
  qed
qed

text \<open>The year that starts in March and the day in it, which a day number determines.\<close>

lemma civil_march_year:
  assumes "civil_of_days days = (y, m, d)"
  obtains yr doy mp where "days + 719468 = 365 * yr + leaps yr + doy" "0 \<le> doy" "doy \<le> 365"
    "mp = (5 * doy + 2) div 153" "0 \<le> mp" "mp \<le> 11" "d = doy - (153 * mp + 2) div 5 + 1"
    "m = (if mp < 10 then mp + 3 else mp - 9)" "y = (if mp < 10 then yr else yr + 1)"
proof -
  let ?z = "days + 719468" let ?era = "?z div 146097" let ?doe = "?z mod 146097"
  obtain yoe doy where se: "split_era ?doe = (yoe, doy)" by fastforce
  have b: "0 \<le> yoe" "yoe < 400" "0 \<le> doy" "doy \<le> 365" "365 * yoe + yoe div 4 - yoe div 100 + doy = ?doe"
    using split_era_bounds [OF _ _ se] by simp_all
  let ?mp = "(5 * doy + 2) div 153"
  have mp: "0 \<le> ?mp" "?mp \<le> 11" using b(3,4) by linarith+
  have civ: "m = (if ?mp < 10 then ?mp + 3 else ?mp - 9)" "d = doy - (153 * ?mp + 2) div 5 + 1"
    "y = yoe + ?era * 400 + (if m \<le> 2 then 1 else 0)"
    using assms by (auto simp: civil_of_days_def se Let_def)
  obtain e doe A B where v: "?era = e" "?doe = doe" "yoe div 4 = A" "yoe div 100 = B" by blast
  have "(yoe + e * 400) div 4 = A + 100 * e" "(yoe + e * 400) div 100 = B + 4 * e" "(yoe + e * 400) div 400 = e"
    using b(1,2) v(3,4) by linarith+
  then have "leaps (yoe + e * 400) = A + 97 * e - B" by (simp add: leaps_def)
  moreover have "?z = 146097 * e + doe" using v(1,2) by (metis mult_div_mod_eq)
  ultimately have "?z = 365 * (yoe + ?era * 400) + leaps (yoe + ?era * 400) + doy"
    using b(5) unfolding v by simp
  moreover have "y = (if ?mp < 10 then yoe + ?era * 400 else yoe + ?era * 400 + 1)"
    using civ(1,3) mp by auto
  ultimately show ?thesis using that b(3,4) mp civ(1,2) by blast
qed

lemma civil_order:
  assumes "a < b" and "civil_of_days a = (y1, m1, d1)" and "civil_of_days b = (y2, m2, d2)"
  shows "y1 < y2 \<or> y1 = y2 \<and> (m1 < m2 \<or> m1 = m2 \<and> d1 < d2)"
proof -
  obtain r1 o1 p1 where 1: "a + 719468 = 365 * r1 + leaps r1 + o1" "0 \<le> o1" "o1 \<le> 365"
    "p1 = (5 * o1 + 2) div 153" "0 \<le> p1" "p1 \<le> 11" "d1 = o1 - (153 * p1 + 2) div 5 + 1"
    "m1 = (if p1 < 10 then p1 + 3 else p1 - 9)" "y1 = (if p1 < 10 then r1 else r1 + 1)"
    using civil_march_year [OF assms(2)] .
  obtain r2 o2 p2 where 2: "b + 719468 = 365 * r2 + leaps r2 + o2" "0 \<le> o2" "o2 \<le> 365"
    "p2 = (5 * o2 + 2) div 153" "0 \<le> p2" "p2 \<le> 11" "d2 = o2 - (153 * p2 + 2) div 5 + 1"
    "m2 = (if p2 < 10 then p2 + 3 else p2 - 9)" "y2 = (if p2 < 10 then r2 else r2 + 1)"
    using civil_march_year [OF assms(3)] .
  have "r1 \<le> r2"
  proof (rule ccontr)
    assume "\<not> r1 \<le> r2"
    then have "leaps r2 \<le> leaps r1" "365 * r2 + 365 \<le> 365 * r1" using leaps_mono [of r2 r1] by simp_all
    then show False using assms(1) 1(1,2) 2(1,3) by linarith
  qed
  moreover have "p1 \<le> p2" "p1 = p2 \<longrightarrow> d1 < d2" if "r1 = r2"
  proof -
    have "o1 < o2" using that assms(1) 1(1) 2(1) by simp
    then show "p1 \<le> p2" "p1 = p2 \<longrightarrow> d1 < d2" unfolding 1(4) 2(4) 1(7) 2(7) by (auto intro: zdiv_mono1)
  qed
  ultimately show ?thesis
    using 1(5,6) 2(5,6) unfolding 1(8,9) 2(8,9) by (cases "r1 = r2") (auto split: if_splits)
qed

subsection \<open>Digits of one width are in the order of their numbers\<close>

lemma decimal_foldl_bounds:
  "list_all is_digit s \<Longrightarrow>
   10 ^ length s * a \<le> foldl (\<lambda>n c. 10 * n + (of_char c - 48)) a s \<and>
   foldl (\<lambda>n c. 10 * n + (of_char c - 48)) a s < 10 ^ length s * (a + 1)" for a :: nat
proof (induction s arbitrary: a)
  case (Cons c s)
  let ?v = "of_char c - 48 :: nat"
  have "(of_char c :: nat) \<le> 57" using Cons.prems by (simp add: is_digit_def)
  then have v: "?v \<le> 9" by simp
  have "10 ^ length s * (10 * a) \<le> 10 ^ length s * (10 * a + ?v)"
    "10 ^ length s * (10 * a + ?v + 1) \<le> 10 ^ length s * (10 * (a + 1))"
    using v by (intro mult_le_mono2; simp)+
  then show ?case using Cons.IH [of "10 * a + ?v"] Cons.prems by (simp add: algebra_simps)
qed simp

lemma digits_order:
  "length s = length t \<Longrightarrow> list_all is_digit s \<Longrightarrow> list_all is_digit t \<Longrightarrow>
   foldl (\<lambda>n c. 10 * n + (of_char c - 48)) a s < foldl (\<lambda>n c. 10 * n + (of_char c - 48)) a t \<Longrightarrow> s < t" for a :: nat
proof (induction s t arbitrary: a rule: list_induct2)
  case (Cons c s d t)
  let ?c = "of_char c :: nat" let ?d = "of_char d :: nat"
  have cd: "48 \<le> ?c" "48 \<le> ?d" using Cons.prems(1,2) by (simp_all add: is_digit_def)
  consider "?c < ?d" | "?c = ?d" | "?d < ?c" by linarith
  then show ?case
  proof cases
    case 3
    have "10 ^ length t * (10 * a + (?d - 48) + 1) \<le> 10 ^ length t * (10 * a + (?c - 48))"
      using 3 cd by (intro mult_le_mono2) simp
    then show ?thesis
      using Cons.prems Cons.hyps decimal_foldl_bounds [of t "10 * a + (?d - 48)"]
        decimal_foldl_bounds [of s "10 * a + (?c - 48)"] by simp
  next
    case 2
    then have "c = d" by (metis char_of_char)
    then show ?thesis using Cons.IH [of "10 * a + (?c - 48)"] Cons.prems by simp
  qed (simp add: less_char_def)
qed simp

lemma pad_order: "m < n \<Longrightarrow> n < 10 ^ w \<Longrightarrow> 0 < w \<Longrightarrow> pad_decimal w m < pad_decimal w n"
  using digits_order [of "pad_decimal w m" "pad_decimal w n" 0] decimal_value_pad [of w m] decimal_value_pad [of w n]
  by (simp add: length_pad pad_digits list_all_iff decimal_value_def)

lemma append_less_left: "s < t \<Longrightarrow> length s = length t \<Longrightarrow> s @ u < t @ v" for s t :: string
  by (induction s t rule: list_induct2') auto

lemma append_less_right: "u < v \<Longrightarrow> s @ u < s @ v" for u v :: string
  by (induction s) auto

lemma field_less:
  fixes m n :: int
  assumes "m < n \<or> m = n \<and> u < v" and "0 \<le> m" and "m < 10 ^ w" and "n < 10 ^ w" and "0 < w"
  shows "pad_decimal w (nat m) @ u < pad_decimal w (nat n) @ v"
proof -
  have w: "nat m < 10 ^ w" "nat n < 10 ^ w" using assms by (simp_all add: nat_less_iff)
  show ?thesis
  proof (cases "m < n")
    case True
    then have "nat m < nat n" using assms(2) by simp
    from append_less_left [OF pad_order [OF this w(2) assms(5)]] show ?thesis
      using w assms(5) by (simp add: length_pad)
  next
    case False
    then show ?thesis using assms(1) by (auto intro: append_less_right)
  qed
qed

text \<open>Six fields, the first of four digits.\<close>

lemma stamp_less:
  fixes y m d h k l y' m' d' h' k' l' :: int
  assumes "y < y' \<or> y = y' \<and> (m < m' \<or> m = m' \<and> (d < d' \<or> d = d' \<and>
      (h < h' \<or> h = h' \<and> (k < k' \<or> k = k' \<and> l < l'))))"
    and "list_all (\<lambda>x. 0 \<le> x \<and> x < 100) [m, d, h, k, l, m', d', h', k', l']" and "0 \<le> y" "y < 10000" "y' < 10000"
  shows "pad_decimal 4 (nat y) @ pad_decimal 2 (nat m) @ pad_decimal 2 (nat d) @ ''T'' @
      pad_decimal 2 (nat h) @ pad_decimal 2 (nat k) @ pad_decimal 2 (nat l) @ ''Z'' <
    pad_decimal 4 (nat y') @ pad_decimal 2 (nat m') @ pad_decimal 2 (nat d') @ ''T'' @
      pad_decimal 2 (nat h') @ pad_decimal 2 (nat k') @ pad_decimal 2 (nat l') @ ''Z''"
proof -
  have two: "x < x' \<or> x = x' \<and> u < v \<Longrightarrow> pad_decimal 2 (nat x) @ u < pad_decimal 2 (nat x') @ v"
    if "0 \<le> x" "x < 100" "x' < 100" for x x' :: int and u v
    using field_less [of x x' u v 2] that by simp
  have b: "0 \<le> m" "m < 100" "m' < 100" "0 \<le> d" "d < 100" "d' < 100" "0 \<le> h" "h < 100" "h' < 100"
    "0 \<le> k" "k < 100" "k' < 100" "0 \<le> l" "l < 100" "l' < 100" using assms(2) by simp_all
  let ?l = "pad_decimal 2 (nat l) @ ''Z''" and ?l' = "pad_decimal 2 (nat l') @ ''Z''"
  let ?k = "pad_decimal 2 (nat k) @ ?l" and ?k' = "pad_decimal 2 (nat k') @ ?l'"
  let ?h = "pad_decimal 2 (nat h) @ ?k" and ?h' = "pad_decimal 2 (nat h') @ ?k'"
  let ?d = "pad_decimal 2 (nat d) @ ''T'' @ ?h" and ?d' = "pad_decimal 2 (nat d') @ ''T'' @ ?h'"
  have "l < l' \<longrightarrow> ?l < ?l'" using two [OF b(13-15)] by blast
  then have "k < k' \<or> k = k' \<and> l < l' \<longrightarrow> ?k < ?k'" using two [OF b(10-12)] by blast
  then have "h < h' \<or> h = h' \<and> (k < k' \<or> k = k' \<and> l < l') \<longrightarrow> ''T'' @ ?h < ''T'' @ ?h'"
    using two [OF b(7-9)] by (simp, blast)
  then have "d < d' \<or> d = d' \<and> (h < h' \<or> h = h' \<and> (k < k' \<or> k = k' \<and> l < l')) \<longrightarrow> ?d < ?d'"
    using two [OF b(4-6)] by blast
  then have "m < m' \<or> m = m' \<and> (d < d' \<or> d = d' \<and> (h < h' \<or> h = h' \<and> (k < k' \<or> k = k' \<and> l < l'))) \<longrightarrow>
      pad_decimal 2 (nat m) @ ?d < pad_decimal 2 (nat m') @ ?d'"
    using two [OF b(1-3)] by blast
  then show ?thesis
    using assms(1,3-5) by (intro field_less) auto
qed

lemma clock_order:
  fixes a b :: int
  assumes "a < b" and "0 \<le> a"
  shows "a div 3600 < b div 3600 \<or> a div 3600 = b div 3600 \<and>
    (a div 60 mod 60 < b div 60 mod 60 \<or> a div 60 mod 60 = b div 60 mod 60 \<and> a mod 60 < b mod 60)"
proof (rule ccontr)
  obtain h k l h' k' l' where v: "a div 3600 = h" "a div 60 mod 60 = k" "a mod 60 = l"
    "b div 3600 = h'" "b div 60 mod 60 = k'" "b mod 60 = l'" by blast
  have fields: "x = 3600 * (x div 3600) + 60 * (x div 60 mod 60) + x mod 60" for x :: int
  proof -
    have "x div 60 = 60 * (x div 3600) + x div 60 mod 60"
      using mult_div_mod_eq [of 60 "x div 60"] by (simp add: zdiv_zmult2_eq [symmetric])
    then show ?thesis using mult_div_mod_eq [of 60 x] by linarith
  qed
  have ab: "a = 3600 * h + 60 * k + l" "b = 3600 * h' + 60 * k' + l'"
    using fields [of a] fields [of b] unfolding v by blast+
  have "0 \<le> a div 60 mod 60" "b div 60 mod 60 < 60" "0 \<le> a mod 60" "b mod 60 < 60" by simp_all
  then have bounds: "0 \<le> k" "k' < 60" "0 \<le> l" "l' < 60" unfolding v .
  assume "\<not> ?thesis"
  then consider "h' < h" | "h = h'" "k' < k" | "h = h'" "k = k'" "l' \<le> l" unfolding v by fastforce
  then show False using ab bounds assms(1) by cases linarith+
qed

lemma clock_fields:
  fixes x :: int
  assumes "0 \<le> x" and "x < 86400"
  shows "0 \<le> x div 3600 \<and> x div 3600 < 100 \<and> 0 \<le> x div 60 mod 60 \<and> x div 60 mod 60 < 100 \<and>
    0 \<le> x mod 60 \<and> x mod 60 < 100"
proof -
  have "x div 3600 \<le> 86399 div 3600" using assms(2) by (intro zdiv_mono1) simp_all
  moreover have "0 \<le> x div 3600" using assms(1) by (simp add: pos_imp_zdiv_nonneg_iff)
  moreover have "z mod 60 < 100" for z :: int by (rule less_trans [OF pos_mod_bound]) simp_all
  ultimately show ?thesis by simp
qed

lemma compact_time_less:
  assumes "0 \<le> t" and "u < 253402300800000000" and "t div 1000000 < u div 1000000"
  shows "compact_time t < compact_time u"
proof -
  obtain y1 m1 d1 where c1: "civil_of_days (t div 86400000000) = (y1, m1, d1)" by (metis prod_cases3)
  obtain y2 m2 d2 where c2: "civil_of_days (u div 86400000000) = (y2, m2, d2)" by (metis prod_cases3)
  have dt: "is_datetime t" "is_datetime u" using assms by (simp_all add: is_datetime_def)
  note b = civil_bounds [OF dt(1) c1] civil_bounds [OF dt(2) c2]
  let ?s = "t mod 86400000000 div 1000000" and ?r = "u mod 86400000000 div 1000000"
  have sr: "0 \<le> ?s" "?s < 86400" "0 \<le> ?r" "?r < 86400" by simp_all
  have split: "x div 1000000 = 86400 * (x div 86400000000) + x mod 86400000000 div 1000000" for x :: int
    using div_mult_self2 [of 1000000 "x mod 86400000000" "86400 * (x div 86400000000)"] by simp
  have "t div 86400000000 < u div 86400000000 \<or> t div 86400000000 = u div 86400000000 \<and> ?s < ?r"
  proof -
    obtain p q v w where x: "t div 86400000000 = p" "u div 86400000000 = q" "?s = v" "?r = w" by blast
    have "86400 * p + v < 86400 * q + w" using assms(3) unfolding split [of t] split [of u] x .
    moreover have "w < 86400" "0 \<le> v" using sr unfolding x by blast+
    ultimately show ?thesis unfolding x by (cases "p < q") auto
  qed
  then have order: "y1 < y2 \<or> y1 = y2 \<and> (m1 < m2 \<or> m1 = m2 \<and> (d1 < d2 \<or> d1 = d2 \<and>
      (?s div 3600 < ?r div 3600 \<or> ?s div 3600 = ?r div 3600 \<and>
       (?s div 60 mod 60 < ?r div 60 mod 60 \<or>
        ?s div 60 mod 60 = ?r div 60 mod 60 \<and> ?s mod 60 < ?r mod 60))))"
  proof
    assume "t div 86400000000 < u div 86400000000"
    from civil_order [OF this c1 c2] show ?thesis by blast
  next
    assume same: "t div 86400000000 = u div 86400000000 \<and> ?s < ?r"
    then have "y1 = y2" "m1 = m2" "d1 = d2" using c1 c2 by simp_all
    with clock_order [OF same [THEN conjunct2] sr(1)] show ?thesis by blast
  qed
  show ?thesis
    unfolding compact_time_def Let_def c1 c2 prod.case
    using b clock_fields [OF sr(1,2)] clock_fields [OF sr(3,4)] by (intro stamp_less [OF order]) simp_all
qed

lemma length_compact_time:
  assumes "0 \<le> t" and "t < 253402300800000000"
  shows "length (compact_time t) = 16"
proof -
  obtain y m d where c: "civil_of_days (t div 86400000000) = (y, m, d)" by (metis prod_cases3)
  have "is_datetime t" using assms by (simp add: is_datetime_def)
  note b = civil_bounds [OF this c]
  let ?s = "t mod 86400000000 div 1000000"
  have "0 \<le> ?s" "?s < 86400" by simp_all
  from clock_fields [OF this] show ?thesis
    unfolding compact_time_def c Let_def prod.case using b by (simp add: length_pad nat_less_iff)
qed

lemma backup_key_mono:
  assumes "0 \<le> t" and "t \<le> u" and "u < 253402300800000000"
  shows "build_backup_key p t \<le> build_backup_key p u"
proof (cases "t div 1000000 = u div 1000000")
  case True
  have "x div 86400000000 = x div 1000000 div 86400" "x mod 86400000000 div 1000000 = x div 1000000 mod 86400" for x :: int
  proof -
    show "x div 86400000000 = x div 1000000 div 86400" by (simp add: zdiv_zmult2_eq [symmetric])
    then show "x mod 86400000000 div 1000000 = x div 1000000 mod 86400"
      using div_mult_self2 [of 1000000 "x mod 86400000000" "86400 * (x div 86400000000)"]
      by (simp add: minus_mult_div_eq_mod [symmetric])
  qed
  then have "compact_time t = compact_time u" using True by (simp add: compact_time_def)
  then show ?thesis by (simp add: build_backup_key_def)
next
  case False
  then have "t div 1000000 < u div 1000000" using zdiv_mono1 [OF assms(2), of 1000000] by simp
  from compact_time_less [OF assms(1,3) this] show ?thesis
    unfolding build_backup_key_def
    using length_compact_time [of t] length_compact_time [of u] assms
    by (intro less_imp_le append_less_right append_less_left) simp_all
qed

lemma foldl_max_keys:
  assumes "\<forall>t \<in> set (t # ts). 0 \<le> t \<and> t < 253402300800000000"
  shows "foldl max (build_backup_key p t) (map (build_backup_key p) ts) = build_backup_key p (foldl max t ts)"
  using assms
proof (induction ts arbitrary: t)
  case (Cons u ts)
  have "max (build_backup_key p t) (build_backup_key p u) = build_backup_key p (max t u)"
    using backup_key_mono [of t u p] backup_key_mono [of u t p] Cons.prems by (auto simp: max_def)
  then show ?case using Cons.IH [of "max t u"] Cons.prems by (auto simp: max_def)
qed simp

lemma foldl_max_Max: "foldl max t ts = Max (set (t # ts))" for t :: int
proof (induction ts arbitrary: t)
  case (Cons u ts)
  have "Max (insert (max t u) (set ts)) = Max (insert t (insert u (set ts)))"
    by (cases "ts = []") (simp_all add: max.assoc)
  then show ?case using Cons by simp
qed simp

lemma latest_backup:
  assumes "\<forall>t \<in> set ts. 0 \<le> t \<and> t < 253402300800000000" and "ts \<noteq> []"
  shows "latest_backup_key (map (build_backup_key p) ts) = Some (build_backup_key p (Max (set ts)))"
  using assms foldl_max_keys foldl_max_Max by (cases ts) (auto simp: latest_backup_key_def)

text \<open>A table passes when no row of the dump is missing and not all of them are.\<close>

definition table_restored :: "(string \<times> int) list \<Rightarrow> string \<times> int \<Rightarrow> bool" where
  "table_restored live row \<longleftrightarrow>
     (\<exists>n. map_of live (fst row) = Some n \<and> snd row \<le> n \<and> (snd row = 0 \<longrightarrow> n \<le> 0))"

lemma table_problem_Nil: "table_problem live row = [] \<longleftrightarrow> table_restored live row"
  by (cases row) (auto simp: table_problem_def table_restored_def split: option.split)

lemma compare_to_live_iff: "fst (compare_to_live restored live) \<longleftrightarrow> (\<forall>row \<in> set restored. table_restored live row)"
  by (simp add: compare_to_live_def table_problem_Nil)

lemma drill_body_actions:
  "drill_body compare env dump = (r, as) \<Longrightarrow> set as \<subseteq> {RestoreInto (de_container env) dump}"
  by (auto simp: drill_body_def split: sum.splits)

lemma drill_body_ok:
  assumes "drill_body True env dump = (Inr 0, as)"
  shows "\<exists>restored live. de_restore env dump = Inr () \<and>
    row_counts (de_scratch env) VERIFY_TABLES = Inr restored \<and> row_counts (de_live env) VERIFY_TABLES = Inr live \<and>
    (\<forall>row \<in> set restored. table_restored live row) \<and> as = [RestoreInto (de_container env) dump]"
proof -
  obtain u v where w: "wait_until_ready (de_container env) (de_ready env) = Inr u" "de_restore env dump = Inr v"
    using assms by (auto simp: drill_body_def res_bind_Inr_iff split: sum.splits)
  then obtain restored live where "row_counts (de_scratch env) VERIFY_TABLES = Inr restored"
    "row_counts (de_live env) VERIFY_TABLES = Inr live" "fst (compare_to_live restored live)"
    using assms by (auto simp: drill_body_def res_bind_Inr_iff split: if_splits)
  then show ?thesis
    using w assms by (auto simp: drill_body_def compare_to_live_iff)
qed

subsection \<open>Properties\<close>

text \<open>
  C36. A drill is honest about the newest backup: when the bucket holds the dumps taken at the times
  \<open>ts\<close>, in any order, it restores the last one and no other; status 0 after a comparison means that
  \<open>pg_restore\<close> accepted that dump and that no table has fewer rows live than restored, nor rows live
  and none restored; and whatever happens after the scratch container has started, an exception
  included, it is removed at the end, unless \<open>--keep\<close> asks to leave it.
\<close>

theorem drill_tests_the_latest_backup:
  assumes "\<forall>t \<in> set ts. 0 \<le> t \<and> t < 253402300800000000" and "ts \<noteq> []"
    and "de_objects env = map (build_backup_key p) ts"
    and "restore_drill keep compare env = (r, actions)"
  shows "(\<forall>c dump. RestoreInto c dump \<in> set actions \<longrightarrow>
        de_download env (build_backup_key p (Max (set ts))) = Inr dump) \<and>
    (compare \<and> r = Inr 0 \<longrightarrow> (\<exists>dump restored live.
        de_download env (build_backup_key p (Max (set ts))) = Inr dump \<and> de_restore env dump = Inr () \<and>
        row_counts (de_scratch env) VERIFY_TABLES = Inr restored \<and>
        row_counts (de_live env) VERIFY_TABLES = Inr live \<and> (\<forall>row \<in> set restored. table_restored live row))) \<and>
    (StartScratch (de_container env) \<in> set actions \<and> de_start env = Inr () \<and> \<not> keep \<longrightarrow>
        last actions = Teardown (de_container env)) \<and>
    (keep \<longrightarrow> (\<forall>c. Teardown c \<notin> set actions))"
proof -
  note key = latest_backup [OF assms(1,2), of p]
  show ?thesis
  proof (cases "de_download env (build_backup_key p (Max (set ts)))")
    case (Inl e)
    then show ?thesis using assms(4) by (auto simp: restore_drill_def assms(3) key)
  next
    case dump: (Inr dump)
    show ?thesis
    proof (cases "de_start env")
      case (Inl e)
      then show ?thesis using assms(4) dump by (auto simp: restore_drill_def assms(3) key)
    next
      case (Inr u)
      obtain r' as where body: "drill_body compare env dump = (r', as)" by fastforce
      note acts = drill_body_actions [OF body]
      have run: "r = r'" "actions = StartScratch (de_container env) # as @ (if keep then [] else [Teardown (de_container env)])"
        using assms(4) dump Inr body by (auto simp: restore_drill_def assms(3) key)
      have "compare \<and> r = Inr 0 \<longrightarrow> (\<exists>restored live. de_restore env dump = Inr () \<and>
          row_counts (de_scratch env) VERIFY_TABLES = Inr restored \<and>
          row_counts (de_live env) VERIFY_TABLES = Inr live \<and> (\<forall>row \<in> set restored. table_restored live row))"
        using drill_body_ok [of env dump as] body run(1) by auto
      then show ?thesis using acts dump unfolding run(2) by auto
    qed
  qed
qed

definition demo_drill :: drill_env where
  "demo_drill =
     \<lparr>de_objects = map (build_backup_key ''postgres'') [86400000000, 0], de_download = (\<lambda>k. Inr (encode k)),
      de_container = ''scratch'', de_start = Inr (), de_ready = (\<lambda>i. if i = 2 then 0 else 1), de_restore = (\<lambda>_. Inr ()),
      de_scratch = (\<lambda>_. Inr ''3''), de_live = (\<lambda>_. Inr ''4'')\<rparr>"

theorem drill_tests_the_latest_backup_witness:
  "\<exists>actions. restore_drill False True demo_drill = (Inr 0, actions) \<and> last actions = Teardown ''scratch'' \<and>
     (\<forall>c dump. RestoreInto c dump \<in> set actions \<longrightarrow>
        dump = encode (build_backup_key ''postgres'' 86400000000))"
proof -
  obtain r actions where run: "restore_drill False True demo_drill = (r, actions)" by fastforce
  have bounds: "\<forall>t \<in> set [86400000000, 0 :: timestamp]. 0 \<le> t \<and> t < 253402300800000000"
    and objs: "de_objects demo_drill = map (build_backup_key ''postgres'') [86400000000, 0]"
    by (simp_all add: demo_drill_def)
  have nums: "int_of_text ''3'' = Some 3" "int_of_text ''4'' = Some 4" by code_simp+
  have key: "latest_backup_key (de_objects demo_drill) = Some (build_backup_key ''postgres'' 86400000000)"
    using latest_backup [OF bounds, of "''postgres''"] unfolding objs by simp
  have counts: "row_counts (de_scratch demo_drill) VERIFY_TABLES = Inr (map (\<lambda>t. (t, 3)) VERIFY_TABLES)"
    "row_counts (de_live demo_drill) VERIFY_TABLES = Inr (map (\<lambda>t. (t, 4)) VERIFY_TABLES)"
    by (simp_all add: VERIFY_TABLES_def demo_drill_def nums)
  have "fst (compare_to_live (map (\<lambda>t. (t, 3)) VERIFY_TABLES) (map (\<lambda>t. (t, 4)) VERIFY_TABLES))"
    by (simp add: compare_to_live_iff table_restored_def VERIFY_TABLES_def)
  moreover have "wait_until_ready (de_container demo_drill) (de_ready demo_drill) = Inr ()"
    by (simp add: wait_until_ready_def READY_POLL_ATTEMPTS_def demo_drill_def eval_nat_numeral)
  ultimately have "fst (drill_body True demo_drill dump) = Inr 0" for dump
    using counts by (simp add: drill_body_def demo_drill_def)
  moreover have "de_download demo_drill k = Inr (encode k)" "de_start demo_drill = Inr ()"
    "de_container demo_drill = ''scratch''" for k
    by (simp_all add: demo_drill_def)
  ultimately have "r = Inr 0" "StartScratch ''scratch'' \<in> set actions"
    using run unfolding restore_drill_def key by (auto simp: prod_eq_iff split: prod.splits)
  then show ?thesis
    using drill_tests_the_latest_backup [OF bounds _ objs run] run by (simp add: demo_drill_def)
qed

end
