(* ===== verification/Provision.thy ===== *)
theory Provision
  imports SandboxAccess
begin

section \<open>Fixtures for the load test\<close>

text \<open>
  \<open>scripts/load_test_setup.py\<close>: a tenant without quotas, a key for every scope and a batch of
  endpoints, created through the services themselves. Random and server-drawn values are arguments;
  a \<open>SystemExit\<close> is its message.
\<close>

definition PROFILE_MOCK_PATHS :: "(string \<times> string) list" where
  "PROFILE_MOCK_PATHS = [(''healthy'', ''/mock/always-200''), (''failing'', ''/mock/flaky-50'')]"

definition DEFAULT_EVENT_TYPE :: string where "DEFAULT_EVENT_TYPE = ''load-test.ping''"
definition FULL_SCOPE :: "string list" where "FULL_SCOPE = [''*'']"

record provision_result =
  lt_tenant_id :: uuid
  lt_tenant_name :: string
  lt_api_key :: string
  lt_base_url :: string
  lt_profile :: string
  lt_mock_path :: string
  lt_event_type :: string
  lt_endpoint_ids :: "uuid list"

definition provision_result_json :: "provision_result \<Rightarrow> json" where
  "provision_result_json r =
     JObj [(''tenant_id'', JStr (uuid_str (lt_tenant_id r))), (''tenant_name'', JStr (lt_tenant_name r)),
           (''api_key'', JStr (lt_api_key r)), (''base_url'', JStr (lt_base_url r)),
           (''profile'', JStr (lt_profile r)), (''mock_path'', JStr (lt_mock_path r)),
           (''event_type'', JStr (lt_event_type r)),
           (''endpoint_count'', JInt (int (length (lt_endpoint_ids r)))),
           (''endpoint_ids'', JArr (map (\<lambda>i. JStr (uuid_str i)) (lt_endpoint_ids r)))]"

definition validate_base_url :: "string \<Rightarrow> error + string option" where
  "validate_base_url base_url =
     res_bind (urlsplit base_url) (\<lambda>parsed. Inr (
       if u_scheme parsed \<noteq> ''https''
       then Some (''--base-url must be https:// -- registered endpoints are rejected otherwise '' @
         ''by relay.services.endpoints.service.EndpointService._validate_url: got '' @ py_repr base_url @ ''. '' @
         ''See tests/load/README.md for why (the endpoint URL validation rule is a '' @
         ''production security invariant, not something this script works around).'')
       else if u_netloc parsed = []
       then Some (''--base-url must include a host: got '' @ py_repr base_url)
       else None))"

record provision_draws =
  pv_name :: uuid
  pv_tenant_id :: uuid
  pv_created_at :: timestamp
  pv_key :: key_draw
  pv_endpoints :: "(uuid \<times> timestamp \<times> byte list) list"

text \<open>\<open>base_url.rstrip("/")\<close> and the receiver's path.\<close>

definition destination_url :: "string \<Rightarrow> string \<Rightarrow> string" where
  "destination_url base_url mock_path = rev (dropWhile (\<lambda>c. c = CHR ''/'') (rev base_url)) @ mock_path"

definition load_tenant_name :: "uuid \<Rightarrow> string" where
  "load_tenant_name u = ''load-test-'' @ take 10 (uuid_hex u)"

fun register_endpoints ::
  "(uuid \<times> timestamp \<times> byte list) list \<Rightarrow> uuid \<Rightarrow> string \<Rightarrow> string \<Rightarrow> uuid list service" where
  "register_endpoints [] tenant_id url event_type st = (Inr [], st)"
| "register_endpoints ((new_id, now, entropy) # draws) tenant_id url event_type st =
     (case endpoint_register new_id now entropy tenant_id url [event_type] st of
        (Inl e, st') \<Rightarrow> (Inl e, st')
      | (Inr ep, st') \<Rightarrow>
          (case register_endpoints draws tenant_id url event_type st' of
             (Inl e, st'') \<Rightarrow> (Inl e, st'')
           | (Inr ids, st'') \<Rightarrow> (Inr (ep_id ep # ids), st'')))"

definition provision ::
  "provision_draws \<Rightarrow> nat \<Rightarrow> string \<Rightarrow> string \<Rightarrow> string \<Rightarrow> provision_result service" where
  "provision draws count profile base_url event_type st =
     (case map_of PROFILE_MOCK_PATHS profile of
        None \<Rightarrow> (Inl (KeyError profile), st)
      | Some mock_path \<Rightarrow>
          let url = destination_url base_url mock_path;
              tenant_name = load_tenant_name (pv_name draws)
          in (case with_uow (bindT (repoT (tenants_create (pv_tenant_id draws) (pv_created_at draws) tenant_name False))
                       (\<lambda>t. bindT uow_commit (\<lambda>_. returnT t))) st of
                (Inl e, st1) \<Rightarrow> (Inl e, st1)
              | (Inr t, st1) \<Rightarrow>
                  (case api_key_issue (pv_key draws) (t_id t) FULL_SCOPE None st1 of
                     (Inl e, st2) \<Rightarrow> (Inl e, st2)
                   | (Inr (_, plaintext_key), st2) \<Rightarrow>
                       (case register_endpoints (take count (pv_endpoints draws)) (t_id t) url event_type st2 of
                          (Inl e, st3) \<Rightarrow> (Inl e, st3)
                        | (Inr ids, st3) \<Rightarrow>
                            (Inr \<lparr>lt_tenant_id = t_id t, lt_tenant_name = tenant_name, lt_api_key = plaintext_key,
                                  lt_base_url = base_url, lt_profile = profile, lt_mock_path = mock_path,
                                  lt_event_type = event_type, lt_endpoint_ids = ids\<rparr>, st3)))))"

text \<open>The script's run: the message it exits with, or the fixture.\<close>

definition provision_run ::
  "provision_draws \<Rightarrow> nat \<Rightarrow> string \<Rightarrow> string \<Rightarrow> string \<Rightarrow> (string + provision_result) service" where
  "provision_run draws count profile base_url event_type st =
     (case validate_base_url base_url of
        Inl e \<Rightarrow> (Inl e, st)
      | Inr (Some message) \<Rightarrow> (Inr (Inl message), st)
      | Inr None \<Rightarrow>
          (case provision draws count profile base_url event_type st of
             (Inl e, st') \<Rightarrow> (Inl e, st') | (Inr r, st') \<Rightarrow> (Inr (Inr r), st')))"

subsection \<open>What a run leaves behind\<close>

definition load_tenant :: "provision_draws \<Rightarrow> tenant" where
  "load_tenant draws =
     \<lparr>t_id = pv_tenant_id draws, t_name = load_tenant_name (pv_name draws),
      t_created_at = pv_created_at draws, t_deleted_at = None, t_is_sandbox = False\<rparr>"

definition load_endpoint :: "uuid \<Rightarrow> string \<Rightarrow> string \<Rightarrow> uuid \<times> timestamp \<times> byte list \<Rightarrow> endpoint" where
  "load_endpoint tenant_id url event_type draw =
     (case draw of (i, now, b) \<Rightarrow>
        \<lparr>ep_id = i, ep_tenant_id = tenant_id, ep_url = url, ep_secret = token_urlsafe b,
         ep_event_types = [event_type], ep_created_at = now, ep_status = ACTIVE, ep_breaker_state = CLOSED,
         ep_opened_at = None, ep_consecutive_failures = 0\<rparr>)"

definition fresh_provision :: "provision_draws \<Rightarrow> nat \<Rightarrow> db \<Rightarrow> bool" where
  "fresh_provision draws count s \<longleftrightarrow>
     pv_tenant_id draws \<notin> t_id ` set (db_tenants s) \<and>
     kd_id (pv_key draws) \<notin> k_id ` set (db_api_keys s) \<and>
     token_urlsafe (kd_prefix_bytes (pv_key draws)) \<notin> k_key_prefix ` set (db_api_keys s) \<and>
     kd_prefix_bytes (pv_key draws) \<noteq> [] \<and> kd_secret_bytes (pv_key draws) \<noteq> [] \<and>
     length (pv_endpoints draws) = count \<and> distinct (map fst (pv_endpoints draws)) \<and>
     fst ` set (pv_endpoints draws) \<inter> ep_id ` set (db_endpoints s) = {}"

lemma register_endpoints_run:
  assumes "validate_url url = Inr ()" and "validate_event_types [ty] = Inr ()"
    and "t \<in> t_id ` set (db_tenants (st_db st))" and "distinct (map fst draws)"
    and "fst ` set draws \<inter> ep_id ` set (db_endpoints (st_db st)) = {}"
  shows "register_endpoints draws t url ty st =
    (Inr (map fst draws),
     st\<lparr>st_db := (st_db st)\<lparr>db_endpoints := db_endpoints (st_db st) @ map (load_endpoint t url ty) draws\<rparr>\<rparr>)"
  using assms(3-)
proof (induction draws arbitrary: st)
  case (Cons draw draws)
  obtain i now b where draw: "draw = (i, now, b)" by (cases draw)
  have "endpoint_register i now b t url [ty] st =
      (Inr (load_endpoint t url ty draw), st\<lparr>st_db := (st_db st)\<lparr>db_endpoints :=
         db_endpoints (st_db st) @ [load_endpoint t url ty draw]\<rparr>\<rparr>)"
    using Cons.prems by (simp add: endpoint_register_run assms(1,2) endpoints_create_def load_endpoint_def draw Let_def)
  moreover have "ep_id (load_endpoint t url ty draw) = i" by (simp add: load_endpoint_def draw)
  ultimately show ?case using Cons.prems draw by (auto simp: Cons.IH)
qed simp

definition load_result :: "provision_draws \<Rightarrow> string \<Rightarrow> string \<Rightarrow> string \<Rightarrow> string \<Rightarrow> provision_result" where
  "load_result draws profile base path ty =
     \<lparr>lt_tenant_id = pv_tenant_id draws, lt_tenant_name = t_name (load_tenant draws),
      lt_api_key = plaintext (pv_key draws), lt_base_url = base, lt_profile = profile, lt_mock_path = path,
      lt_event_type = ty, lt_endpoint_ids = map fst (pv_endpoints draws)\<rparr>"

definition with_tenant :: "provision_draws \<Rightarrow> store \<Rightarrow> store" where
  "with_tenant draws st = st\<lparr>st_db := (st_db st)\<lparr>db_tenants := db_tenants (st_db st) @ [load_tenant draws]\<rparr>\<rparr>"

definition load_key :: "provision_draws \<Rightarrow> api_key" where
  "load_key draws = new_key (pv_key draws) (pv_tenant_id draws) FULL_SCOPE None"

definition with_key :: "provision_draws \<Rightarrow> store \<Rightarrow> store" where
  "with_key draws st = (let s = st_db (with_tenant draws st) in
     (with_tenant draws st)\<lparr>st_db := s\<lparr>db_api_keys := db_api_keys s @ [load_key draws]\<rparr>\<rparr>)"

definition with_endpoints :: "provision_draws \<Rightarrow> string \<Rightarrow> string \<Rightarrow> store \<Rightarrow> store" where
  "with_endpoints draws url ty st = (let s = st_db (with_key draws st) in
     (with_key draws st)\<lparr>st_db := s\<lparr>db_endpoints := db_endpoints s @
        map (load_endpoint (pv_tenant_id draws) url ty) (pv_endpoints draws)\<rparr>\<rparr>)"

lemma load_tenant_created:
  assumes "fresh_provision draws count (st_db st)"
  shows "with_uow (bindT (repoT (tenants_create (pv_tenant_id draws) (pv_created_at draws)
      (load_tenant_name (pv_name draws)) False)) (\<lambda>t. bindT uow_commit (\<lambda>_. returnT t))) st =
    (Inr (load_tenant draws), with_tenant draws st)"
  using assms unfolding with_uow_repo_commit [where f = "\<lambda>x. x"]
  by (simp add: tenants_create_def Let_def fresh_provision_def load_tenant_def with_tenant_def)

lemma load_key_issued:
  assumes "fresh_provision draws count (st_db st)"
  shows "api_key_issue (pv_key draws) (pv_tenant_id draws) FULL_SCOPE None (with_tenant draws st) =
    (Inr (load_key draws, plaintext (pv_key draws)), with_key draws st)"
  using assms
  by (simp add: api_key_issue_run fresh_provision_def load_tenant_def with_tenant_def with_key_def load_key_def)

lemma load_endpoints_registered:
  assumes "fresh_provision draws count (st_db st)"
    and "validate_url url = Inr ()" and "validate_event_types [ty] = Inr ()"
  shows "register_endpoints (pv_endpoints draws) (pv_tenant_id draws) url ty (with_key draws st) =
    (Inr (map fst (pv_endpoints draws)), with_endpoints draws url ty st)"
  using assms
  by (subst register_endpoints_run)
    (simp_all add: fresh_provision_def with_tenant_def with_key_def with_endpoints_def load_tenant_def)

lemma provision_run_fresh:
  assumes "fresh_provision draws count (st_db st)" and "map_of PROFILE_MOCK_PATHS profile = Some path"
    and "validate_url (destination_url base path) = Inr ()" and "validate_event_types [ty] = Inr ()"
  shows "provision draws count profile base ty st =
    (Inr (load_result draws profile base path ty), with_endpoints draws (destination_url base path) ty st)"
proof -
  have "t_id (load_tenant draws) = pv_tenant_id draws" "length (pv_endpoints draws) \<le> count"
    using assms(1) by (simp_all add: load_tenant_def fresh_provision_def)
  then show ?thesis
    by (simp add: provision_def assms(2) Let_def load_tenant_created [OF assms(1)] load_key_issued [OF assms(1)]
        load_endpoints_registered [OF assms(1,3,4)] load_result_def) (simp add: load_tenant_def)
qed

text \<open>The key that the run issued is the one it reports, and it is accepted.\<close>

lemma load_key_authenticates:
  assumes "keys_hashed (st_db st)" and "fresh_provision draws count (st_db st)"
  shows "require_scope scope now (Some (plaintext (pv_key draws))) (with_endpoints draws url ty st) =
    (Inr \<lparr>ac_tenant = load_tenant draws, ac_api_key = load_key draws\<rparr>, with_endpoints draws url ty st)"
proof -
  let ?w = "with_tenant draws st" and ?k = "with_key draws st" and ?e = "with_endpoints draws url ty st"
  have tn: "tenants_get (pv_tenant_id draws) (st_db ?w) = Some (load_tenant draws)"
    using assms(2) unfolding fresh_provision_def
    by (simp add: tenants_get_def find_by_append with_tenant_def load_tenant_def find_by_None_iff [THEN iffD2])
  have "keys_hashed (st_db ?w)" "keys_hashed (st_db ?k)"
    using assms(1)
    by (auto simp: with_tenant_def with_key_def keys_hashed_def load_key_def new_key_def Let_def)
  moreover have same: "db_api_keys (st_db ?e) = db_api_keys (st_db ?k)" "db_tenants (st_db ?e) = db_tenants (st_db ?k)"
    by (simp_all add: with_endpoints_def Let_def)
  ultimately have h: "keys_hashed (st_db ?w)" "keys_hashed (st_db ?k)" "keys_hashed (st_db ?e)"
    by (simp_all add: keys_hashed_def)
  have "require_scope scope now (Some (plaintext (pv_key draws))) ?k =
      (Inr \<lparr>ac_tenant = load_tenant draws, ac_api_key = load_key draws\<rparr>, ?k)"
    using issued_key_auth(1) [OF h(1) tn _ _ _ _ load_key_issued [OF assms(2)]] assms(2)
    by (simp add: fresh_provision_def with_tenant_def load_tenant_def is_deleted_def FULL_SCOPE_def WILDCARD_SCOPE_def)
  moreover have "tenants_get t (st_db ?e) = tenants_get t (st_db ?k)"
    and "api_keys_get_by_prefix x (st_db ?e) = api_keys_get_by_prefix x (st_db ?k)" for t x
    by (simp_all add: tenants_get_def api_keys_get_by_prefix_def same)
  then have "auth_result scope now p (st_db ?e) = auth_result scope now p (st_db ?k)" for p
    unfolding auth_result_def presented_for_def usable_def by presburger
  ultimately show ?thesis by (simp add: require_scope_run h)
qed

subsection \<open>Properties\<close>

text \<open>
  The fixture is what a load test needs: with fresh identifiers and a destination the endpoint
  service accepts, the run succeeds; its key authenticates at any time and for any scope as the new
  tenant; exactly \<open>count\<close> endpoints are added, every one of them active, at the mock receiver of the
  profile and subscribed to the event type, so that each event of that type will be fanned out to all
  of them; and no quota of the sandbox ever applies to the tenant.
\<close>

theorem load_fixture_is_usable:
  assumes "keys_hashed (st_db st)" and "fresh_provision draws count (st_db st)"
    and "validate_base_url base = Inr None" and "map_of PROFILE_MOCK_PATHS profile = Some path"
    and "validate_url (destination_url base path) = Inr ()" and "validate_event_types [ty] = Inr ()"
  shows "\<exists>r k st'. provision_run draws count profile base ty st = (Inr (Inr r), st') \<and>
    (\<forall>scope now. require_scope scope now (Some (lt_api_key r)) st' =
       (Inr \<lparr>ac_tenant = load_tenant draws, ac_api_key = k\<rparr>, st')) \<and>
    (\<exists>eps. db_endpoints (st_db st') = db_endpoints (st_db st) @ eps \<and> length eps = count \<and>
       map ep_id eps = lt_endpoint_ids r \<and>
       (\<forall>ep \<in> set eps. ep_tenant_id ep = t_id (load_tenant draws) \<and> ep_url ep = destination_url base path \<and>
          is_active ep \<and> is_subscribed_to ep ty)) \<and>
    (\<forall>cfg s. assert_endpoint_quota cfg (load_tenant draws) s = (Inr (), s) \<and>
       assert_event_quota cfg (load_tenant draws) s = (Inr (), s))"
proof -
  let ?url = "destination_url base path"
  let ?r = "load_result draws profile base path ty" and ?st' = "with_endpoints draws ?url ty st"
  let ?eps = "map (load_endpoint (pv_tenant_id draws) ?url ty) (pv_endpoints draws)"
  have run: "provision_run draws count profile base ty st = (Inr (Inr ?r), ?st')"
    by (simp add: provision_run_def assms(3) provision_run_fresh [OF assms(2,4-6)])
  have auth: "\<forall>scope now. require_scope scope now (Some (lt_api_key ?r)) ?st' =
      (Inr \<lparr>ac_tenant = load_tenant draws, ac_api_key = load_key draws\<rparr>, ?st')"
    using load_key_authenticates [OF assms(1,2)] by (simp add: load_result_def)
  have eps: "db_endpoints (st_db ?st') = db_endpoints (st_db st) @ ?eps" "length ?eps = count"
    "map ep_id ?eps = lt_endpoint_ids ?r"
    using assms(2)
    by (auto simp: with_endpoints_def with_key_def with_tenant_def Let_def load_result_def fresh_provision_def load_endpoint_def)
  have ok: "\<forall>ep \<in> set ?eps. ep_tenant_id ep = t_id (load_tenant draws) \<and> ep_url ep = ?url \<and>
      is_active ep \<and> is_subscribed_to ep ty"
    by (auto simp: load_endpoint_def load_tenant_def is_active_def is_subscribed_to_def)
  have quota: "\<forall>cfg s. assert_endpoint_quota cfg (load_tenant draws) s = (Inr (), s) \<and>
      assert_event_quota cfg (load_tenant draws) s = (Inr (), s)"
    by (simp add: assert_endpoint_quota_def assert_event_quota_def load_tenant_def)
  show ?thesis
    using run auth eps ok quota by blast
qed

definition demo_provision :: provision_draws where
  "demo_provision =
     \<lparr>pv_name = 3, pv_tenant_id = 1, pv_created_at = 50,
      pv_key = \<lparr>kd_id = 7, kd_now = 50, kd_prefix_bytes = [1], kd_secret_bytes = [2], kd_salt = []\<rparr>,
      pv_endpoints = [(8, 51, [3]), (9, 52, [4])]\<rparr>"

lemma load_fixture_is_usable_witness:
  "\<exists>r k st'. provision_run demo_provision 2 ''healthy'' ''https://a.example/'' DEFAULT_EVENT_TYPE (store_of empty_db) =
      (Inr (Inr r), st') \<and> length (lt_endpoint_ids r) = 2 \<and>
    require_scope ''dlq:read'' 99 (Some (lt_api_key r)) st' =
      (Inr \<lparr>ac_tenant = load_tenant demo_provision, ac_api_key = k\<rparr>, st')"
proof -
  have "destination_url ''https://a.example/'' ''/mock/always-200'' = ''https://a.example/mock/always-200''"
    by (simp add: destination_url_def)
  then have url: "validate_base_url ''https://a.example/'' = Inr None"
    "validate_url (destination_url ''https://a.example/'' ''/mock/always-200'') = Inr ()"
    by (simp_all add: validate_base_url_def validate_url_def urlsplit_def urlsplit_with_def split_scheme_def brackets_ok_def
        py_partition_def is_c0_or_space_def is_scheme_char_def is_ascii_alpha_def is_digit_def py_lower_def
        py_lower_char_def res_bind_def)
  have types: "validate_event_types [DEFAULT_EVENT_TYPE] = Inr ()"
    by (simp add: validate_event_types_def strip_set_def is_py_space_def DEFAULT_EVENT_TYPE_def)
  have db: "keys_hashed (st_db (store_of empty_db))" "fresh_provision demo_provision 2 (st_db (store_of empty_db))"
    by (simp_all add: keys_hashed_def fresh_provision_def store_of_def empty_db_def demo_provision_def)
  have path: "map_of PROFILE_MOCK_PATHS ''healthy'' = Some ''/mock/always-200''" by (simp add: PROFILE_MOCK_PATHS_def)
  note run = load_fixture_is_usable [OF db url(1) path url(2) types]
  then show ?thesis by (elim exE conjE) (metis length_map)
qed

end
