(* ===== verification/Overlap.thy ===== *)
theory Overlap
  imports System
begin

section \<open>Attempts that overlap in time\<close>

text \<open>
  \<open>DeliveryAttempts\<close> runs \<open>DeliveryAttemptService.attempt\<close> as one step. Here the same body is cut at
  every statement it sends to the database, so that attempts of several tasks can be interleaved: a
  task reads what is committed and what it has written itself (READ COMMITTED), an \<open>UPDATE\<close> or
  \<open>INSERT\<close> waits for the task that holds the row, and the rows a task has written are committed
  together at the end. As the ORM does, an \<open>UPDATE\<close> sets the columns whose value differs from the row
  as the task has loaded it, and \<open>refresh\<close> reads the row again after it. Only attempts run: no rows
  are deleted. The in-process metrics and the publication are those of \<open>attempt\<close> and left out.
\<close>

subsection \<open>Writes\<close>

datatype db_write =
    WriteEndpoint uuid "breaker_state option" "nat option" "timestamp option option"
  | WriteDelivery uuid "delivery_state option" "nat option" "timestamp option option"
  | InsertAttempt delivery_attempt

datatype row_key = EndpointRow uuid | DeliveryRow uuid | AttemptRow uuid

fun row_of :: "db_write \<Rightarrow> row_key" where
  "row_of (WriteEndpoint i b n t) = EndpointRow i"
| "row_of (WriteDelivery i x n t) = DeliveryRow i"
| "row_of (InsertAttempt a) = AttemptRow (a_id a)"

definition column :: "'a option \<Rightarrow> 'a \<Rightarrow> 'a" where
  "column new old = (case new of None \<Rightarrow> old | Some x \<Rightarrow> x)"

definition dirty :: "'a \<Rightarrow> 'a \<Rightarrow> 'a option" where
  "dirty old new = (if new = old then None else Some new)"

definition set_endpoint_columns ::
  "breaker_state option \<Rightarrow> nat option \<Rightarrow> timestamp option option \<Rightarrow> endpoint \<Rightarrow> endpoint" where
  "set_endpoint_columns b n t m =
     m\<lparr>ep_breaker_state := column b (ep_breaker_state m),
       ep_consecutive_failures := column n (ep_consecutive_failures m),
       ep_opened_at := column t (ep_opened_at m)\<rparr>"

definition set_delivery_columns ::
  "delivery_state option \<Rightarrow> nat option \<Rightarrow> timestamp option option \<Rightarrow> delivery \<Rightarrow> delivery" where
  "set_delivery_columns x n t m =
     m\<lparr>d_state := column x (d_state m), d_attempt_count := column n (d_attempt_count m),
       d_next_retry_at := column t (d_next_retry_at m)\<rparr>"

fun apply_write :: "db_write \<Rightarrow> db \<Rightarrow> db" where
  "apply_write (WriteEndpoint i b n t) s =
     s\<lparr>db_endpoints := update_by ep_id i (set_endpoint_columns b n t) (db_endpoints s)\<rparr>"
| "apply_write (WriteDelivery i x n t) s =
     s\<lparr>db_deliveries := update_by d_id i (set_delivery_columns x n t) (db_deliveries s)\<rparr>"
| "apply_write (InsertAttempt a) s = s\<lparr>db_attempts := db_attempts s @ [a]\<rparr>"

text \<open>The \<open>UPDATE\<close> of a flush: the changed columns of the loaded row, and none if nothing changed.\<close>

definition flush_endpoint :: "endpoint \<Rightarrow> breaker_transition \<Rightarrow> db_write list" where
  "flush_endpoint ep b =
     (if breaker_of ep = b then []
      else [WriteEndpoint (ep_id ep) (dirty (ep_breaker_state ep) (bt_state b))
              (dirty (ep_consecutive_failures ep) (bt_consecutive_failures b))
              (dirty (ep_opened_at ep) (bt_opened_at b))])"

definition flush_delivery :: "delivery \<Rightarrow> delivery \<Rightarrow> db_write list" where
  "flush_delivery d d' =
     (if d' = d then []
      else [WriteDelivery (d_id d) (dirty (d_state d) (d_state d'))
              (dirty (d_attempt_count d) (d_attempt_count d'))
              (dirty (d_next_retry_at d) (d_next_retry_at d'))])"

subsection \<open>A task and its stages\<close>

datatype stage =
    Started
  | HasDelivery delivery
  | HasEvent delivery event
  | Loaded delivery event endpoint
  | Ready delivery event endpoint
  | Answered delivery event endpoint outbound_http_result
  | Recorded delivery event endpoint outbound_http_result
  | Inserted delivery event endpoint outbound_http_result
  | Settled delivery
  | Finished "error + delivery"

record task =
  tk_delivery :: uuid
  tk_env :: attempt_env
  tk_stage :: stage
  tk_writes :: "db_write list"

definition new_task :: "uuid \<Rightarrow> attempt_env \<Rightarrow> task" where
  "new_task i env = \<lparr>tk_delivery = i, tk_env = env, tk_stage = Started, tk_writes = []\<rparr>"

text \<open>What the task sees: the committed rows under its own writes.\<close>

definition view :: "task \<Rightarrow> db \<Rightarrow> db" where
  "view t s = fold apply_write (tk_writes t) s"

definition enter :: "stage \<Rightarrow> task \<Rightarrow> task" where
  "enter x t = t\<lparr>tk_stage := x\<rparr>"

definition fail :: "error \<Rightarrow> task \<Rightarrow> task" where
  "fail e t = t\<lparr>tk_stage := Finished (Inl e), tk_writes := []\<rparr>"

text \<open>A statement that writes: it waits while a row it needs is held.\<close>

definition flush :: "row_key list \<Rightarrow> db_write list \<Rightarrow> task \<Rightarrow> task option" where
  "flush held ws t =
     (if list_ex (\<lambda>w. row_of w \<in> set held) ws then None else Some (t\<lparr>tk_writes := tk_writes t @ ws\<rparr>))"

text \<open>A read of one row, into the next stage; the row must be there.\<close>

definition load :: "error \<Rightarrow> 'a option \<Rightarrow> ('a \<Rightarrow> stage) \<Rightarrow> task \<Rightarrow> task" where
  "load e row next_stage t = (case row of None \<Rightarrow> fail e t | Some x \<Rightarrow> enter (next_stage x) t)"

definition half_open :: "endpoint \<Rightarrow> breaker_transition" where
  "half_open ep = (breaker_of ep)\<lparr>bt_state := HALF_OPEN\<rparr>"

definition outcome_of :: "settings \<Rightarrow> attempt_env \<Rightarrow> endpoint \<Rightarrow> outbound_http_result \<Rightarrow> breaker_transition" where
  "outcome_of cfg env ep res =
     next_breaker_state (ep_breaker_state ep) (ep_consecutive_failures ep) (en_now env) (succeeded res)
       (breaker_failure_threshold cfg)"

text \<open>
  The next statement of a task, given the rows that the others hold: the committed tables and the
  task after it, or nothing while it has to wait and when it has finished.
\<close>

definition advance :: "settings \<Rightarrow> row_key list \<Rightarrow> db \<Rightarrow> task \<Rightarrow> (db \<times> task) option" where
  "advance cfg held s t =
     (let env = tk_env t; see = view t s in
      case tk_stage t of
        Started \<Rightarrow>
          Some (s, load (NotFoundError (tk_delivery t)) (deliveries_get (tk_delivery t) see) HasDelivery t)
      | HasDelivery d \<Rightarrow>
          Some (s, load (NotFoundError (d_event_id d)) (events_get (d_event_id d) see) (HasEvent d) t)
      | HasEvent d ev \<Rightarrow>
          Some (s, load (NotFoundError (d_endpoint_id d)) (endpoints_get (d_endpoint_id d) see) (Loaded d ev) t)
      | Loaded d ev ep \<Rightarrow>
          if should_skip_for_open_breaker (ep_breaker_state ep) (ep_opened_at ep) (en_now env) (cooldown cfg)
          then (case ep_opened_at ep of
                  None \<Rightarrow> Some (s, fail (AssertionError ''endpoint.opened_at is not None'') t)
                | Some opened_at \<Rightarrow>
                    map_option (\<lambda>t'. (s, load (NotFoundError (d_id d)) (deliveries_get (d_id d) (view t' s)) Settled t'))
                      (flush held (flush_delivery d (set_rescheduled (opened_at + cooldown cfg) d)) t))
          else if ep_breaker_state ep = OPEN
          then map_option (\<lambda>t'. (s, load (NotFoundError (ep_id ep)) (endpoints_get (ep_id ep) (view t' s)) (Ready d ev) t'))
                 (flush held (flush_endpoint ep (half_open ep)) t)
          else Some (s, enter (Ready d ev ep) t)
      | Ready d ev ep \<Rightarrow>
          Some (s, case en_send env (ep_url ep) (request_payload env ev) (request_headers env ev ep (d_id d)) of
                     Inl e \<Rightarrow> fail e t | Inr res \<Rightarrow> enter (Answered d ev ep res) t)
      | Answered d ev ep res \<Rightarrow>
          map_option (\<lambda>t'. (s, enter (Recorded d ev ep res) t'))
            (flush held (flush_endpoint ep (outcome_of cfg env ep res)) t)
      | Recorded d ev ep res \<Rightarrow>
          let row = attempt_row env ev ep d res in
          if a_id row \<in> a_id ` set (db_attempts see) then Some (s, fail IntegrityError t)
          else map_option (\<lambda>t'. (s, enter (Inserted d ev ep res) t')) (flush held [InsertAttempt row] t)
      | Inserted d ev ep res \<Rightarrow>
          map_option (\<lambda>t'. (s, load (NotFoundError (d_id d)) (deliveries_get (d_id d) (view t' s)) Settled t'))
            (flush held (flush_delivery d (after_attempt cfg (en_now env) (en_draw env) (succeeded res) d)) t)
      | Settled d \<Rightarrow> Some (see, t\<lparr>tk_stage := Finished (Inr d), tk_writes := []\<rparr>)
      | Finished r \<Rightarrow> None)"

record crowd =
  cr_db :: db
  cr_tasks :: "task list"

text \<open>The rows held by the tasks other than the \<open>i\<close>-th.\<close>

definition held_by :: "task \<Rightarrow> row_key list" where
  "held_by t = map row_of (tk_writes t)"

definition held_from :: "nat \<Rightarrow> task list \<Rightarrow> row_key list" where
  "held_from i ts = concat (map (\<lambda>j. held_by (ts ! j)) (filter (\<lambda>j. j \<noteq> i) [0..<length ts]))"

inductive overlap_step :: "settings \<Rightarrow> crowd \<Rightarrow> crowd \<Rightarrow> bool" for cfg where
  step: "i < length (cr_tasks w) \<Longrightarrow>
    advance cfg (held_from i (cr_tasks w)) (cr_db w) (cr_tasks w ! i) = Some (s, t) \<Longrightarrow>
    overlap_step cfg w (w\<lparr>cr_db := s, cr_tasks := (cr_tasks w)[i := t]\<rparr>)"

inductive_cases overlap_stepE: "overlap_step cfg w w'"

subsection \<open>A write of a loaded row\<close>

lemma column_dirty [simp]: "column (dirty x y) x = y"
  by (simp add: column_def dirty_def)

lemma set_columns_keep [simp]:
  "ep_id (set_endpoint_columns b n t m) = ep_id m" "d_id (set_delivery_columns x n t d) = d_id d"
  "d_event_id (set_delivery_columns x n t d) = d_event_id d"
  "d_endpoint_id (set_delivery_columns x n t d) = d_endpoint_id d"
  by (simp_all add: set_endpoint_columns_def set_delivery_columns_def)

lemma update_by_same:
  "distinct (map key rows) \<Longrightarrow> find_by key k rows = Some r \<Longrightarrow> f r = r \<Longrightarrow> update_by key k f rows = rows"
  using update_by_row [of key rows k r f "\<lambda>x. x"] by (simp add: update_by_def)

lemma flush_endpoint_effect:
  assumes "distinct (map ep_id (db_endpoints s))" and "endpoints_get (ep_id ep) s = Some ep"
  shows "fold apply_write (flush_endpoint ep b) s =
    s\<lparr>db_endpoints := update_by ep_id (ep_id ep) (with_breaker b) (db_endpoints s)\<rparr>"
proof -
  have "with_breaker b ep = ep" if "breaker_of ep = b"
    using that by (auto simp: with_breaker_def breaker_of_def)
  then have "update_by ep_id (ep_id ep) (with_breaker b) (db_endpoints s) = db_endpoints s" if "breaker_of ep = b"
    using assms that by (intro update_by_same) (simp_all add: endpoints_get_def)
  moreover have "update_by ep_id (ep_id ep) (set_endpoint_columns (dirty (ep_breaker_state ep) (bt_state b))
      (dirty (ep_consecutive_failures ep) (bt_consecutive_failures b)) (dirty (ep_opened_at ep) (bt_opened_at b)))
      (db_endpoints s) = update_by ep_id (ep_id ep) (with_breaker b) (db_endpoints s)"
    using assms by (intro update_by_row)
      (auto simp: endpoints_get_def set_endpoint_columns_def with_breaker_def intro!: endpoint.equality)
  ultimately show ?thesis by (simp add: flush_endpoint_def)
qed

lemma flush_delivery_effect:
  assumes "distinct (map d_id (db_deliveries s))" and "deliveries_get (d_id d) s = Some d"
    and "d_id (f d) = d_id d" "d_event_id (f d) = d_event_id d" "d_endpoint_id (f d) = d_endpoint_id d"
      "d_created_at (f d) = d_created_at d"
  shows "fold apply_write (flush_delivery d (f d)) s =
    s\<lparr>db_deliveries := update_by d_id (d_id d) f (db_deliveries s)\<rparr>"
proof -
  have "update_by d_id (d_id d) f (db_deliveries s) = db_deliveries s" if "f d = d"
    using assms that by (intro update_by_same) (simp_all add: deliveries_get_def)
  moreover have "update_by d_id (d_id d) (set_delivery_columns (dirty (d_state d) (d_state (f d)))
      (dirty (d_attempt_count d) (d_attempt_count (f d))) (dirty (d_next_retry_at d) (d_next_retry_at (f d))))
      (db_deliveries s) = update_by d_id (d_id d) f (db_deliveries s)"
    using assms by (intro update_by_row)
      (auto simp: deliveries_get_def set_delivery_columns_def intro!: delivery.equality)
  ultimately show ?thesis by (simp add: flush_delivery_def)
qed

text \<open>The writes of an attempt that is sent and of one that is deferred, and what they amount to.\<close>

definition probe_writes :: "endpoint \<Rightarrow> db_write list" where
  "probe_writes ep = (if ep_breaker_state ep = OPEN then flush_endpoint ep (half_open ep) else [])"

definition outcome_writes ::
  "settings \<Rightarrow> attempt_env \<Rightarrow> endpoint \<Rightarrow> outbound_http_result \<Rightarrow> db_write list" where
  "outcome_writes cfg env ep res =
     probe_writes ep @ flush_endpoint (probing ep) (outcome_of cfg env (probing ep) res)"

definition sent_writes ::
  "settings \<Rightarrow> attempt_env \<Rightarrow> delivery \<Rightarrow> event \<Rightarrow> endpoint \<Rightarrow> outbound_http_result \<Rightarrow> db_write list" where
  "sent_writes cfg env d ev ep res =
     outcome_writes cfg env ep res @ [InsertAttempt (attempt_row env ev ep d res)] @
     flush_delivery d (after_attempt cfg (en_now env) (en_draw env) (succeeded res) d)"

lemma outcome_of_probing [simp]:
  "outcome_of cfg env (probing ep) res =
     breaker_after (breaker_failure_threshold cfg) (breaker_of ep) (en_now env) (succeeded res)"
  by (simp add: outcome_of_def breaker_after_def breaker_of_def)

lemma probing_with_breaker: "ep_breaker_state ep = OPEN \<Longrightarrow> with_breaker (half_open ep) ep = probing ep"
  by (simp add: with_breaker_def half_open_def breaker_of_def probing_def)

lemma probe_effect:
  assumes "distinct (map ep_id (db_endpoints s))" and "endpoints_get (ep_id ep) s = Some ep"
  shows "\<exists>es. fold apply_write (probe_writes ep) s = s\<lparr>db_endpoints := es\<rparr> \<and>
    map ep_id es = map ep_id (db_endpoints s) \<and> find_by ep_id (ep_id ep) es = Some (probing ep) \<and>
    (\<forall>b. update_by ep_id (ep_id ep) (with_breaker b) es = update_by ep_id (ep_id ep) (with_breaker b) (db_endpoints s))"
proof (cases "ep_breaker_state ep = OPEN")
  case True
  let ?es = "update_by ep_id (ep_id ep) (with_breaker (half_open ep)) (db_endpoints s)"
  have "with_breaker b (with_breaker b' m) = with_breaker b m" for b b' m by (simp add: with_breaker_def)
  then have "update_by ep_id (ep_id ep) (with_breaker b) ?es = update_by ep_id (ep_id ep) (with_breaker b) (db_endpoints s)" for b
    by (simp add: update_by_update_by)
  moreover have "find_by ep_id (ep_id ep) ?es = Some (probing ep)"
    using assms(2) by (simp add: find_by_update_same endpoints_get_def probing_with_breaker True)
  ultimately show ?thesis
    using True by (simp add: probe_writes_def flush_endpoint_effect [OF assms]) (intro exI [of _ ?es], simp)
next
  case False
  then show ?thesis using assms(2)
    by (intro exI [of _ "db_endpoints s"]) (simp add: probe_writes_def probing_def endpoints_get_def)
qed

lemma outcome_effect:
  assumes "distinct (map ep_id (db_endpoints s))" and "endpoints_get (ep_id ep) s = Some ep"
  shows "fold apply_write (outcome_writes cfg env ep res) s = s\<lparr>db_endpoints := update_by ep_id (ep_id ep)
    (with_breaker (breaker_after (breaker_failure_threshold cfg) (breaker_of ep) (en_now env) (succeeded res)))
    (db_endpoints s)\<rparr>"
proof -
  obtain es where es: "fold apply_write (probe_writes ep) s = s\<lparr>db_endpoints := es\<rparr>"
    "map ep_id es = map ep_id (db_endpoints s)" "find_by ep_id (ep_id ep) es = Some (probing ep)"
    "\<And>b. update_by ep_id (ep_id ep) (with_breaker b) es = update_by ep_id (ep_id ep) (with_breaker b) (db_endpoints s)"
    using probe_effect [OF assms] by blast
  then have "fold apply_write (flush_endpoint (probing ep) b) (s\<lparr>db_endpoints := es\<rparr>) =
      s\<lparr>db_endpoints := update_by ep_id (ep_id ep) (with_breaker b) (db_endpoints s)\<rparr>" for b
    using assms(1) by (subst flush_endpoint_effect) (simp_all add: endpoints_get_def)
  then show ?thesis by (simp add: outcome_writes_def es(1))
qed

lemma sent_effect:
  assumes "found s i d ev ep" and "distinct (map ep_id (db_endpoints s))" and "distinct (map d_id (db_deliveries s))"
  shows "fold apply_write (sent_writes cfg env d ev ep res) s = after_sent_db cfg env d ev ep res s"
proof -
  note ids = found_ids [OF assms(1)]
  have "d_created_at (after_attempt cfg now draw ok d) = d_created_at d" for now draw ok
    by (simp add: after_attempt_def row_sets)
  then show ?thesis
    using assms ids unfolding sent_writes_def fold_append comp_def
    by (subst outcome_effect; (subst flush_delivery_effect)?)
      (simp_all add: found_def deliveries_get_def after_sent_db_def)
qed

subsection \<open>What a task knows while nobody else touches its rows\<close>

definition sending :: "settings \<Rightarrow> db \<Rightarrow> task \<Rightarrow> delivery \<Rightarrow> event \<Rightarrow> endpoint \<Rightarrow> bool" where
  "sending cfg s t d ev ep \<longleftrightarrow> found s (tk_delivery t) d ev ep \<and> \<not> skips cfg (tk_env t) ep"

definition answered ::
  "settings \<Rightarrow> db \<Rightarrow> task \<Rightarrow> delivery \<Rightarrow> event \<Rightarrow> endpoint \<Rightarrow> outbound_http_result \<Rightarrow> bool" where
  "answered cfg s t d ev ep res \<longleftrightarrow> sending cfg s t d ev ep \<and>
     en_send (tk_env t) (ep_url ep) (request_payload (tk_env t) ev)
       (request_headers (tk_env t) ev ep (tk_delivery t)) = Inr res"

definition deferred :: "settings \<Rightarrow> db \<Rightarrow> task \<Rightarrow> delivery \<Rightarrow> db_write list \<Rightarrow> bool" where
  "deferred cfg s t d' ws \<longleftrightarrow> (\<exists>d ev ep opened. found s (tk_delivery t) d ev ep \<and> skips cfg (tk_env t) ep \<and>
     ep_opened_at ep = Some opened \<and> d' = set_rescheduled (opened + cooldown cfg) d \<and> ws = flush_delivery d d')"

fun tracks_stage :: "settings \<Rightarrow> db \<Rightarrow> task \<Rightarrow> stage \<Rightarrow> db_write list \<Rightarrow> bool" where
  "tracks_stage cfg s t Started ws = (ws = [])"
| "tracks_stage cfg s t (HasDelivery d) ws = (ws = [] \<and> deliveries_get (tk_delivery t) s = Some d)"
| "tracks_stage cfg s t (HasEvent d ev) ws =
     (ws = [] \<and> deliveries_get (tk_delivery t) s = Some d \<and> events_get (d_event_id d) s = Some ev)"
| "tracks_stage cfg s t (Loaded d ev ep) ws = (ws = [] \<and> found s (tk_delivery t) d ev ep)"
| "tracks_stage cfg s t (Ready d ev ep') ws =
     (\<exists>ep. sending cfg s t d ev ep \<and> ep' = probing ep \<and> ws = probe_writes ep)"
| "tracks_stage cfg s t (Answered d ev ep' res) ws =
     (\<exists>ep. answered cfg s t d ev ep res \<and> ep' = probing ep \<and> ws = probe_writes ep)"
| "tracks_stage cfg s t (Recorded d ev ep' res) ws =
     (\<exists>ep. answered cfg s t d ev ep res \<and> ep' = probing ep \<and> ws = outcome_writes cfg (tk_env t) ep res)"
| "tracks_stage cfg s t (Inserted d ev ep' res) ws =
     (\<exists>ep. answered cfg s t d ev ep res \<and> ep' = probing ep \<and>
        en_attempt_id (tk_env t) \<notin> a_id ` set (db_attempts s) \<and>
        ws = outcome_writes cfg (tk_env t) ep res @ [InsertAttempt (attempt_row (tk_env t) ev ep d res)])"
| "tracks_stage cfg s t (Settled d') ws =
     (deferred cfg s t d' ws \<or>
      (\<exists>d ev ep res. answered cfg s t d ev ep res \<and> en_attempt_id (tk_env t) \<notin> a_id ` set (db_attempts s) \<and>
         d' = after_attempt cfg (en_now (tk_env t)) (en_draw (tk_env t)) (succeeded res) d \<and>
         ws = sent_writes cfg (tk_env t) d ev ep res))"
| "tracks_stage cfg s t (Finished r) ws = (ws = [])"

definition tracks :: "settings \<Rightarrow> db \<Rightarrow> task \<Rightarrow> bool" where
  "tracks cfg s t \<longleftrightarrow> tracks_stage cfg s t (tk_stage t) (tk_writes t)"

lemma tracks_commit:
  assumes "tracks cfg s t" and "db_ok s" and "tk_stage t = Settled d'"
  shows "\<exists>st' pubs. attempt cfg (tk_env t) (tk_delivery t) (store_of s) = (Inr d', st', pubs) \<and> st_db st' = view t s"
proof -
  have keys: "distinct (map ep_id (db_endpoints s))" "distinct (map d_id (db_deliveries s))"
    using assms(2) by (simp_all add: db_ok_def)
  have db: "st_db (store_of s) = s" by (simp add: store_of_def)
  from assms(1,3) consider "deferred cfg s t d' (tk_writes t)"
    | d ev ep res where "answered cfg s t d ev ep res" "en_attempt_id (tk_env t) \<notin> a_id ` set (db_attempts s)"
        "d' = after_attempt cfg (en_now (tk_env t)) (en_draw (tk_env t)) (succeeded res) d"
        "tk_writes t = sent_writes cfg (tk_env t) d ev ep res"
    by (auto simp: tracks_def)
  then show ?thesis
  proof cases
    case 1
    then obtain d ev ep opened where f: "found s (tk_delivery t) d ev ep" "skips cfg (tk_env t) ep"
      and d': "ep_opened_at ep = Some opened" "d' = set_rescheduled (opened + cooldown cfg) d"
        "tk_writes t = flush_delivery d d'"
      unfolding deferred_def by blast
    have "view t s = s\<lparr>db_deliveries := update_by d_id (d_id d) (set_rescheduled (opened + cooldown cfg)) (db_deliveries s)\<rparr>"
      unfolding view_def d'(3,2) using f(1) found_ids [OF f(1)] keys(2)
      by (subst flush_delivery_effect) (simp_all add: found_def row_sets)
    then show ?thesis
      using attempt_skipped [of "store_of s", unfolded db, OF f] d' found_ids [OF f(1)] by auto
  next
    case 2
    then have "view t s = after_sent_db cfg (tk_env t) d ev ep res s"
      using sent_effect [OF _ keys] by (auto simp: view_def answered_def sending_def)
    with 2 show ?thesis
      using attempt_sent [of "store_of s", unfolded db, of "tk_delivery t" d ev ep cfg "tk_env t" res] keys(2)
      by (auto simp: answered_def sending_def)
  qed
qed

lemma flush_Some: "flush held ws t = Some t' \<longleftrightarrow>
    t' = t\<lparr>tk_writes := tk_writes t @ ws\<rparr> \<and> (\<forall>w \<in> set ws. row_of w \<notin> set held)"
  by (auto simp: flush_def list_ex_iff)

lemma view_Nil [simp]: "tk_writes t = [] \<Longrightarrow> view t s = s"
  by (simp add: view_def)

lemma db_frame:
  "db_events (fold apply_write ws s) = db_events s"
  "(\<And>k. EndpointRow k \<in> row_of ` set ws \<Longrightarrow> k \<noteq> e) \<Longrightarrow> endpoints_get e (fold apply_write ws s) = endpoints_get e s"
  "(\<And>k. DeliveryRow k \<in> row_of ` set ws \<Longrightarrow> k \<noteq> i) \<Longrightarrow> deliveries_get i (fold apply_write ws s) = deliveries_get i s"
  "a_id ` set (db_attempts (fold apply_write ws s)) = a_id ` set (db_attempts s) \<union> {a. AttemptRow a \<in> row_of ` set ws}"
proof (induction ws arbitrary: s)
  case (Cons w ws)
  { case 1 then show ?case using Cons.IH(1) by (cases w) simp_all }
  { case 2 then show ?case using Cons.IH(2) by (cases w) (auto simp: endpoints_get_def find_by_update_by) }
  { case 3 then show ?case using Cons.IH(3) by (cases w) (auto simp: deliveries_get_def find_by_update_by) }
  { case 4 then show ?case using Cons.IH(4) by (cases w) auto }
qed simp_all

lemma row_of_flush:
  "row_of ` set (flush_endpoint ep b) \<subseteq> {EndpointRow (ep_id ep)}"
  "row_of ` set (flush_delivery d d') \<subseteq> {DeliveryRow (d_id d)}"
  "row_of ` set (probe_writes ep) \<subseteq> {EndpointRow (ep_id ep)}"
  "row_of ` set (outcome_writes cfg env ep res) \<subseteq> {EndpointRow (ep_id ep)}"
proof -
  show "row_of ` set (flush_endpoint ep b) \<subseteq> {EndpointRow (ep_id ep)}" for ep b
    by (auto simp: flush_endpoint_def)
  then show "row_of ` set (probe_writes ep) \<subseteq> {EndpointRow (ep_id ep)}"
    "row_of ` set (outcome_writes cfg env ep res) \<subseteq> {EndpointRow (ep_id ep)}"
    using probing_sel(1) by (fastforce simp: outcome_writes_def probe_writes_def)+
  show "row_of ` set (flush_delivery d d') \<subseteq> {DeliveryRow (d_id d)}"
    by (auto simp: flush_delivery_def)
qed

text \<open>The task's own statement keeps it on track.\<close>

lemma found_get: "found s i d ev ep \<Longrightarrow> deliveries_get (d_id d) s = Some d \<and> endpoints_get (ep_id ep) s = Some ep"
  by (metis found_def found_ids)

lemma load_cases:
  obtains e where "row = None" "load e' row f t = fail e t" "e = e'"
  | x where "row = Some x" "load e' row f t = enter (f x) t"
  by (cases row) (auto simp: load_def)

lemma task_sel [simp]:
  "tk_delivery (enter x t) = tk_delivery t" "tk_env (enter x t) = tk_env t" "tk_writes (enter x t) = tk_writes t"
  "tk_stage (enter x t) = x" "tk_delivery (fail e t) = tk_delivery t" "tk_env (fail e t) = tk_env t"
  "tk_writes (fail e t) = []" "tk_stage (fail e t) = Finished (Inl e)"
  by (simp_all add: enter_def fail_def)

text \<open>What a task knows depends on its delivery and its envelope only.\<close>

lemma tracks_stage_cong:
  "tk_delivery t' = tk_delivery t \<Longrightarrow> tk_env t' = tk_env t \<Longrightarrow> tracks_stage cfg s t' x ws = tracks_stage cfg s t x ws"
  by (cases x) (simp_all add: sending_def answered_def deferred_def)

lemma refreshed_delivery:
  assumes "deliveries_get i s = Some d" and "distinct (map d_id (db_deliveries s))"
    and "fold apply_write ws s = s\<lparr>db_endpoints := es, db_attempts := as\<rparr>"
    and keep: "\<And>m. d_id (f m) = d_id m" "\<And>m. d_event_id (f m) = d_event_id m"
      "\<And>m. d_endpoint_id (f m) = d_endpoint_id m" "\<And>m. d_created_at (f m) = d_created_at m"
  shows "deliveries_get i (fold apply_write (ws @ flush_delivery d (f d)) s) = Some (f d)"
proof -
  have d: "find_by d_id (d_id d) (db_deliveries s) = Some d" "d_id d = i"
    using assms(1) by (auto simp: deliveries_get_def dest: find_by_SomeD)
  have "fold apply_write (ws @ flush_delivery d (f d)) s =
      s\<lparr>db_endpoints := es, db_attempts := as, db_deliveries := update_by d_id (d_id d) f (db_deliveries s)\<rparr>"
    using assms(2) d by (simp add: assms(3), subst flush_delivery_effect) (simp_all add: deliveries_get_def keep)
  then show ?thesis using d by (simp add: deliveries_get_def find_by_update_same keep)
qed

lemma created_at_keep [simp]:
  "d_created_at (after_attempt cfg now draw ok d) = d_created_at d" "d_created_at (set_rescheduled x d) = d_created_at d"
  by (simp_all add: after_attempt_def row_sets)

lemma probing_request [simp]:
  "request_headers env ev (probing ep) i = request_headers env ev ep i"
  "attempt_row env ev (probing ep) d res = attempt_row env ev ep d res"
  "a_id (attempt_row env ev ep d res) = en_attempt_id env"
  by (simp_all add: request_headers_def attempt_row_def)

text \<open>The task's own statement keeps it on track.\<close>

lemma advance_loaded:
  assumes f: "found s (tk_delivery t) d ev ep" and "db_ok s" and x: "tk_stage t = Loaded d ev ep" "tk_writes t = []"
    and a: "advance cfg held s t = Some (s', t')"
  shows "s' = s \<and> tracks cfg s t' \<and> (\<nexists>d. tk_stage t' = Finished (Inr d))"
proof -
  have keys: "distinct (map ep_id (db_endpoints s))" "distinct (map d_id (db_deliveries s))"
    using assms(2) by (simp_all add: db_ok_def)
  note ids = found_ids [OF f] and get = found_get [OF f]
  have get': "deliveries_get (tk_delivery t) s = Some d" using f by (simp add: found_def)
  show ?thesis
  proof (cases "skips cfg (tk_env t) ep")
    case True
    then obtain opened where o': "ep_opened_at ep = Some opened" by (auto simp: skips_def should_skip_iff)
    let ?d = "set_rescheduled (opened + cooldown cfg) d"
    have "deliveries_get (tk_delivery t) (fold apply_write (flush_delivery d ?d) s) = Some ?d"
      using refreshed_delivery [OF get' keys(2), where ws = "[]" and es = "db_endpoints s" and as = "db_attempts s" and f = "set_rescheduled (opened + cooldown cfg)"]
      by simp
    then have "s' = s \<and> t' = t\<lparr>tk_writes := flush_delivery d ?d, tk_stage := Settled ?d\<rparr>"
      using a True o' x ids
      by (auto simp: advance_def Let_def skips_def flush_Some load_def view_def enter_def)
    then show ?thesis
      using f True o' by (auto simp: tracks_def deferred_def tracks_stage_cong)
  next
    case False
    have send: "sending cfg s t' d ev ep" if "tk_delivery t' = tk_delivery t" "tk_env t' = tk_env t" for t'
      using f False that by (simp add: sending_def)
    show ?thesis
    proof (cases "ep_breaker_state ep = OPEN")
      case True
      obtain es where "fold apply_write (probe_writes ep) s = s\<lparr>db_endpoints := es\<rparr>"
        "find_by ep_id (ep_id ep) es = Some (probing ep)"
        using probe_effect [OF keys(1) get [THEN conjunct2]] by blast
      then have "s' = s \<and> t' = t\<lparr>tk_writes := probe_writes ep, tk_stage := Ready d ev (probing ep)\<rparr>"
        using a True False x
        by (auto simp: advance_def Let_def skips_def flush_Some load_def view_def enter_def endpoints_get_def probe_writes_def)
      then show ?thesis using send by (auto simp: tracks_def intro!: exI [of _ ep])
    next
      case no: False
      then have "s' = s \<and> t' = enter (Ready d ev ep) t" "probing ep = ep" "probe_writes ep = []"
        using a False x by (auto simp: advance_def Let_def skips_def probing_def probe_writes_def)
      then show ?thesis using send x by (auto simp: tracks_def intro!: exI [of _ ep])
    qed
  qed
qed

lemma advance_inserted:
  assumes "tk_stage t = Inserted d ev ep' res" and "tracks cfg s t" and "db_ok s"
    and a: "advance cfg held s t = Some (s', t')"
  shows "s' = s \<and> tracks cfg s t' \<and> (\<nexists>d. tk_stage t' = Finished (Inr d))"
proof -
  let ?env = "tk_env t"
  let ?f = "after_attempt cfg (en_now ?env) (en_draw ?env) (succeeded res)"
  obtain ep where k: "answered cfg s t d ev ep res" "ep' = probing ep"
      "en_attempt_id ?env \<notin> a_id ` set (db_attempts s)"
      "tk_writes t = outcome_writes cfg ?env ep res @ [InsertAttempt (attempt_row ?env ev ep d res)]"
    using assms(1,2) by (auto simp: tracks_def)
  have f: "found s (tk_delivery t) d ev ep" using k(1) by (simp add: answered_def sending_def)
  then have get': "deliveries_get (tk_delivery t) s = Some d" by (simp add: found_def)
  have keys: "distinct (map ep_id (db_endpoints s))" "distinct (map d_id (db_deliveries s))"
    using assms(3) by (simp_all add: db_ok_def)
  obtain es where es: "fold apply_write (outcome_writes cfg ?env ep res) s = s\<lparr>db_endpoints := es\<rparr>"
    using outcome_effect [OF keys(1) found_get [OF f, THEN conjunct2]] by blast
  have "deliveries_get (tk_delivery t) (fold apply_write (tk_writes t @ flush_delivery d (?f d)) s) = Some (?f d)"
    by (rule refreshed_delivery [OF get' keys(2), where es = es and
        as = "db_attempts s @ [attempt_row ?env ev ep d res]"]) (simp_all add: k(4) es)
  then have "s' = s \<and> t' = t\<lparr>tk_writes := sent_writes cfg ?env d ev ep res, tk_stage := Settled (?f d)\<rparr>"
    using a assms(1) found_ids [OF f] k(4)
    by (auto simp: advance_def Let_def flush_Some load_def view_def enter_def sent_writes_def)
  then show ?thesis using k(1,3)
    by (auto simp: tracks_def answered_def sending_def intro!: exI [of _ d] exI [of _ ev] exI [of _ ep] exI [of _ res])
qed

lemma tracks_advance:
  assumes "tracks cfg s t" and "db_ok s" and a: "advance cfg held s t = Some (s', t')" and "\<nexists>d. tk_stage t = Settled d"
  shows "s' = s \<and> tracks cfg s t' \<and> (\<nexists>d. tk_stage t' = Finished (Inr d))"
proof (cases "tk_stage t")
  case Started
  then show ?thesis using assms(1) a
    by (auto simp: tracks_def advance_def Let_def load_def split: option.splits)
next
  case (HasDelivery d)
  then show ?thesis using assms(1) a
    by (auto simp: tracks_def advance_def Let_def load_def split: option.splits)
next
  case (HasEvent d ev)
  then show ?thesis using assms(1) a
    by (auto simp: tracks_def advance_def Let_def load_def found_def split: option.splits)
next
  case (Loaded d ev ep)
  then show ?thesis using advance_loaded [OF _ assms(2) Loaded _ a] assms(1) by (simp add: tracks_def)
next
  case (Ready d ev ep')
  then obtain ep where k: "sending cfg s t d ev ep" "ep' = probing ep" "tk_writes t = probe_writes ep"
    using assms(1) by (auto simp: tracks_def)
  then have "d_id d = tk_delivery t" using found_ids by (auto simp: sending_def)
  with k Ready a show ?thesis
    by (auto simp: advance_def Let_def tracks_def answered_def sending_def split: sum.splits intro!: exI [of _ ep])
next
  case (Answered d ev ep' res)
  then obtain ep where k: "answered cfg s t d ev ep res" "ep' = probing ep" "tk_writes t = probe_writes ep"
    using assms(1) by (auto simp: tracks_def)
  with Answered a show ?thesis
    by (auto simp: advance_def Let_def tracks_def flush_Some outcome_writes_def answered_def sending_def intro!: exI [of _ ep])
next
  case (Recorded d ev ep' res)
  then obtain ep where k: "answered cfg s t d ev ep res" "ep' = probing ep"
      "tk_writes t = outcome_writes cfg (tk_env t) ep res"
    using assms(1) by (auto simp: tracks_def)
  have "AttemptRow x \<notin> row_of ` set (tk_writes t)" for x using row_of_flush(4) k(3) by fastforce
  then have "a_id ` set (db_attempts (view t s)) = a_id ` set (db_attempts s)" by (simp add: view_def db_frame(4))
  with k Recorded a show ?thesis
    by (auto simp: advance_def Let_def tracks_def flush_Some answered_def sending_def split: if_splits intro!: exI [of _ ep])
next
  case (Inserted d ev ep' res)
  from advance_inserted [OF this assms(1,2) a] show ?thesis .
next
  case (Settled d)
  then show ?thesis using assms(4) by simp
next
  case (Finished r)
  then show ?thesis using a by (simp add: advance_def)
qed

subsection \<open>Statements of the other tasks\<close>

text \<open>The endpoint of the delivery that a task in flight has loaded.\<close>

fun flight :: "stage \<Rightarrow> uuid option" where
  "flight Started = None"
| "flight (HasDelivery d) = Some (d_endpoint_id d)"
| "flight (HasEvent d ev) = Some (d_endpoint_id d)"
| "flight (Loaded d ev ep) = Some (d_endpoint_id d)"
| "flight (Ready d ev ep) = Some (d_endpoint_id d)"
| "flight (Answered d ev ep res) = Some (d_endpoint_id d)"
| "flight (Recorded d ev ep res) = Some (d_endpoint_id d)"
| "flight (Inserted d ev ep res) = Some (d_endpoint_id d)"
| "flight (Settled d) = Some (d_endpoint_id d)"
| "flight (Finished r) = None"

lemma tracks_writes:
  assumes "tracks cfg s t" and "r \<in> row_of ` set (tk_writes t)"
  shows "\<exists>e. flight (tk_stage t) = Some e \<and>
    (r = EndpointRow e \<or> r = DeliveryRow (tk_delivery t) \<or>
     r = AttemptRow (en_attempt_id (tk_env t)) \<and> en_attempt_id (tk_env t) \<notin> a_id ` set (db_attempts s))"
proof (cases "tk_stage t")
  case (Settled d')
  from assms(1) Settled consider "deferred cfg s t d' (tk_writes t)"
    | d ev ep res where "answered cfg s t d ev ep res" "en_attempt_id (tk_env t) \<notin> a_id ` set (db_attempts s)"
        "d' = after_attempt cfg (en_now (tk_env t)) (en_draw (tk_env t)) (succeeded res) d"
        "tk_writes t = sent_writes cfg (tk_env t) d ev ep res"
    by (auto simp: tracks_def)
  then show ?thesis
  proof cases
    case 1
    then show ?thesis using assms(2) Settled row_of_flush(2) found_ids
      by (fastforce simp: deferred_def)
  next
    case 2
    then have "found s (tk_delivery t) d ev ep" by (simp add: answered_def sending_def)
    note ids = found_ids [OF this]
    have "r \<in> row_of ` set (outcome_writes cfg (tk_env t) ep res) \<or> r = AttemptRow (en_attempt_id (tk_env t)) \<or>
        r \<in> row_of ` set (flush_delivery d d')"
      using assms(2) 2(3,4) by (auto simp: sent_writes_def)
    then show ?thesis using Settled 2(2,3) ids row_of_flush(2) [of d d'] row_of_flush(4) [of cfg "tk_env t" ep res]
      by auto
  qed
qed (use assms row_of_flush(3,4) found_ids in \<open>fastforce simp: tracks_def answered_def sending_def\<close>)+

lemma events_get_same: "db_events s' = db_events s \<Longrightarrow> events_get k s' = events_get k s"
  by (simp add: events_get_def)

lemma tracks_stable:
  assumes t: "tracks cfg s t" and ev: "db_events s' = db_events s"
    and rows: "\<And>e. flight (tk_stage t) = Some e \<Longrightarrow> endpoints_get e s' = endpoints_get e s \<and>
      deliveries_get (tk_delivery t) s' = deliveries_get (tk_delivery t) s"
    and new: "AttemptRow (en_attempt_id (tk_env t)) \<in> set (held_by t) \<Longrightarrow>
      en_attempt_id (tk_env t) \<notin> a_id ` set (db_attempts s) \<Longrightarrow> en_attempt_id (tk_env t) \<notin> a_id ` set (db_attempts s')"
  shows "tracks cfg s' t"
proof -
  have f: "found s' (tk_delivery t) d ev ep \<longleftrightarrow> found s (tk_delivery t) d ev ep"
    if "flight (tk_stage t) = Some (d_endpoint_id d)" for d ev ep
    using rows [OF that] by (simp add: found_def events_get_same [OF ev])
  show ?thesis
  proof (cases "tk_stage t")
    case (Inserted d ev ep res)
    then show ?thesis using t f [of d] new
      by (auto simp: tracks_def answered_def sending_def held_by_def)
  next
    case (Settled d')
    have same: "flight (tk_stage t) = Some (d_endpoint_id d)" if "d_endpoint_id d' = d_endpoint_id d" for d
      using Settled that by simp
    from t Settled consider "deferred cfg s t d' (tk_writes t)"
      | d ev ep res where "answered cfg s t d ev ep res" "en_attempt_id (tk_env t) \<notin> a_id ` set (db_attempts s)"
          "d' = after_attempt cfg (en_now (tk_env t)) (en_draw (tk_env t)) (succeeded res) d"
          "tk_writes t = sent_writes cfg (tk_env t) d ev ep res"
      by (auto simp: tracks_def)
    then show ?thesis
    proof cases
      case 1
      then show ?thesis using Settled f same by (fastforce simp: tracks_def deferred_def)
    next
      case 2
      moreover from 2 have "en_attempt_id (tk_env t) \<notin> a_id ` set (db_attempts s')"
        by (intro new) (simp_all add: held_by_def sent_writes_def)
      moreover from 2 have "answered cfg s' t d ev ep res"
        using f [OF same, of d] by (simp add: answered_def sending_def)
      ultimately show ?thesis using Settled by (simp add: tracks_def) blast
    qed
  qed (use t f rows events_get_same [OF ev] in \<open>auto simp: tracks_def answered_def sending_def\<close>)
qed

text \<open>The committed tables change at a commit only, and no two tasks hold the same row.\<close>

definition same_task :: "row_key list \<Rightarrow> task \<Rightarrow> task \<Rightarrow> bool" where
  "same_task held t t' \<longleftrightarrow> tk_delivery t' = tk_delivery t \<and> tk_env t' = tk_env t \<and>
     set (held_by t') \<subseteq> set (held_by t) \<union> - set held"

lemma same_task_simps [simp]:
  "same_task held t (fail e t)" "same_task held t (enter x t)"
  "same_task held t (t\<lparr>tk_stage := x, tk_writes := []\<rparr>)"
  by (simp_all add: same_task_def held_by_def)

lemma held_by_simps [simp]: "held_by (enter x t) = held_by t" "held_by (fail e t) = []"
  by (simp_all add: held_by_def)

lemma same_task_load: "same_task held t t' \<Longrightarrow> same_task held t (load e row f t')"
  unfolding load_def same_task_def by (cases row) simp_all

lemma flush_same:
  assumes "flush held ws t = Some t'"
  shows "same_task held t t'" "same_task held t (enter x t')" "same_task held t (load e row f t')"
proof -
  show "same_task held t t'"
    using assms unfolding flush_Some same_task_def held_by_def by (elim conjE) (simp, blast)
  then show "same_task held t (load e row f t')" by (rule same_task_load)
  show "same_task held t (enter x t')"
    using \<open>same_task held t t'\<close> unfolding same_task_def by simp
qed

lemma same_task_load_self [simp]: "same_task held t (load e row f t)"
  by (rule same_task_load) (simp add: same_task_def)

lemma advance_same:
  assumes "advance cfg held s t = Some (s', t')"
  shows "same_task held t t'"
proof (cases "tk_stage t")
  case (Loaded d ev ep)
  show ?thesis
  proof (cases "ep_opened_at ep")
    case None
    with assms Loaded show ?thesis by (auto simp: advance_def Let_def split: if_splits intro: flush_same)
  next
    case (Some x)
    with assms Loaded show ?thesis by (auto simp: advance_def Let_def split: if_splits intro: flush_same)
  qed
next
  case (Ready d ev ep)
  with assms show ?thesis by (auto simp: advance_def Let_def split: sum.splits)
next
  case (Answered d ev ep res)
  with assms show ?thesis by (auto simp: advance_def Let_def intro: flush_same)
next
  case (Recorded d ev ep res)
  with assms show ?thesis by (auto simp: advance_def Let_def split: if_splits intro: flush_same)
next
  case (Inserted d ev ep res)
  with assms show ?thesis by (auto simp: advance_def Let_def intro: flush_same)
next
  case (Started)
  with assms show ?thesis by (auto simp: advance_def Let_def)
next
  case (HasDelivery d)
  with assms show ?thesis by (auto simp: advance_def Let_def)
next
  case (HasEvent d ev)
  with assms show ?thesis by (auto simp: advance_def Let_def)
next
  case (Settled d)
  with assms show ?thesis by (auto simp: advance_def Let_def)
next
  case (Finished r)
  with assms show ?thesis by (auto simp: advance_def Let_def)
qed

definition locks_disjoint :: "task list \<Rightarrow> bool" where
  "locks_disjoint ts \<longleftrightarrow> (\<forall>i < length ts. \<forall>j < length ts. i \<noteq> j \<longrightarrow> set (held_by (ts ! i)) \<inter> set (held_by (ts ! j)) = {})"

lemma set_held_from: "set (held_from i ts) = (\<Union>j \<in> {j. j < length ts \<and> j \<noteq> i}. set (held_by (ts ! j)))"
  by (auto simp: held_from_def)

lemma locks_advance:
  assumes "locks_disjoint ts" and "i < length ts" and "advance cfg (held_from i ts) s (ts ! i) = Some (s', t')"
  shows "locks_disjoint (ts[i := t'])"
proof -
  have "set (held_by t') \<inter> set (held_by (ts ! j)) = {}" if "j < length ts" "j \<noteq> i" for j
  proof -
    have "set (held_by t') \<subseteq> set (held_by (ts ! i)) \<union> - set (held_from i ts)"
      using advance_same [OF assms(3)] by (simp add: same_task_def)
    moreover have "set (held_by (ts ! j)) \<subseteq> set (held_from i ts)" using that by (auto simp: set_held_from)
    moreover have "set (held_by (ts ! i)) \<inter> set (held_by (ts ! j)) = {}"
      using assms(1,2) that by (simp add: locks_disjoint_def)
    ultimately show ?thesis by blast
  qed
  note own = this
  show ?thesis
    unfolding locks_disjoint_def
  proof (intro allI impI)
    fix a b assume "a < length (ts[i := t'])" "b < length (ts[i := t'])" "a \<noteq> b"
    then show "set (held_by (ts[i := t'] ! a)) \<inter> set (held_by (ts[i := t'] ! b)) = {}"
      using own [of a] own [of b] assms(1,2)
      by (cases "a = i"; cases "b = i") (simp_all add: locks_disjoint_def Int_commute)
  qed
qed

text \<open>Tasks in flight that have loaded different deliveries of different endpoints.\<close>

definition exclusive :: "task list \<Rightarrow> bool" where
  "exclusive ts \<longleftrightarrow> (\<forall>i < length ts. \<forall>j < length ts. i \<noteq> j \<longrightarrow>
     flight (tk_stage (ts ! i)) \<noteq> None \<longrightarrow> flight (tk_stage (ts ! j)) \<noteq> None \<longrightarrow>
     tk_delivery (ts ! i) \<noteq> tk_delivery (ts ! j) \<and> flight (tk_stage (ts ! i)) \<noteq> flight (tk_stage (ts ! j)))"

definition crowd_ok :: "settings \<Rightarrow> crowd \<Rightarrow> bool" where
  "crowd_ok cfg w \<longleftrightarrow> db_ok (cr_db w) \<and> (\<forall>t \<in> set (cr_tasks w). tracks cfg (cr_db w) t) \<and> locks_disjoint (cr_tasks w)"

lemma other_commit:
  assumes "crowd_ok cfg w" and "exclusive (cr_tasks w)" and "i < length (cr_tasks w)" and "j < length (cr_tasks w)" and "j \<noteq> i"
    and "tk_stage (cr_tasks w ! i) = Settled d"
  shows "tracks cfg (view (cr_tasks w ! i) (cr_db w)) (cr_tasks w ! j)"
proof -
  let ?t = "cr_tasks w ! i" and ?u = "cr_tasks w ! j" and ?s = "cr_db w"
  have tr: "tracks cfg ?s ?t" "tracks cfg ?s ?u" using assms(1,3,4) by (auto simp: crowd_ok_def)
  have ex: "tk_delivery ?t \<noteq> tk_delivery ?u" "e \<noteq> e'"
    if "flight (tk_stage ?t) = Some e" "flight (tk_stage ?u) = Some e'" for e e'
    using assms(2) [unfolded exclusive_def, rule_format, of i j] assms(3-5) that by simp_all
  have held: "set (held_by ?t) \<inter> set (held_by ?u) = {}"
    using assms(1,3-5) by (auto simp: crowd_ok_def locks_disjoint_def)
  note w = tracks_writes [OF tr(1)]
  show ?thesis
  proof (rule tracks_stable [OF tr(2)])
    show "db_events (view ?t ?s) = db_events ?s" by (simp add: view_def db_frame(1))
    show "endpoints_get e (view ?t ?s) = endpoints_get e ?s \<and>
        deliveries_get (tk_delivery ?u) (view ?t ?s) = deliveries_get (tk_delivery ?u) ?s"
      if "flight (tk_stage ?u) = Some e" for e
      unfolding view_def using ex that w by (intro conjI db_frame(2,3)) (fastforce dest: w)+
    show "en_attempt_id (tk_env ?u) \<notin> a_id ` set (db_attempts (view ?t ?s))"
      if "AttemptRow (en_attempt_id (tk_env ?u)) \<in> set (held_by ?u)"
        "en_attempt_id (tk_env ?u) \<notin> a_id ` set (db_attempts ?s)"
      using that held by (auto simp: view_def db_frame(4) held_by_def)
  qed
qed

subsection \<open>Runs that are exclusive are serial\<close>

definition serial_step :: "settings \<Rightarrow> (error + delivery) list \<times> db \<Rightarrow> task \<Rightarrow> (error + delivery) list \<times> db" where
  "serial_step cfg p t =
     (let (r, st', pubs) = attempt cfg (tk_env t) (tk_delivery t) (store_of (snd p)) in (fst p @ [r], st_db st'))"

text \<open>One attempt after the other, each from beginning to end.\<close>

definition serial :: "settings \<Rightarrow> task list \<Rightarrow> db \<Rightarrow> (error + delivery) list \<times> db" where
  "serial cfg ts s = foldl (serial_step cfg) ([], s) ts"

definition exclusive_step :: "settings \<Rightarrow> crowd \<Rightarrow> crowd \<Rightarrow> bool" where
  "exclusive_step cfg w w' \<longleftrightarrow> overlap_step cfg w w' \<and> exclusive (cr_tasks w')"

definition delivered_by :: "crowd \<Rightarrow> nat set" where
  "delivered_by w = {i. i < length (cr_tasks w) \<and> (\<exists>d. tk_stage (cr_tasks w ! i) = Finished (Inr d))}"

definition serializes :: "settings \<Rightarrow> crowd \<Rightarrow> crowd \<Rightarrow> nat list \<Rightarrow> bool" where
  "serializes cfg w0 w order \<longleftrightarrow> distinct order \<and> set order = delivered_by w \<and>
     snd (serial cfg (map ((!) (cr_tasks w0)) order) (cr_db w0)) = cr_db w \<and>
     map Finished (fst (serial cfg (map ((!) (cr_tasks w0)) order) (cr_db w0))) =
       map (\<lambda>i. tk_stage (cr_tasks w ! i)) order"

definition same_tasks :: "crowd \<Rightarrow> crowd \<Rightarrow> bool" where
  "same_tasks w0 w \<longleftrightarrow> length (cr_tasks w) = length (cr_tasks w0) \<and>
     (\<forall>i < length (cr_tasks w). tk_delivery (cr_tasks w ! i) = tk_delivery (cr_tasks w0 ! i) \<and>
        tk_env (cr_tasks w ! i) = tk_env (cr_tasks w0 ! i))"

lemma finished_stays: "advance cfg held s t = Some (s', t') \<Longrightarrow> tk_stage t \<noteq> Finished r"
  by (auto simp: advance_def Let_def)

lemma serial_snoc: "serial cfg (ts @ [t]) s = serial_step cfg (serial cfg ts s) t"
  by (simp add: serial_def)

lemma same_tasks_step:
  assumes "same_tasks w0 w" and "overlap_step cfg w w'"
  shows "same_tasks w0 w'"
  using assms(2)
proof (cases rule: overlap_step.cases)
  case (step i s t)
  then show ?thesis
    using assms(1) advance_same [OF step(3)] by (auto simp: same_tasks_def same_task_def nth_list_update)
qed

lemma serialize_step:
  assumes "crowd_ok cfg w" and "exclusive (cr_tasks w)" and "same_tasks w0 w" and "serializes cfg w0 w order"
    and "overlap_step cfg w w'"
  shows "crowd_ok cfg w' \<and> (\<exists>order'. serializes cfg w0 w' order')"
  using assms(5)
proof (cases rule: overlap_step.cases)
  case (step i s' t')
  let ?ts = "cr_tasks w" and ?s = "cr_db w"
  let ?t = "?ts ! i"
  note w' = step(1) and i = step(2) and a = step(3)
  have ok: "db_ok ?s" "tracks cfg ?s ?t" using assms(1) i by (auto simp: crowd_ok_def)
  have locks: "locks_disjoint (?ts[i := t'])"
    using locks_advance [OF _ i a] assms(1) by (simp add: crowd_ok_def)
  have nf: "i \<notin> delivered_by w" using finished_stays [OF a] by (auto simp: delivered_by_def)
  then have io: "i \<notin> set order" using assms(4) by (simp add: serializes_def)
  have keep: "map (\<lambda>j. tk_stage (?ts[i := t'] ! j)) order = map (\<lambda>j. tk_stage (?ts ! j)) order"
    using io by (intro map_cong refl) (metis nth_list_update_neq)
  show ?thesis
  proof (cases "\<exists>d. tk_stage ?t = Settled d")
    case False
    from tracks_advance [OF ok(2,1) a] False
    have t': "s' = ?s" "tracks cfg ?s t'" "\<nexists>d. tk_stage t' = Finished (Inr d)" by blast+
    have "crowd_ok cfg w'"
      using assms(1) locks t' w' set_update_subset_insert [of ?ts i t'] by (auto simp: crowd_ok_def)
    moreover have "delivered_by w' = delivered_by w"
      using t'(3) nf i w' by (auto simp: delivered_by_def nth_list_update split: if_splits)
    then have "serializes cfg w0 w' order"
      using assms(4) keep t'(1) w' by (simp add: serializes_def)
    ultimately show ?thesis by blast
  next
    case True
    then obtain d where d: "tk_stage ?t = Settled d" by blast
    have t': "s' = view ?t ?s" "tk_stage t' = Finished (Inr d)" "tk_writes t' = []"
      using a d by (auto simp: advance_def Let_def)
    from tracks_commit [OF ok(2,1) d] obtain st' pubs where
      run: "attempt cfg (tk_env ?t) (tk_delivery ?t) (store_of ?s) = (Inr d, st', pubs)" "st_db st' = s'"
      using t'(1) by auto
    have "db_ok s'"
      using attempt_db_ok [OF _ run(1)] run(2) ok(1) by (simp add: store_of_def)
    moreover have "tracks cfg s' (?ts[i := t'] ! j)" if "j < length ?ts" for j
      using other_commit [OF assms(1,2) i that _ d] t' by (cases "j = i") (simp_all add: tracks_def i)
    then have "\<forall>t \<in> set (?ts[i := t']). tracks cfg s' t" by (auto simp: in_set_conv_nth)
    ultimately have "crowd_ok cfg w'" using locks w' by (simp add: crowd_ok_def)
    moreover have "serializes cfg w0 w' (order @ [i])"
    proof -
      have "tk_env (cr_tasks w0 ! i) = tk_env ?t" "tk_delivery (cr_tasks w0 ! i) = tk_delivery ?t"
        using assms(3) i by (simp_all add: same_tasks_def)
      moreover have "delivered_by w' = insert i (delivered_by w)"
        using t'(2) i w' by (auto simp: delivered_by_def nth_list_update split: if_splits)
      ultimately show ?thesis
        using assms(4) keep io run w' t'(2) i
        by (simp add: serializes_def serial_snoc serial_step_def Let_def)
    qed
    ultimately show ?thesis by blast
  qed
qed

definition crowd_of :: "db \<Rightarrow> (uuid \<times> attempt_env) list \<Rightarrow> crowd" where
  "crowd_of s jobs = \<lparr>cr_db = s, cr_tasks = map (\<lambda>(i, env). new_task i env) jobs\<rparr>"

lemma crowd_of_task: "t \<in> set (cr_tasks (crowd_of s jobs)) \<Longrightarrow> tk_stage t = Started \<and> tk_writes t = []"
  by (auto simp: crowd_of_def new_task_def)

lemma crowd_of_ok:
  assumes "db_ok s"
  shows "crowd_ok cfg (crowd_of s jobs)" "exclusive (cr_tasks (crowd_of s jobs))" "locks_disjoint (cr_tasks (crowd_of s jobs))"
    "serializes cfg (crowd_of s jobs) (crowd_of s jobs) []"
proof -
  have t: "tk_stage (cr_tasks (crowd_of s jobs) ! i) = Started" "tk_writes (cr_tasks (crowd_of s jobs) ! i) = []"
    if "i < length (cr_tasks (crowd_of s jobs))" for i
    using crowd_of_task [OF nth_mem [OF that]] by blast+
  show l: "locks_disjoint (cr_tasks (crowd_of s jobs))" by (simp add: locks_disjoint_def held_by_def t)
  show "crowd_ok cfg (crowd_of s jobs)"
    using assms l crowd_of_task by (auto simp: crowd_ok_def tracks_def) (simp_all add: crowd_of_def)
  show "exclusive (cr_tasks (crowd_of s jobs))" by (simp add: exclusive_def t)
  show "serializes cfg (crowd_of s jobs) (crowd_of s jobs) []"
    using t by (auto simp: serializes_def delivered_by_def serial_def)
qed

subsection \<open>Progress\<close>

text \<open>The rows a task may hold at a stage, and how many statements it has left.\<close>

fun may_hold :: "uuid \<Rightarrow> stage \<Rightarrow> row_key \<Rightarrow> bool" where
  "may_hold a (Ready d ev ep) r = (r = EndpointRow (ep_id ep))"
| "may_hold a (Answered d ev ep res) r = (r = EndpointRow (ep_id ep))"
| "may_hold a (Recorded d ev ep res) r = (r = EndpointRow (ep_id ep))"
| "may_hold a (Inserted d ev ep res) r = (r = EndpointRow (ep_id ep) \<or> r = AttemptRow a)"
| "may_hold a (Settled d) r = True"
| "may_hold a _ r = False"

fun left :: "stage \<Rightarrow> nat" where
  "left Started = 9" | "left (HasDelivery d) = 8" | "left (HasEvent d ev) = 7" | "left (Loaded d ev ep) = 6"
| "left (Ready d ev ep) = 5" | "left (Answered d ev ep res) = 4" | "left (Recorded d ev ep res) = 3"
| "left (Inserted d ev ep res) = 2" | "left (Settled d) = 1" | "left (Finished r) = 0"

definition holds_ok :: "task \<Rightarrow> bool" where
  "holds_ok t \<longleftrightarrow> (\<forall>r \<in> set (held_by t). may_hold (en_attempt_id (tk_env t)) (tk_stage t) r)"

lemma holds_ok_fail [simp]: "holds_ok (fail e t)"
  by (simp add: holds_ok_def)

lemma advance_left:
  assumes "advance cfg held s t = Some (s', t')"
  shows "left (tk_stage t') < left (tk_stage t)"
proof (cases "tk_stage t")
  case (Loaded d ev ep)
  then show ?thesis
    using assms by (cases "ep_opened_at ep") (auto simp: advance_def Let_def load_def split: if_splits option.splits)
next
  case (Ready d ev ep)
  with assms show ?thesis by (auto simp: advance_def Let_def split: sum.splits)
next
  case (Answered d ev ep res)
  with assms show ?thesis by (auto simp: advance_def Let_def)
next
  case (Recorded d ev ep res)
  with assms show ?thesis by (auto simp: advance_def Let_def split: if_splits)
next
  case (Inserted d ev ep res)
  with assms show ?thesis by (auto simp: advance_def Let_def load_def split: option.splits)
next
  case (Finished r)
  with assms show ?thesis by (simp add: advance_def Let_def)
qed (use assms in \<open>auto simp: advance_def Let_def load_def split: option.splits\<close>)

lemma holds_ok_load:
  assumes "\<And>x. row = Some x \<Longrightarrow> holds_ok (enter (f x) t)"
  shows "holds_ok (load e row f t)"
  using assms by (cases row) (simp_all add: load_def holds_ok_def)

lemma held_flush: "flush held ws t = Some t' \<Longrightarrow> set (held_by t') = set (held_by t) \<union> row_of ` set ws \<and> tk_env t' = tk_env t"
  by (auto simp: flush_Some held_by_def)

lemma advance_holds:
  assumes "holds_ok t" and "advance cfg held s t = Some (s', t')"
  shows "holds_ok t'"
proof (cases "tk_stage t")
  case (Loaded d ev ep)
  then have none: "held_by t = []" using assms(1) by (auto simp: holds_ok_def)
  have ready: "holds_ok (load (NotFoundError (ep_id ep)) (endpoints_get (ep_id ep) (view t1 s)) (Ready d ev) t1)"
    if "flush held (flush_endpoint ep (half_open ep)) t = Some t1" for t1
    using held_flush [OF that] row_of_flush(1) [of ep "half_open ep"] none
    by (intro holds_ok_load) (auto simp: holds_ok_def endpoints_get_def dest!: find_by_SomeD)
  have settled: "holds_ok (load e row Settled t1)" for e row t1
    by (rule holds_ok_load) (simp add: holds_ok_def)
  show ?thesis
    using assms(2) Loaded ready settled none
    by (cases "ep_opened_at ep") (auto simp: advance_def Let_def holds_ok_def [of "enter _ _"] split: if_splits)
next
  case (Ready d ev ep)
  with assms show ?thesis by (auto simp: advance_def Let_def holds_ok_def split: sum.splits)
next
  case (Answered d ev ep res)
  have "holds_ok (enter (Recorded d ev ep res) t1)"
    if "flush held (flush_endpoint ep b) t = Some t1" for t1 b
    using held_flush [OF that] row_of_flush(1) [of ep b] assms(1) Answered by (auto simp: holds_ok_def)
  with assms Answered show ?thesis by (auto simp: advance_def Let_def)
next
  case (Recorded d ev ep res)
  have "holds_ok (enter (Inserted d ev ep res) t1)"
    if "flush held [InsertAttempt (attempt_row (tk_env t) ev ep d res)] t = Some t1" for t1
    using held_flush [OF that] assms(1) Recorded by (auto simp: holds_ok_def)
  with assms Recorded show ?thesis by (auto simp: advance_def Let_def holds_ok_def [of "fail _ _"] split: if_splits)
next
  case (Inserted d ev ep res)
  have "holds_ok (load e row Settled t1)" for e row t1
    by (rule holds_ok_load) (simp add: holds_ok_def)
  with assms(2) Inserted show ?thesis by (auto simp: advance_def Let_def)
next
  case (Finished r)
  with assms show ?thesis by (simp add: advance_def Let_def)
next
  case (Settled d)
  with assms show ?thesis by (auto simp: advance_def Let_def holds_ok_def held_by_def)
qed (use assms in \<open>auto simp: advance_def Let_def holds_ok_def load_def split: option.splits\<close>)

text \<open>Why a task may have to wait.\<close>

lemma flush_None:
  "flush held (flush_endpoint ep b) t = None \<Longrightarrow> EndpointRow (ep_id ep) \<in> set held"
  "flush held (flush_delivery d d') t = None \<Longrightarrow> DeliveryRow (d_id d) \<in> set held"
  "flush held [InsertAttempt a] t = None \<Longrightarrow> AttemptRow (a_id a) \<in> set held"
  by (auto simp: flush_def flush_endpoint_def flush_delivery_def split: if_splits)

lemma advance_waits:
  assumes "advance cfg held s t = None"
  shows "(\<exists>r. tk_stage t = Finished r) \<or>
    (\<exists>d ev ep. tk_stage t = Loaded d ev ep \<and> (EndpointRow (ep_id ep) \<in> set held \<or> DeliveryRow (d_id d) \<in> set held)) \<or>
    (\<exists>d ev ep res. tk_stage t = Answered d ev ep res \<and> EndpointRow (ep_id ep) \<in> set held) \<or>
    (\<exists>d ev ep res. tk_stage t = Recorded d ev ep res \<and> AttemptRow (en_attempt_id (tk_env t)) \<in> set held) \<or>
    (\<exists>d ev ep res. tk_stage t = Inserted d ev ep res \<and> DeliveryRow (d_id d) \<in> set held)"
proof (cases "tk_stage t")
  case (Loaded d ev ep)
  then have "EndpointRow (ep_id ep) \<in> set held \<or> DeliveryRow (d_id d) \<in> set held"
    using assms flush_None(1) flush_None(2) [of held d]
    by (cases "ep_opened_at ep") (auto simp: advance_def Let_def split: if_splits)
  then show ?thesis using Loaded by simp
next
  case (Answered d ev ep res)
  then have "EndpointRow (ep_id ep) \<in> set held"
    using assms flush_None(1) by (auto simp: advance_def Let_def)
  then show ?thesis using Answered by simp
next
  case (Recorded d ev ep res)
  then have "AttemptRow (en_attempt_id (tk_env t)) \<in> set held"
    using assms flush_None(3) [of held "attempt_row (tk_env t) ev ep d res" t]
    by (auto simp: advance_def Let_def split: if_splits)
  then show ?thesis using Recorded by simp
next
  case (Inserted d ev ep res)
  then have "DeliveryRow (d_id d) \<in> set held"
    using assms flush_None(2) by (auto simp: advance_def Let_def)
  then show ?thesis using Inserted by simp
qed (use assms in \<open>auto simp: advance_def Let_def\<close>)

text \<open>
  Rows are taken in the order endpoint, attempt, delivery, and a task that has its delivery can
  always commit: some task can go on.
\<close>

lemma someone_advances:
  assumes "locks_disjoint ts" and "\<forall>t \<in> set ts. holds_ok t" and "i < length ts" and "\<nexists>r. tk_stage (ts ! i) = Finished r"
  shows "\<exists>j < length ts. advance cfg (held_from j ts) s (ts ! j) \<noteq> None"
proof (rule ccontr)
  assume "\<not> ?thesis"
  then have stuck: "advance cfg (held_from j ts) s (ts ! j) = None" if "j < length ts" for j using that by blast
  have ok: "holds_ok (ts ! j)" if "j < length ts" for j using assms(2) that by simp
  have go: "\<nexists>d. tk_stage (ts ! j) = Settled d" "\<nexists>d ev ep. tk_stage (ts ! j) = Ready d ev ep" if "j < length ts" for j
    using advance_waits [OF stuck [OF that]] by auto
  have holder: "\<exists>k < length ts. k \<noteq> j \<and> r \<in> set (held_by (ts ! k)) \<and> may_hold (en_attempt_id (tk_env (ts ! k))) (tk_stage (ts ! k)) r"
    if "r \<in> set (held_from j ts)" for r j
    using that ok by (fastforce simp: set_held_from holds_ok_def)
  have d: "DeliveryRow x \<notin> set (held_from j ts)" for x j
  proof
    assume "DeliveryRow x \<in> set (held_from j ts)"
    from holder [OF this] obtain k where k: "k < length ts" "may_hold (en_attempt_id (tk_env (ts ! k))) (tk_stage (ts ! k)) (DeliveryRow x)"
      by blast
    then show False using go [OF k(1)] by (cases "tk_stage (ts ! k)") auto
  qed
  have ins: "\<nexists>d ev ep res. tk_stage (ts ! j) = Inserted d ev ep res" if "j < length ts" for j
    using advance_waits [OF stuck [OF that]] d by auto
  have a: "AttemptRow x \<notin> set (held_from j ts)" for x j
  proof
    assume "AttemptRow x \<in> set (held_from j ts)"
    from holder [OF this] obtain k where k: "k < length ts" "may_hold (en_attempt_id (tk_env (ts ! k))) (tk_stage (ts ! k)) (AttemptRow x)"
      by blast
    then show False using go [OF k(1)] ins [OF k(1)] by (cases "tk_stage (ts ! k)") auto
  qed
  have rec: "\<nexists>d ev ep res. tk_stage (ts ! j) = Recorded d ev ep res" if "j < length ts" for j
    using advance_waits [OF stuck [OF that]] a by auto
  have e: "EndpointRow x \<notin> set (held_from j ts)" for x j
  proof
    assume "EndpointRow x \<in> set (held_from j ts)"
    from holder [OF this] obtain k where k: "k < length ts" "EndpointRow x \<in> set (held_by (ts ! k))"
      "may_hold (en_attempt_id (tk_env (ts ! k))) (tk_stage (ts ! k)) (EndpointRow x)"
      by blast
    then obtain d ev ep res where st: "tk_stage (ts ! k) = Answered d ev ep res" "x = ep_id ep"
      using go [OF k(1)] ins [OF k(1)] rec [OF k(1)] by (cases "tk_stage (ts ! k)") auto
    then have "EndpointRow x \<in> set (held_from k ts)" using advance_waits [OF stuck [OF k(1)]] by auto
    then show False using k(1,2) assms(1) by (fastforce simp: set_held_from locks_disjoint_def)
  qed
  show False using advance_waits [OF stuck [OF assms(3)]] a d e assms(4) by auto
qed

subsection \<open>Attempts on a closed breaker\<close>

text \<open>Steps of one task, the other tasks standing still.\<close>

definition alone_steps :: "settings \<Rightarrow> (task list \<Rightarrow> bool) \<Rightarrow> crowd \<Rightarrow> crowd \<Rightarrow> bool" where
  "alone_steps cfg Q w w' \<longleftrightarrow> (\<lambda>w w'. overlap_step cfg w w' \<and> Q (cr_tasks w'))\<^sup>*\<^sup>* w w'"

lemma held_from_update [simp]: "held_from i (ts[i := x]) = held_from i ts"
  by (auto simp: held_from_def intro!: arg_cong [of _ _ concat])

lemma alone_refl [simp]: "alone_steps cfg Q w w"
  by (simp add: alone_steps_def)

lemma alone_step:
  assumes "alone_steps cfg Q w \<lparr>cr_db = s, cr_tasks = ts[i := t]\<rparr>" and "i < length ts"
    and "advance cfg (held_from i ts) s t = Some (s', t')" and "Q (ts[i := t'])"
  shows "alone_steps cfg Q w \<lparr>cr_db = s', cr_tasks = ts[i := t']\<rparr>"
proof -
  have "overlap_step cfg \<lparr>cr_db = s, cr_tasks = ts[i := t]\<rparr> \<lparr>cr_db = s', cr_tasks = ts[i := t']\<rparr>"
    using overlap_step.step [of i "\<lparr>cr_db = s, cr_tasks = ts[i := t]\<rparr>" cfg s' t'] assms(2,3) by simp
  then show ?thesis using assms(1,4) unfolding alone_steps_def by (auto intro: rtranclp.rtrancl_into_rtrancl)
qed

lemma alone_trans: "alone_steps cfg Q u v \<Longrightarrow> alone_steps cfg Q v w \<Longrightarrow> alone_steps cfg Q u w"
  unfolding alone_steps_def by (rule rtranclp_trans)

lemma runs_until_answered:
  assumes "found s (tk_delivery t) d ev ep" and "ep_breaker_state ep = CLOSED" and "tk_stage t = Started" "tk_writes t = []"
    and "en_send (tk_env t) (ep_url ep) (request_payload (tk_env t) ev) (request_headers (tk_env t) ev ep (tk_delivery t)) = Inr res"
    and i: "i < length ts" and Q: "\<And>x. Q (ts[i := x])"
  shows "alone_steps cfg Q \<lparr>cr_db = s, cr_tasks = ts[i := t]\<rparr> \<lparr>cr_db = s, cr_tasks = ts[i := enter (Answered d ev ep res) t]\<rparr>"
proof -
  note f = assms(1) [unfolded found_def]
  have no: "\<not> should_skip_for_open_breaker CLOSED x now c" for x now c by (simp add: should_skip_for_open_breaker_def)
  have "enter x (enter y t) = enter x t" for x y by (simp add: enter_def)
  note a = alone_step [where ts = ts and i = i and Q = Q, OF _ i _ Q] and e = this
  let ?w = "\<lparr>cr_db = s, cr_tasks = ts[i := t]\<rparr>"
  have "alone_steps cfg Q ?w \<lparr>cr_db = s, cr_tasks = ts[i := enter (HasDelivery d) t]\<rparr>"
    by (rule a [OF alone_refl]) (use f assms(3,4) in \<open>simp add: advance_def Let_def load_def\<close>)
  then have "alone_steps cfg Q ?w \<lparr>cr_db = s, cr_tasks = ts[i := enter (HasEvent d ev) t]\<rparr>"
    by (rule a) (use f assms(3,4) in \<open>simp add: advance_def Let_def load_def e\<close>)
  then have "alone_steps cfg Q ?w \<lparr>cr_db = s, cr_tasks = ts[i := enter (Loaded d ev ep) t]\<rparr>"
    by (rule a) (use f assms(3,4) in \<open>simp add: advance_def Let_def load_def e\<close>)
  then have "alone_steps cfg Q ?w \<lparr>cr_db = s, cr_tasks = ts[i := enter (Ready d ev ep) t]\<rparr>"
    by (rule a) (use assms(2) no in \<open>simp add: advance_def Let_def e\<close>)
  then show ?thesis
    by (rule a) (use assms(5) found_ids [OF assms(1)] in \<open>simp add: advance_def Let_def e\<close>)
qed

lemma runs_until_finished:
  assumes g: "deliveries_get (tk_delivery t) s = Some d" and keys: "distinct (map d_id (db_deliveries s))"
    and new: "en_attempt_id (tk_env t) \<notin> a_id ` set (db_attempts s)"
    and t: "tk_stage t = Answered d ev ep res" "tk_writes t = []" "ep_breaker_state ep = CLOSED"
    and i: "i < length ts" and free: "held_from i ts = []" and Q: "\<And>x. Q (ts[i := x])"
  shows "alone_steps cfg Q \<lparr>cr_db = s, cr_tasks = ts[i := t]\<rparr>
    \<lparr>cr_db = fold apply_write (sent_writes cfg (tk_env t) d ev ep res) s,
     cr_tasks = ts[i := t\<lparr>tk_stage := Finished (Inr (after_attempt cfg (en_now (tk_env t)) (en_draw (tk_env t)) (succeeded res) d)),
                       tk_writes := []\<rparr>]\<rparr>"
proof -
  let ?env = "tk_env t" and ?w = "\<lparr>cr_db = s, cr_tasks = ts[i := t]\<rparr>"
  let ?f = "after_attempt cfg (en_now ?env) (en_draw ?env) (succeeded res)"
  let ?w1 = "flush_endpoint ep (outcome_of cfg ?env ep res)" and ?row = "attempt_row ?env ev ep d res"
  have flush: "flush [] ws u = Some (u\<lparr>tk_writes := tk_writes u @ ws\<rparr>)" for ws u by (simp add: flush_def list_ex_iff)
  have ws: "sent_writes cfg ?env d ev ep res = ?w1 @ [InsertAttempt ?row] @ flush_delivery d (?f d)"
    using t(3) by (simp add: sent_writes_def outcome_writes_def probe_writes_def probing_def)
  obtain es where es: "fold apply_write ?w1 s = s\<lparr>db_endpoints := es\<rparr>"
    by (cases "breaker_of ep = outcome_of cfg ?env ep res") (auto simp: flush_endpoint_def intro: that [of "db_endpoints s"])
  have refresh: "deliveries_get (tk_delivery t) (fold apply_write ((?w1 @ [InsertAttempt ?row]) @ flush_delivery d (?f d)) s) = Some (?f d)"
    by (rule refreshed_delivery [OF g keys, where es = es and as = "db_attempts s @ [?row]"]) (simp_all add: es)
  have id: "d_id d = tk_delivery t" using g by (auto simp: deliveries_get_def dest: find_by_SomeD)
  note a = alone_step [where ts = ts and i = i and Q = Q, OF _ i _ Q]
  have "alone_steps cfg Q ?w \<lparr>cr_db = s, cr_tasks = ts[i := t\<lparr>tk_stage := Recorded d ev ep res, tk_writes := ?w1\<rparr>]\<rparr>"
    by (rule a [OF alone_refl]) (simp add: advance_def Let_def t free flush enter_def)
  then have "alone_steps cfg Q ?w \<lparr>cr_db = s, cr_tasks = ts[i := t\<lparr>tk_stage := Inserted d ev ep res,
      tk_writes := ?w1 @ [InsertAttempt ?row]\<rparr>]\<rparr>"
    by (rule a) (use new in \<open>simp add: advance_def Let_def free flush enter_def view_def es\<close>)
  then have "alone_steps cfg Q ?w \<lparr>cr_db = s, cr_tasks = ts[i := t\<lparr>tk_stage := Settled (?f d),
      tk_writes := sent_writes cfg ?env d ev ep res\<rparr>]\<rparr>"
    by (rule a) (use refresh in \<open>simp add: advance_def Let_def free flush enter_def view_def load_def id ws\<close>)
  then show ?thesis
    by (rule a) (simp add: advance_def Let_def view_def)
qed

text \<open>The same stretch of every task, one task after the other.\<close>

lemma sweep:
  assumes "\<And>m. m < length js \<Longrightarrow> alone_steps cfg Q
      \<lparr>cr_db = S m, cr_tasks = (map F (take m js) @ map G (drop m js))[m := G (js ! m)]\<rparr>
      \<lparr>cr_db = S (Suc m), cr_tasks = (map F (take m js) @ map G (drop m js))[m := F (js ! m)]\<rparr>"
  shows "alone_steps cfg Q \<lparr>cr_db = S 0, cr_tasks = map G js\<rparr> \<lparr>cr_db = S (length js), cr_tasks = map F js\<rparr>"
proof -
  have "m \<le> length js \<Longrightarrow> alone_steps cfg Q \<lparr>cr_db = S 0, cr_tasks = map G js\<rparr>
      \<lparr>cr_db = S m, cr_tasks = map F (take m js) @ map G (drop m js)\<rparr>" for m
  proof (induction m)
    case (Suc m)
    then have m: "m < length js" by simp
    have "drop m js = js ! m # drop (Suc m) js" using m by (simp add: Cons_nth_drop_Suc)
    then have "(map F (take m js) @ map G (drop m js))[m := x] = map F (take m js) @ x # map G (drop (Suc m) js)" for x
      using m by (simp add: list_update_append)
    moreover have "map F (take (Suc m) js) = map F (take m js) @ [F (js ! m)]"
      using m by (simp add: take_Suc_conv_app_nth)
    moreover have "map G (drop m js) = G (js ! m) # map G (drop (Suc m) js)"
      using m by (simp flip: Cons_nth_drop_Suc)
    moreover have "alone_steps cfg Q \<lparr>cr_db = S 0, cr_tasks = map G js\<rparr>
        \<lparr>cr_db = S m, cr_tasks = map F (take m js) @ map G (drop m js)\<rparr>"
      using Suc by simp
    ultimately show ?case
      using alone_trans assms [OF m] by fastforce
  qed simp
  from this [of "length js"] show ?thesis by simp
qed

type_synonym failing_attempt = "attempt_env \<times> delivery \<times> event \<times> outbound_http_result"

definition job_of :: "failing_attempt \<Rightarrow> uuid \<times> attempt_env" where
  "job_of j = (case j of (env, d, ev, res) \<Rightarrow> (d_id d, env))"

text \<open>Attempts of different deliveries to the endpoint \<open>ep\<close> that are sent and fail.\<close>

definition failing_attempts :: "db \<Rightarrow> endpoint \<Rightarrow> failing_attempt list \<Rightarrow> bool" where
  "failing_attempts s ep js \<longleftrightarrow>
     (\<forall>(env, d, ev, res) \<in> set js. found s (d_id d) d ev ep \<and> \<not> succeeded res \<and>
        en_attempt_id env \<notin> a_id ` set (db_attempts s) \<and>
        en_send env (ep_url ep) (request_payload env ev) (request_headers env ev ep (d_id d)) = Inr res) \<and>
     distinct (map (\<lambda>(env, d, ev, res). d_id d) js) \<and> distinct (map (\<lambda>(env, d, ev, res). en_attempt_id env) js)"

fun job_writes :: "settings \<Rightarrow> endpoint \<Rightarrow> failing_attempt \<Rightarrow> db_write list" where
  "job_writes cfg ep (env, d, ev, res) = sent_writes cfg env d ev ep res"

lemma job_rows:
  assumes "failing_attempts s ep js" and "(env, d, ev, res) \<in> set js"
  shows "row_of ` set (job_writes cfg ep (env, d, ev, res)) \<subseteq>
    {EndpointRow (ep_id ep), AttemptRow (en_attempt_id env), DeliveryRow (d_id d)}"
  using row_of_flush(2) row_of_flush(4) by (fastforce simp: sent_writes_def)

lemma jobs_done_frame:
  fixes js :: "failing_attempt list" and cfg :: settings
  assumes j: "failing_attempts s ep js" and m: "m < length js" and k: "js ! m = (env, d, ev, res)" and "db_ok s"
  defines "s' \<equiv> fold apply_write (concat (map (job_writes cfg ep) (take m js))) s"
  shows "deliveries_get (d_id d) s' = Some d" "distinct (map d_id (db_deliveries s'))"
    "en_attempt_id env \<notin> a_id ` set (db_attempts s')"
proof -
  have "(env, d, ev, res) \<in> set js" using m k by (metis nth_mem)
  then have f: "found s (d_id d) d ev ep" "en_attempt_id env \<notin> a_id ` set (db_attempts s)"
    using j by (auto simp: failing_attempts_def)
  have other: "d_id d' \<noteq> d_id d \<and> en_attempt_id env' \<noteq> en_attempt_id env"
    if mem: "(env', d', ev', res') \<in> set (take m js)" for env' d' ev' res'
  proof -
    obtain k' where k': "k' < m" "js ! k' = (env', d', ev', res')" using mem m by (fastforce simp: in_set_conv_nth)
    have "distinct (map (\<lambda>(env, d, ev, res). d_id d) js)" "distinct (map (\<lambda>(env, d, ev, res). en_attempt_id env) js)"
      using j by (simp_all add: failing_attempts_def)
    from this [THEN nth_eq_iff_index_eq, of k' m] show ?thesis using k k' m by simp
  qed
  have rows: "r \<noteq> DeliveryRow (d_id d) \<and> r \<noteq> AttemptRow (en_attempt_id env)"
    if r: "r \<in> row_of ` set (concat (map (job_writes cfg ep) (take m js)))" for r
  proof -
    obtain env' d' ev' res' where j': "(env', d', ev', res') \<in> set (take m js)"
      "r \<in> row_of ` set (job_writes cfg ep (env', d', ev', res'))"
      using r by fastforce
    then show ?thesis using job_rows [OF j in_set_takeD [OF j'(1)]] other [OF j'(1)] by fastforce
  qed
  show "deliveries_get (d_id d) s' = Some d"
    unfolding s'_def using f(1) rows by (subst db_frame(3)) (auto simp: found_def)
  show "en_attempt_id env \<notin> a_id ` set (db_attempts s')"
    unfolding s'_def using f(2) rows by (auto simp: db_frame(4))
  have "map d_id (db_deliveries (fold apply_write ws s)) = map d_id (db_deliveries s)" for ws s
  proof (induction ws arbitrary: s)
    case (Cons w ws)
    then show ?case by (cases w) simp_all
  qed simp
  then show "distinct (map d_id (db_deliveries s'))" using assms(4) by (simp add: s'_def db_ok_def)
qed

text \<open>Every one of the attempts writes the same breaker columns.\<close>

lemma endpoint_of_writes:
  assumes "js \<noteq> []" and "\<forall>(env, d, ev, res) \<in> set js. outcome_of cfg env ep res = b"
    and "ep_breaker_state ep = CLOSED" and "\<forall>(env, d, ev, res) \<in> set js. \<not> succeeded res"
    and "endpoints_get (ep_id ep) s = Some ep" and "breaker_of ep \<noteq> b"
  shows "endpoints_get (ep_id ep) (fold apply_write (concat (map (job_writes cfg ep) js)) s) = Some (with_breaker b ep)"
proof -
  let ?set = "set_endpoint_columns (dirty (ep_breaker_state ep) (bt_state b))
      (dirty (ep_consecutive_failures ep) (bt_consecutive_failures b)) (dirty (ep_opened_at ep) (bt_opened_at b))"
  have one: "endpoints_get (ep_id ep) (fold apply_write (job_writes cfg ep j) s') = map_option ?set (endpoints_get (ep_id ep) s')"
    if "j \<in> set js" for j s'
  proof -
    obtain env d ev res where j: "j = (env, d, ev, res)" by (cases j)
    then have "outcome_writes cfg env ep res = flush_endpoint ep b"
      using assms(2,3) that by (auto simp: outcome_writes_def probe_writes_def probing_def)
    moreover have "endpoints_get e (fold apply_write (flush_delivery d d') s1) = endpoints_get e s1" for e d' s1
      by (simp add: flush_delivery_def endpoints_get_def)
    ultimately show ?thesis
      using assms(6)
      by (simp add: j sent_writes_def) (simp add: flush_endpoint_def endpoints_get_def find_by_update_by)
  qed
  have idem: "?set (?set m) = ?set m" for m by (simp add: set_endpoint_columns_def column_def split: option.split)
  have "?set ep = with_breaker b ep"
    by (auto simp: set_endpoint_columns_def with_breaker_def intro!: endpoint.equality)
  moreover have "set xs \<subseteq> set js \<Longrightarrow> xs \<noteq> [] \<Longrightarrow>
      endpoints_get (ep_id ep) (fold apply_write (concat (map (job_writes cfg ep) xs)) s) = Some (?set ep)" for xs
  proof (induction xs rule: rev_induct)
    case (snoc x xs)
    then show ?case using assms(5) by (cases "xs = []") (simp_all add: one idem)
  qed simp
  ultimately show ?thesis using assms(1) by simp
qed

lemma attempts_of_writes:
  "length (db_attempts (fold apply_write (concat (map (job_writes cfg ep) js)) s)) = length (db_attempts s) + length js"
proof -
  have "length (db_attempts (fold apply_write ws s)) = length (db_attempts s) + length (filter (\<lambda>w. \<exists>a. w = InsertAttempt a) ws)" for ws s
  proof (induction ws arbitrary: s)
    case (Cons w ws)
    then show ?case by (cases w) simp_all
  qed simp
  moreover have "length (filter (\<lambda>w. \<exists>a. w = InsertAttempt a) (job_writes cfg ep j)) = 1" for j
    by (cases j) (simp add: sent_writes_def outcome_writes_def probe_writes_def flush_endpoint_def flush_delivery_def)
  then have "length (filter (\<lambda>w. \<exists>a. w = InsertAttempt a) (concat (map (job_writes cfg ep) js))) = length js"
    by (induction js) simp_all
  ultimately show ?thesis by simp
qed

text \<open>All the attempts read, then all send, then each records and commits.\<close>

fun job_task :: "failing_attempt \<Rightarrow> task" where
  "job_task (env, d, ev, res) = new_task (d_id d) env"

fun job_answered :: "endpoint \<Rightarrow> failing_attempt \<Rightarrow> task" where
  "job_answered ep (env, d, ev, res) = enter (Answered d ev ep res) (new_task (d_id d) env)"

fun job_finished :: "settings \<Rightarrow> failing_attempt \<Rightarrow> task" where
  "job_finished cfg (env, d, ev, res) = (new_task (d_id d) env)
     \<lparr>tk_stage := Finished (Inr (after_attempt cfg (en_now env) (en_draw env) (succeeded res) d)), tk_writes := []\<rparr>"

lemma new_task_sel [simp]:
  "tk_delivery (new_task i env) = i" "tk_env (new_task i env) = env" "tk_stage (new_task i env) = Started"
  "tk_writes (new_task i env) = []"
  by (simp_all add: new_task_def)

lemma finished_sel [simp]: "tk_stage (job_finished cfg (env, d, ev, res)) =
    Finished (Inr (after_attempt cfg (en_now env) (en_draw env) (succeeded res) d))"
  by simp

lemma nothing_held: "held_from m (map (job_finished cfg) xs @ map (job_answered ep) ys) = []"
proof -
  have "held_by (job_finished cfg j) = []" "held_by (job_answered ep j) = []" for j
    by (cases j; simp add: held_by_def)+
  then have "held_by ((map (job_finished cfg) xs @ map (job_answered ep) ys) ! i) = []" if "i < length xs + length ys" for i
    using that by (auto simp: nth_append)
  then show ?thesis by (simp add: held_from_def)
qed

lemma failing_attempts_run:
  assumes "db_ok s" and j: "failing_attempts s ep js" and closed: "ep_breaker_state ep = CLOSED"
  shows "(overlap_step cfg)\<^sup>*\<^sup>* (crowd_of s (map job_of js))
    \<lparr>cr_db = fold apply_write (concat (map (job_writes cfg ep) js)) s, cr_tasks = map (job_finished cfg) js\<rparr>"
proof -
  let ?Q = "\<lambda>_. True"
  let ?S = "\<lambda>m. fold apply_write (concat (map (job_writes cfg ep) (take m js))) s"
  have start: "crowd_of s (map job_of js) = \<lparr>cr_db = s, cr_tasks = map job_task js\<rparr>"
    by (auto simp: crowd_of_def job_of_def)
  have "alone_steps cfg ?Q \<lparr>cr_db = s, cr_tasks = map job_task js\<rparr> \<lparr>cr_db = s, cr_tasks = map (job_answered ep) js\<rparr>"
  proof (rule sweep [where S = "\<lambda>_. s"])
    fix m assume m: "m < length js"
    obtain env d ev res where k: "js ! m = (env, d, ev, res)" by (cases "js ! m")
    then have "found s (d_id d) d ev ep"
      "en_send env (ep_url ep) (request_payload env ev) (request_headers env ev ep (d_id d)) = Inr res"
      using j nth_mem [OF m] by (auto simp: failing_attempts_def)
    then show "alone_steps cfg ?Q \<lparr>cr_db = s, cr_tasks = (map (job_answered ep) (take m js) @ map job_task (drop m js))[m := job_task (js ! m)]\<rparr>
        \<lparr>cr_db = s, cr_tasks = (map (job_answered ep) (take m js) @ map job_task (drop m js))[m := job_answered ep (js ! m)]\<rparr>"
      using m closed unfolding k job_task.simps job_answered.simps by (intro runs_until_answered) simp_all
  qed
  moreover have "alone_steps cfg ?Q \<lparr>cr_db = ?S 0, cr_tasks = map (job_answered ep) js\<rparr>
      \<lparr>cr_db = ?S (length js), cr_tasks = map (job_finished cfg) js\<rparr>"
  proof (rule sweep)
    fix m assume m: "m < length js"
    obtain env d ev res where k: "js ! m = (env, d, ev, res)" by (cases "js ! m")
    let ?t = "enter (Answered d ev ep res) (new_task (d_id d) env)"
    have "?S (Suc m) = fold apply_write (sent_writes cfg (tk_env ?t) d ev ep res) (?S m)"
      using m k by (simp add: take_Suc_conv_app_nth)
    moreover have "job_finished cfg (js ! m) = ?t\<lparr>tk_stage := Finished (Inr (after_attempt cfg (en_now (tk_env ?t))
        (en_draw (tk_env ?t)) (succeeded res) d)), tk_writes := []\<rparr>"
      by (simp add: k enter_def)
    ultimately show "alone_steps cfg ?Q \<lparr>cr_db = ?S m, cr_tasks = (map (job_finished cfg) (take m js) @ map (job_answered ep) (drop m js))[m := job_answered ep (js ! m)]\<rparr>
        \<lparr>cr_db = ?S (Suc m), cr_tasks = (map (job_finished cfg) (take m js) @ map (job_answered ep) (drop m js))[m := job_finished cfg (js ! m)]\<rparr>"
      using jobs_done_frame [OF j m k assms(1), where cfg = cfg] closed m nothing_held unfolding k job_answered.simps
      by (simp only:) (intro runs_until_finished, simp_all)
  qed
  ultimately have "alone_steps cfg ?Q \<lparr>cr_db = s, cr_tasks = map job_task js\<rparr>
      \<lparr>cr_db = ?S (length js), cr_tasks = map (job_finished cfg) js\<rparr>"
    using alone_trans by fastforce
  then show ?thesis unfolding start by (simp add: alone_steps_def)
qed

subsection \<open>Properties\<close>

lemma exclusive_run_serializes:
  assumes "(exclusive_step cfg)\<^sup>*\<^sup>* (crowd_of s jobs) w" and "db_ok s"
  shows "crowd_ok cfg w \<and> exclusive (cr_tasks w) \<and> same_tasks (crowd_of s jobs) w \<and>
    (\<exists>order. serializes cfg (crowd_of s jobs) w order)"
  using assms(1)
proof (induction rule: rtranclp_induct)
  case base
  show ?case using crowd_of_ok [OF assms(2)] by (auto simp: same_tasks_def intro!: exI [of _ "[]"])
next
  case (step w w')
  then have o': "overlap_step cfg w w'" "exclusive (cr_tasks w')" by (simp_all add: exclusive_step_def)
  from step.IH obtain order where "crowd_ok cfg w" "exclusive (cr_tasks w)" "same_tasks (crowd_of s jobs) w"
    "serializes cfg (crowd_of s jobs) w order" by blast
  from serialize_step [OF this o'(1)] same_tasks_step [OF this(3) o'(1)] o'(2) show ?case by blast
qed

text \<open>
  C5. Interleaving attempts changes nothing as long as no two of them are in flight at the same endpoint
  or for the same delivery: whatever the order of the statements of the tasks, the committed tables
  are those of running the finished attempts one after another, whole, in the order of their commits,
  and each task returns what its attempt returns there. A task that raises leaves no trace. This is
  what justifies treating an attempt as one step.
\<close>

theorem exclusive_attempts_serialize:
  assumes "db_ok s" and "(exclusive_step cfg)\<^sup>*\<^sup>* (crowd_of s jobs) w"
  shows "\<exists>order. distinct order \<and>
    set order = {i. i < length jobs \<and> (\<exists>d. tk_stage (cr_tasks w ! i) = Finished (Inr d))} \<and>
    (let (results, s') = serial cfg (map (\<lambda>i. case jobs ! i of (k, env) \<Rightarrow> new_task k env) order) s in
     cr_db w = s' \<and> map (\<lambda>i. tk_stage (cr_tasks w ! i)) order = map Finished results)"
proof -
  from exclusive_run_serializes [OF assms(2,1)] obtain order where
    ser: "serializes cfg (crowd_of s jobs) w order" and same: "same_tasks (crowd_of s jobs) w" by blast
  have len: "length (cr_tasks w) = length jobs" using same by (simp add: same_tasks_def crowd_of_def)
  then have "\<forall>i \<in> set order. i < length jobs" using ser by (auto simp: serializes_def delivered_by_def)
  then have eq: "map ((!) (cr_tasks (crowd_of s jobs))) order = map (\<lambda>i. case jobs ! i of (k, env) \<Rightarrow> new_task k env) order"
    by (auto simp: crowd_of_def)
  have db: "cr_db (crowd_of s jobs) = s" by (simp add: crowd_of_def)
  show ?thesis
    using ser unfolding serializes_def delivered_by_def len eq db
    by (intro exI [of _ order]) (simp add: split_beta)
qed


text \<open>
  C10. A defect that the interleaving shows: the number of consecutive failures is read before the
  request and written after it, so failures of attempts that overlap are counted once. However many
  attempts to an endpoint fail together, there is a run in which each is recorded and the breaker,
  one failure further than before, is still closed; with the dispatcher's three attempts per endpoint
  at a time, the breaker can take three times the threshold to open.
\<close>

theorem overlapping_failures_count_once:
  assumes "db_ok s" and "failing_attempts s ep js" and "js \<noteq> []" and "ep_breaker_state ep = CLOSED"
    and "ep_consecutive_failures ep + 1 < breaker_failure_threshold cfg"
  shows "\<exists>w ep'. (overlap_step cfg)\<^sup>*\<^sup>* (crowd_of s (map job_of js)) w \<and>
    (\<forall>t \<in> set (cr_tasks w). \<exists>d. tk_stage t = Finished (Inr d)) \<and>
    length (db_attempts (cr_db w)) = length (db_attempts s) + length js \<and>
    endpoints_get (ep_id ep) (cr_db w) = Some ep' \<and> ep_breaker_state ep' = CLOSED \<and>
    ep_consecutive_failures ep' = ep_consecutive_failures ep + 1"
proof -
  let ?b = "\<lparr>bt_state = CLOSED, bt_consecutive_failures = ep_consecutive_failures ep + 1, bt_opened_at = None\<rparr>"
  let ?s = "fold apply_write (concat (map (job_writes cfg ep) js)) s"
  have out: "\<forall>(env, d, ev, res) \<in> set js. outcome_of cfg env ep res = ?b"
    using assms(2,4,5) by (auto simp: failing_attempts_def outcome_of_def next_breaker_state_def Let_def)
  have fails: "\<forall>(env, d, ev, res) \<in> set js. \<not> succeeded res" using assms(2) by (auto simp: failing_attempts_def)
  obtain env d ev res where "(env, d, ev, res) \<in> set js" using assms(3) by (cases js) auto
  then have "found s (d_id d) d ev ep" using assms(2) by (auto simp: failing_attempts_def)
  from found_get [OF this] have "endpoints_get (ep_id ep) ?s = Some (with_breaker ?b ep)"
    by (intro endpoint_of_writes [OF assms(3) out assms(4) fails]) (simp_all add: breaker_of_def)
  moreover have "\<exists>d. tk_stage (job_finished cfg j) = Finished (Inr d)" for j by (cases j) simp
  ultimately show ?thesis
    using failing_attempts_run [OF assms(1,2,4)]
    by (intro exI [of _ "\<lparr>cr_db = ?s, cr_tasks = map (job_finished cfg) js\<rparr>"] exI [of _ "with_breaker ?b ep"])
      (auto simp: with_breaker_def attempts_of_writes)
qed

text \<open>Two deliveries of one event to one endpoint, both refused with a 500.\<close>

definition demo_pair :: db where
  "demo_pair = (st_db demo_sending)\<lparr>db_deliveries := [demo_delivery, demo_delivery\<lparr>d_id := 10\<rparr>]\<rparr>"

definition refused :: "uuid \<Rightarrow> attempt_env" where
  "refused a = (answers (Inr (status_result 500)))\<lparr>en_attempt_id := a\<rparr>"

definition demo_failures :: "failing_attempt list" where
  "demo_failures = [(refused 77, demo_delivery, demo_event, status_result 500),
     (refused 78, demo_delivery\<lparr>d_id := 10\<rparr>, demo_event, status_result 500)]"

lemma demo_pair_ok: "db_ok demo_pair" "failing_attempts demo_pair demo_endpoint demo_failures"
  "ep_breaker_state demo_endpoint = CLOSED" "ep_consecutive_failures demo_endpoint = 0"
  by (simp_all add: demo_pair_def demo_defs db_ok_def failing_attempts_def demo_failures_def found_def deliveries_get_def
      events_get_def endpoints_get_def refused_def answers_def status_result_def succeeded_def)

lemma overlapping_failures_count_once_witness:
  "\<exists>w ep'. (overlap_step default_settings)\<^sup>*\<^sup>* (crowd_of demo_pair (map job_of demo_failures)) w \<and>
     length (db_attempts (cr_db w)) = 2 \<and> endpoints_get 3 (cr_db w) = Some ep' \<and> ep_consecutive_failures ep' = 1"
proof -
  have "demo_failures \<noteq> []" "length demo_failures = 2" "db_attempts demo_pair = []" "ep_id demo_endpoint = 3"
    "ep_consecutive_failures demo_endpoint + 1 < breaker_failure_threshold default_settings"
    by (simp_all add: demo_failures_def demo_pair_def demo_defs default_settings_def)
  then show ?thesis
    using overlapping_failures_count_once [OF demo_pair_ok(1,2) _ demo_pair_ok(3), of default_settings] demo_pair_ok(4)
    by fastforce
qed


lemma exclusive_attempts_serialize_witness:
  "\<exists>w. (exclusive_step default_settings)\<^sup>*\<^sup>* (crowd_of demo_pair (map job_of demo_failures)) w \<and>
     cr_db w = snd (serial default_settings [new_task 9 (refused 77)] demo_pair) \<and> length (db_attempts (cr_db w)) = 1"
proof -
  let ?ts = "map job_task demo_failures" and ?t = "new_task 9 (refused 77)"
  let ?a = "enter (Answered demo_delivery demo_event demo_endpoint (status_result 500)) ?t"
  have ts: "?ts = [?t, new_task 10 (refused 78)]" by (simp add: demo_failures_def demo_defs)
  have ex: "exclusive (?ts[0 := x])" for x
    unfolding ts exclusive_def by (auto simp: less_Suc_eq nth_Cons')
  have found: "found demo_pair 9 demo_delivery demo_event demo_endpoint"
    using demo_pair_ok(2) by (auto simp: failing_attempts_def demo_failures_def demo_defs)
  then have get: "deliveries_get 9 demo_pair = Some demo_delivery" by (simp add: found_def)
  have start: "crowd_of demo_pair (map job_of demo_failures) = \<lparr>cr_db = demo_pair, cr_tasks = ?ts[0 := ?t]\<rparr>"
    by (simp add: crowd_of_def demo_failures_def job_of_def demo_defs)
  have "alone_steps default_settings exclusive \<lparr>cr_db = demo_pair, cr_tasks = ?ts[0 := ?t]\<rparr> \<lparr>cr_db = demo_pair, cr_tasks = ?ts[0 := ?a]\<rparr>"
    using found ex by (intro runs_until_answered) (simp_all add: ts demo_pair_ok(3) refused_def answers_def)
  moreover have "alone_steps default_settings exclusive \<lparr>cr_db = demo_pair, cr_tasks = ?ts[0 := ?a]\<rparr>
      \<lparr>cr_db = fold apply_write (sent_writes default_settings (tk_env ?a) demo_delivery demo_event demo_endpoint (status_result 500)) demo_pair,
       cr_tasks = ?ts[0 := ?a\<lparr>tk_stage := Finished (Inr (after_attempt default_settings (en_now (tk_env ?a)) (en_draw (tk_env ?a))
         (succeeded (status_result 500)) demo_delivery)), tk_writes := []\<rparr>]\<rparr>" (is "alone_steps _ _ _ ?w")
    using get ex demo_pair_ok(1)
    by (intro runs_until_finished) (simp_all add: ts demo_pair_ok(3) held_from_def held_by_def db_ok_def demo_pair_def demo_defs)
  ultimately have run: "(exclusive_step default_settings)\<^sup>*\<^sup>* (crowd_of demo_pair (map job_of demo_failures)) ?w"
    unfolding start using alone_trans unfolding alone_steps_def exclusive_step_def by blast
  let ?serial = "\<lambda>order. serial default_settings (map (\<lambda>i. case map job_of demo_failures ! i of (k, env) \<Rightarrow> new_task k env) order) demo_pair"
  have len: "length (map job_of demo_failures) = 2" by (simp add: demo_failures_def)
  from exclusive_attempts_serialize [OF demo_pair_ok(1) run] obtain order where
    o': "distinct order" "set order = {i. i < 2 \<and> (\<exists>d. tk_stage (cr_tasks ?w ! i) = Finished (Inr d))}"
      "cr_db ?w = snd (?serial order)"
    unfolding len by (elim exE conjE) (simp only: split_beta Let_def)
  have "set order = {0}" unfolding o'(2) by (auto simp: ts less_2_cases_iff)
  moreover from this have "length order = 1" using distinct_card [OF o'(1)] by simp
  ultimately have "order = [0]" by (cases order) auto
  then have "cr_db ?w = snd (serial default_settings [?t] demo_pair)"
    using o'(3) by (simp add: demo_failures_def job_of_def demo_defs)
  moreover have "length (db_attempts (cr_db ?w)) = 1"
    using attempts_of_writes [of default_settings demo_endpoint "[(refused 77, demo_delivery, demo_event, status_result 500)]" demo_pair]
    by (simp add: demo_pair_def demo_defs)
  ultimately show ?thesis using run by blast
qed

end
