(* ===== verification/Kanban.thy ===== *)
theory Kanban
  imports Wire "HOL-Library.Multiset" "HOL-Library.Sublist"
begin

section \<open>The kanban board\<close>

text \<open>
  \<open>kanban-board/board_cli.py\<close>: the commands that edit the board stored inside \<open>index.html\<close>. The board
  is a record of the keys of its JSON object, a dictionary an association list in the order of its
  keys, a card an item of the backlog or a task. \<open>json.loads\<close> and \<open>json.dumps\<close> of a board are arguments;
  a command is a function of the page, to the new page and the lines it prints.
\<close>

record card =
  ca_id :: string
  ca_title :: "string option"
  ca_description :: "string option"
  ca_priority :: "json option"
  ca_created_at :: "json option"

record board_column =
  co_title :: string
  co_task_ids :: "string list"

record board =
  bd_rev :: "int option"
  bd_backlog :: "card list"
  bd_columns :: "string list"
  bd_column_data :: "(string \<times> board_column) list"
  bd_tasks :: "(string \<times> card) list"

datatype board_error = SystemExit string | MissingKey string | IndexError

subsection \<open>Dictionaries and lists\<close>

text \<open>\<open>d[key] = value\<close>: in place, or at the end.\<close>

fun dict_set :: "'k \<Rightarrow> 'v \<Rightarrow> ('k \<times> 'v) list \<Rightarrow> ('k \<times> 'v) list" where
  "dict_set k v [] = [(k, v)]"
| "dict_set k v ((j, w) # d) = (if j = k then (k, v) # d else (j, w) # dict_set k v d)"

fun index_of :: "('a \<Rightarrow> bool) \<Rightarrow> 'a list \<Rightarrow> nat option" where
  "index_of P [] = None"
| "index_of P (x # xs) = (if P x then Some 0 else map_option Suc (index_of P xs))"

definition list_pop :: "nat \<Rightarrow> 'a list \<Rightarrow> 'a list" where
  "list_pop i xs = take i xs @ drop (Suc i) xs"

definition list_insert :: "nat \<Rightarrow> 'a \<Rightarrow> 'a list \<Rightarrow> 'a list" where
  "list_insert i x xs = take i xs @ x # drop i xs"

definition removeprefix :: "string \<Rightarrow> string \<Rightarrow> string" where
  "removeprefix p s = (if prefix p s then drop (length p) s else s)"

definition task_id_of :: "string \<Rightarrow> string" where
  "task_id_of item_id = ''task-'' @ removeprefix ''backlog-'' item_id"

subsection \<open>Finding and moving a ticket\<close>

fun find_in_columns :: "(string \<times> board_column) list \<Rightarrow> string \<Rightarrow> string list \<Rightarrow> board_error + (string \<times> nat) option" where
  "find_in_columns data i [] = Inr None"
| "find_in_columns data i (c # cs) =
     (case map_of data c of
        None \<Rightarrow> Inl (MissingKey c)
      | Some col \<Rightarrow>
          (case index_of (\<lambda>j. j = i) (co_task_ids col) of
             Some n \<Rightarrow> Inr (Some (c, n))
           | None \<Rightarrow> find_in_columns data i cs))"

definition find_task_location :: "board \<Rightarrow> string \<Rightarrow> board_error + (string \<times> nat) option" where
  "find_task_location state item_id =
     (case index_of (\<lambda>item. ca_id item = item_id) (bd_backlog state) of
        Some i \<Rightarrow> Inr (Some (''backlog'', i))
      | None \<Rightarrow>
          res_bind (find_in_columns (bd_column_data state) item_id (bd_columns state)) (\<lambda>loc.
            case loc of
              Some l \<Rightarrow> Inr (Some l)
            | None \<Rightarrow> find_in_columns (bd_column_data state) (task_id_of item_id) (bd_columns state)))"

definition task_of_item :: "card \<Rightarrow> board_error + card" where
  "task_of_item item =
     (case ca_title item of
        None \<Rightarrow> Inl (MissingKey ''title'')
      | Some title \<Rightarrow> Inr \<lparr>ca_id = task_id_of (ca_id item), ca_title = Some title,
          ca_description = Some (case ca_description item of None \<Rightarrow> [] | Some x \<Rightarrow> x),
          ca_priority = Some (case ca_priority item of None \<Rightarrow> JStr [] | Some x \<Rightarrow> x),
          ca_created_at = Some (case ca_created_at item of None \<Rightarrow> JInt 0 | Some x \<Rightarrow> x)\<rparr>)"

text \<open>The ticket is taken from where it is; a backlog item becomes a task.\<close>

definition take_ticket :: "board \<Rightarrow> string \<Rightarrow> nat \<Rightarrow> board_error + board \<times> string" where
  "take_ticket state loc idx =
     (if loc = ''backlog'' then
        let item = bd_backlog state ! idx in
        res_bind (task_of_item item) (\<lambda>task.
          Inr (state\<lparr>bd_backlog := list_pop idx (bd_backlog state),
                     bd_tasks := dict_set (task_id_of (ca_id item)) task (bd_tasks state)\<rparr>,
               task_id_of (ca_id item)))
      else
        case map_of (bd_column_data state) loc of
          None \<Rightarrow> Inl (MissingKey loc)
        | Some col \<Rightarrow>
            Inr (state\<lparr>bd_column_data := dict_set loc (col\<lparr>co_task_ids := list_pop idx (co_task_ids col)\<rparr>) (bd_column_data state)\<rparr>,
                 co_task_ids col ! idx))"

definition open_column :: "string \<Rightarrow> board \<Rightarrow> board" where
  "open_column target_col state =
     (if map_of (bd_column_data state) target_col = None
      then state\<lparr>bd_column_data := dict_set target_col \<lparr>co_title = target_col, co_task_ids = []\<rparr> (bd_column_data state),
                 bd_columns := (if target_col \<in> set (bd_columns state) then bd_columns state
                                else list_insert 2 target_col (bd_columns state))\<rparr>
      else state)"

definition put_ticket :: "string \<Rightarrow> string \<Rightarrow> board \<Rightarrow> board_error + board" where
  "put_ticket target_col task_id state =
     (case map_of (bd_column_data state) target_col of
        None \<Rightarrow> Inl (MissingKey target_col)
      | Some col \<Rightarrow> Inr (state\<lparr>bd_column_data :=
          dict_set target_col (col\<lparr>co_task_ids := co_task_ids col @ [task_id]\<rparr>) (bd_column_data state)\<rparr>))"

definition move_to_column :: "board \<Rightarrow> string \<Rightarrow> string \<Rightarrow> board_error + board \<times> string" where
  "move_to_column state item_id target_col =
     res_bind (find_task_location state item_id) (\<lambda>loc.
       case loc of
         None \<Rightarrow> Inl (SystemExit (''id not found: '' @ item_id))
       | Some (l, idx) \<Rightarrow>
           res_bind (take_ticket state l idx) (\<lambda>(state', task_id).
           res_bind (put_ticket target_col task_id (open_column target_col state')) (\<lambda>state''.
             Inr (state'', task_id))))"

definition ensure_column :: "string \<Rightarrow> string \<Rightarrow> board \<Rightarrow> board" where
  "ensure_column col_id title state =
     state\<lparr>bd_column_data := (if map_of (bd_column_data state) col_id = None
             then dict_set col_id \<lparr>co_title = title, co_task_ids = []\<rparr> (bd_column_data state) else bd_column_data state),
           bd_columns := (if col_id \<in> set (bd_columns state) then bd_columns state else bd_columns state @ [col_id])\<rparr>"

text \<open>
  The card that \<open>get_task_record\<close> finds is changed where it stands: \<open>Inl i\<close> in the backlog, \<open>Inr k\<close> in
  the tasks.
\<close>

definition get_task_record :: "board \<Rightarrow> string \<Rightarrow> (nat + string) option" where
  "get_task_record state item_id =
     (case index_of (\<lambda>item. ca_id item = item_id) (bd_backlog state) of
        Some i \<Rightarrow> Some (Inl i)
      | None \<Rightarrow>
          if map_of (bd_tasks state) item_id \<noteq> None then Some (Inr item_id)
          else if map_of (bd_tasks state) (task_id_of item_id) \<noteq> None then Some (Inr (task_id_of item_id))
          else None)"

definition note_blocked :: "string \<Rightarrow> card \<Rightarrow> card" where
  "note_blocked reason rec =
     rec\<lparr>ca_description := Some (strip_set is_py_space
           ((case ca_description rec of None \<Rightarrow> [] | Some x \<Rightarrow> x) @ [CHR 10, CHR 10] @ ''BLOCKED: '' @ reason))\<rparr>"

definition mark_blocked :: "string \<Rightarrow> string \<Rightarrow> board \<Rightarrow> board" where
  "mark_blocked task_id reason state =
     (case get_task_record state task_id of
        None \<Rightarrow> state
      | Some (Inl i) \<Rightarrow> state\<lparr>bd_backlog := (bd_backlog state)[i := note_blocked reason (bd_backlog state ! i)]\<rparr>
      | Some (Inr k) \<Rightarrow> state\<lparr>bd_tasks := dict_set k (note_blocked reason (the (map_of (bd_tasks state) k))) (bd_tasks state)\<rparr>)"

subsection \<open>The page\<close>

definition SEED_OPEN :: string where
  "SEED_OPEN = ''<script type='' @ [CHR 34] @ ''application/json'' @ [CHR 34] @ '' id='' @ [CHR 34] @ ''board-seed'' @ [CHR 34] @ ''>'' @ [CHR 10]"

definition SEED_CLOSE :: string where "SEED_CLOSE = [CHR 10] @ ''</script>''"

text \<open>The text before the first occurrence of a word, and the text after it.\<close>

fun split_first :: "string \<Rightarrow> string \<Rightarrow> (string \<times> string) option" where
  "split_first w [] = (if w = [] then Some ([], []) else None)"
| "split_first w (c # s) =
     (if prefix w (c # s) then Some ([], drop (length w) (c # s))
      else map_option (\<lambda>(a, b). (c # a, b)) (split_first w s))"

text \<open>\<open>SEED_RE.search\<close>: the first opening tag, and the shortest text up to a closing tag.\<close>

definition seed_search :: "string \<Rightarrow> (string \<times> string \<times> string) option" where
  "seed_search html =
     (case split_first SEED_OPEN html of
        None \<Rightarrow> None
      | Some (before, rest) \<Rightarrow> map_option (\<lambda>(seed, after). (before, seed, after)) (split_first SEED_CLOSE rest))"

definition load_state :: "(string \<Rightarrow> board_error + board) \<Rightarrow> string \<Rightarrow> board_error + board" where
  "load_state loads html =
     (case seed_search html of
        None \<Rightarrow> Inl (SystemExit ''board-seed script block not found in index.html'')
      | Some (before, seed, after) \<Rightarrow> loads seed)"

definition bump_rev :: "board \<Rightarrow> board" where
  "bump_rev state = state\<lparr>bd_rev := Some ((case bd_rev state of None \<Rightarrow> 0 | Some r \<Rightarrow> r) + 1)\<rparr>"

definition save_state :: "(board \<Rightarrow> string) \<Rightarrow> board \<Rightarrow> string \<Rightarrow> string" where
  "save_state dumps state html =
     (case seed_search html of
        None \<Rightarrow> html
      | Some (before, seed, after) \<Rightarrow> before @ SEED_OPEN @ dumps (bump_rev state) @ SEED_CLOSE @ after)"

subsection \<open>The commands\<close>

definition saved_line :: "board \<Rightarrow> string" where
  "saved_line state = ''rev '' @ decimal (the (bd_rev (bump_rev state))) @ '' saved.''"

definition argument :: "nat \<Rightarrow> string list \<Rightarrow> board_error + string" where
  "argument i argv = (if i < length argv then Inr (argv ! i) else Inl IndexError)"

text \<open>\<open>read\<close> is the backlog in the file of that name.\<close>

definition cmd_seed ::
  "(string \<Rightarrow> board_error + card list) \<Rightarrow> (string \<Rightarrow> board_error + board) \<Rightarrow> (board \<Rightarrow> string) \<Rightarrow> string list \<Rightarrow>
   string \<Rightarrow> board_error + string \<times> string list" where
  "cmd_seed read loads dumps argv html =
     res_bind (argument 0 argv) (\<lambda>path.
     res_bind (read path) (\<lambda>backlog.
     res_bind (load_state loads html) (\<lambda>state.
       let state' = state\<lparr>bd_backlog := backlog\<rparr> in
       Inr (save_state dumps state' html,
            [saved_line state', ''Seeded '' @ decimal (int (length backlog)) @ '' backlog items.'']))))"

definition py_title :: "string option \<Rightarrow> string" where
  "py_title t = (case t of None \<Rightarrow> ''None'' | Some x \<Rightarrow> x)"

fun column_lines :: "board \<Rightarrow> string list \<Rightarrow> board_error + string list" where
  "column_lines state [] = Inr []"
| "column_lines state (c # cs) =
     (case map_of (bd_column_data state) c of
        None \<Rightarrow> Inl (MissingKey c)
      | Some col \<Rightarrow> res_bind (column_lines state cs) (\<lambda>lines.
          Inr ([[], ''== '' @ co_title col @ '' ('' @ decimal (int (length (co_task_ids col))) @ '') =='' ] @
               map (\<lambda>tid. ''  ['' @ tid @ ''] '' @ py_title (Option.bind (map_of (bd_tasks state) tid) ca_title)) (co_task_ids col) @
               lines)))"

fun backlog_lines :: "card list \<Rightarrow> board_error + string list" where
  "backlog_lines [] = Inr []"
| "backlog_lines (item # items) =
     (case ca_title item of
        None \<Rightarrow> Inl (MissingKey ''title'')
      | Some t \<Rightarrow> res_bind (backlog_lines items) (\<lambda>lines. Inr ((''  ['' @ ca_id item @ ''] '' @ t) # lines)))"

definition cmd_list :: "(string \<Rightarrow> board_error + board) \<Rightarrow> string \<Rightarrow> board_error + string \<times> string list" where
  "cmd_list loads html =
     res_bind (load_state loads html) (\<lambda>state.
     res_bind (column_lines state (bd_columns state)) (\<lambda>cols.
     res_bind (backlog_lines (take 10 (bd_backlog state))) (\<lambda>items.
       let n = length (bd_backlog state) in
       Inr (html, [''rev '' @ decimal (case bd_rev state of None \<Rightarrow> 0 | Some r \<Rightarrow> r)] @ cols @
         [[], ''== Backlog ('' @ decimal (int n) @ '') ==''] @ items @
         (if 10 < n then [''  ... and '' @ decimal (int n - 10) @ '' more''] else [])))))"

text \<open>\<open>to-todo\<close>, \<open>start\<close> and \<open>done\<close>: the target column and the name it is printed with.\<close>

definition cmd_move ::
  "string \<Rightarrow> string \<Rightarrow> (string \<Rightarrow> board_error + board) \<Rightarrow> (board \<Rightarrow> string) \<Rightarrow> string list \<Rightarrow> string \<Rightarrow>
   board_error + string \<times> string list" where
  "cmd_move target label loads dumps argv html =
     res_bind (load_state loads html) (\<lambda>state.
     res_bind (argument 0 argv) (\<lambda>item_id.
     res_bind (move_to_column state item_id target) (\<lambda>(state', task_id).
       Inr (save_state dumps state' html,
            [saved_line state', item_id @ '' -> '' @ label @ '' ('' @ task_id @ '')'']))))"

definition cmd_to_todo where "cmd_to_todo = cmd_move ''col-todo'' ''To Do''"
definition cmd_start where "cmd_start = cmd_move ''col-doing'' ''In Progress''"
definition cmd_done where "cmd_done = cmd_move ''col-done'' ''Done''"

fun join_words :: "string list \<Rightarrow> string" where
  "join_words [] = []"
| "join_words [w] = w"
| "join_words (w # ws) = w @ '' '' @ join_words ws"

definition block_reason :: "string list \<Rightarrow> string" where
  "block_reason argv = (if join_words (tl argv) = [] then ''blocked'' else join_words (tl argv))"

definition block_ticket :: "board \<Rightarrow> string \<Rightarrow> string \<Rightarrow> board_error + board \<times> string" where
  "block_ticket state item_id reason =
     res_bind (move_to_column (ensure_column ''col-blocked'' ''Blocked'' state) item_id ''col-blocked'') (\<lambda>(state', task_id).
       Inr (mark_blocked task_id reason state', task_id))"

definition cmd_block ::
  "(string \<Rightarrow> board_error + board) \<Rightarrow> (board \<Rightarrow> string) \<Rightarrow> string list \<Rightarrow> string \<Rightarrow> board_error + string \<times> string list" where
  "cmd_block loads dumps argv html =
     res_bind (argument 0 argv) (\<lambda>item_id.
     res_bind (load_state loads html) (\<lambda>state.
     res_bind (block_ticket state item_id (block_reason argv)) (\<lambda>(state', task_id).
       Inr (save_state dumps state' html,
            [saved_line state', item_id @ '' -> Blocked ('' @ task_id @ ''): '' @ block_reason argv]))))"

definition board_main ::
  "(string \<Rightarrow> board_error + card list) \<Rightarrow> (string \<Rightarrow> board_error + board) \<Rightarrow> (board \<Rightarrow> string) \<Rightarrow> string list \<Rightarrow>
   string \<Rightarrow> board_error + string \<times> string list" where
  "board_main read loads dumps args html =
     (case args of
        [] \<Rightarrow> Inl (SystemExit ''1'')
      | command # argv \<Rightarrow>
          if command = ''seed'' then cmd_seed read loads dumps argv html
          else if command = ''list'' then cmd_list loads html
          else if command = ''to-todo'' then cmd_to_todo loads dumps argv html
          else if command = ''start'' then cmd_start loads dumps argv html
          else if command = ''done'' then cmd_done loads dumps argv html
          else if command = ''block'' then cmd_block loads dumps argv html
          else Inl (SystemExit ''1''))"

subsection \<open>Dictionaries\<close>

lemma map_of_dict_set [simp]: "map_of (dict_set k v d) = (map_of d)(k \<mapsto> v)"
  by (induction k v d rule: dict_set.induct) (auto simp: fun_eq_iff)

lemma keys_dict_set: "map fst (dict_set k v d) = (if k \<in> fst ` set d then map fst d else map fst d @ [k])"
  by (induction k v d rule: dict_set.induct) auto

lemma index_of_SomeD: "index_of P xs = Some i \<Longrightarrow> i < length xs \<and> P (xs ! i)"
  by (induction xs arbitrary: i) (auto split: if_splits)

lemma index_of_None: "index_of P xs = None \<longleftrightarrow> (\<forall>x \<in> set xs. \<not> P x)"
  by (induction xs) auto

lemma mset_list_pop: "i < length xs \<Longrightarrow> add_mset (xs ! i) (mset (list_pop i xs)) = mset xs"
  using id_take_nth_drop [of i xs] by (simp add: list_pop_def) (metis mset.simps(2) mset_append union_mset_add_mset_right)

lemma mset_list_insert: "mset (list_insert i x xs) = add_mset x (mset xs)"
  by (simp add: list_insert_def) (metis append_take_drop_id mset_append)

lemma list_insert_simps [simp]:
  "set (list_insert i x xs) = insert x (set xs)" "distinct (list_insert i x xs) \<longleftrightarrow> x \<notin> set xs \<and> distinct xs"
proof -
  have "mset (list_insert i x xs) = mset (x # xs)" by (simp add: mset_list_insert)
  from mset_eq_setD [OF this] mset_eq_imp_distinct_iff [OF this]
  show "set (list_insert i x xs) = insert x (set xs)" "distinct (list_insert i x xs) \<longleftrightarrow> x \<notin> set xs \<and> distinct xs"
    by simp_all
qed

lemma set_list_pop: "set (list_pop i xs) \<subseteq> set xs"
  by (auto simp: list_pop_def dest: in_set_takeD in_set_dropD)

subsection \<open>A board and its tickets\<close>

definition board_ok :: "board \<Rightarrow> bool" where
  "board_ok state \<longleftrightarrow> distinct (bd_columns state) \<and> distinct (map fst (bd_column_data state)) \<and>
     set (bd_columns state) = dom (map_of (bd_column_data state)) \<and> map_of (bd_column_data state) ''backlog'' = None \<and>
     (\<forall>item \<in> set (bd_backlog state). ca_title item \<noteq> None) \<and>
     (\<forall>c col. map_of (bd_column_data state) c = Some col \<longrightarrow> set (co_task_ids col) \<subseteq> dom (map_of (bd_tasks state)))"

text \<open>Every ticket of the board by the identifier of its task, once for each place it stands in.\<close>

definition placed :: "(string \<times> board_column) list \<Rightarrow> string multiset" where
  "placed d = (\<Sum>p \<in># mset d. mset (co_task_ids (snd p)))"

definition tickets :: "board \<Rightarrow> string multiset" where
  "tickets state = image_mset (\<lambda>item. task_id_of (ca_id item)) (mset (bd_backlog state)) + placed (bd_column_data state)"

lemma placed_dict_set:
  "distinct (map fst d) \<Longrightarrow> map_of d k = Some w \<Longrightarrow> placed (dict_set k v d) + mset (co_task_ids w) = placed d + mset (co_task_ids v)"
  "map_of d k = None \<Longrightarrow> placed (dict_set k v d) = placed d + mset (co_task_ids v)"
  by (induction k v d rule: dict_set.induct) (auto simp: placed_def ac_simps split: if_splits)

lemma distinct_dict_set: "distinct (map fst d) \<Longrightarrow> distinct (map fst (dict_set k v d))"
  by (auto simp: keys_dict_set)

lemma board_ok_column:
  assumes "board_ok state" and "map_of (bd_column_data state) c \<noteq> None \<or> c \<noteq> ''backlog''"
    and "set (co_task_ids col) \<subseteq> dom (map_of (bd_tasks state))"
    and "cs = bd_columns state \<and> map_of (bd_column_data state) c \<noteq> None \<or>
      distinct cs \<and> set cs = insert c (set (bd_columns state))"
  shows "board_ok (state\<lparr>bd_column_data := dict_set c col (bd_column_data state), bd_columns := cs\<rparr>)"
proof -
  note ok = assms(1) [unfolded board_ok_def]
  have dom: "set cs = insert c (dom (map_of (bd_column_data state)))" "distinct cs"
    using ok assms(4) by (elim disjE; simp add: insert_absorb domIff)+
  moreover have "c \<noteq> ''backlog''" using ok assms(2) by metis
  ultimately show ?thesis
    using ok assms(3) by (simp add: board_ok_def distinct_dict_set del: map_of_eq_Some_iff)
qed

lemma board_okD:
  assumes "board_ok state" "map_of (bd_column_data state) c = Some col"
  shows "set (co_task_ids col) \<subseteq> dom (map_of (bd_tasks state))" "c \<noteq> ''backlog''" "distinct (map fst (bd_column_data state))"
  using assms unfolding board_ok_def by (metis option.distinct(1))+

lemma take_backlog:
  assumes "board_ok state" and "idx < length (bd_backlog state)" and "take_ticket state ''backlog'' idx = Inr (state', tid)"
  shows "board_ok state' \<and> add_mset tid (tickets state') = tickets state \<and> tid = task_id_of (ca_id (bd_backlog state ! idx)) \<and>
    map_of (bd_tasks state') tid \<noteq> None"
proof -
  let ?items = "list_pop idx (bd_backlog state)"
  obtain task where st: "state' = state\<lparr>bd_backlog := ?items, bd_tasks := dict_set tid task (bd_tasks state)\<rparr>"
    and tid: "tid = task_id_of (ca_id (bd_backlog state ! idx))"
    using assms(3) by (auto simp: take_ticket_def Let_def res_bind_Inr_iff)
  have "\<forall>item \<in> set ?items. ca_title item \<noteq> None"
    using assms(1) set_list_pop [of idx "bd_backlog state"] by (auto simp: board_ok_def)
  then have "board_ok state'"
    using assms(1) unfolding board_ok_def st by (simp del: map_of_eq_Some_iff) (metis subset_insertI2)
  moreover have "add_mset tid (tickets state') = tickets state"
    using arg_cong [OF mset_list_pop [OF assms(2)], of "image_mset (\<lambda>item. task_id_of (ca_id item))"]
    by (simp add: tickets_def st tid)
  ultimately show ?thesis using tid by (simp add: st)
qed

lemma take_column:
  assumes "board_ok state" and "map_of (bd_column_data state) loc = Some col" and "idx < length (co_task_ids col)"
    and "take_ticket state loc idx = Inr (state', tid)"
  shows "board_ok state' \<and> add_mset tid (tickets state') = tickets state \<and> tid = co_task_ids col ! idx \<and>
    map_of (bd_tasks state') tid \<noteq> None"
proof -
  let ?col = "col\<lparr>co_task_ids := list_pop idx (co_task_ids col)\<rparr>"
  note okD = board_okD [OF assms(1,2)]
  have st: "state' = state\<lparr>bd_column_data := dict_set loc ?col (bd_column_data state), bd_columns := bd_columns state\<rparr>"
    and tid: "tid = co_task_ids col ! idx"
    using assms(4,2) okD(2) by (auto simp: take_ticket_def)
  have "tid \<in> dom (map_of (bd_tasks state))" using nth_mem [OF assms(3)] tid okD(1) by blast
  moreover have "board_ok state'"
    unfolding st using assms(1,2) okD(1) set_list_pop [of idx "co_task_ids col"] by (intro board_ok_column) auto
  moreover have "placed (dict_set loc ?col (bd_column_data state)) + mset (co_task_ids col) =
      placed (bd_column_data state) + mset (list_pop idx (co_task_ids col))"
    using placed_dict_set(1) [OF okD(3) assms(2), of ?col] by simp
  then have "add_mset tid (placed (dict_set loc ?col (bd_column_data state))) = placed (bd_column_data state)"
    unfolding mset_list_pop [OF assms(3), symmetric] tid by simp
  then have "add_mset tid (tickets state') = tickets state"
    by (simp add: tickets_def st flip: union_mset_add_mset_right)
  ultimately show ?thesis using tid by (auto simp: st)
qed

lemma open_column_ok:
  assumes "board_ok state" and "target \<noteq> ''backlog''"
  shows "board_ok (open_column target state) \<and> tickets (open_column target state) = tickets state \<and>
    bd_tasks (open_column target state) = bd_tasks state \<and> map_of (bd_column_data (open_column target state)) target \<noteq> None"
proof (cases "map_of (bd_column_data state) target = None")
  case True
  then have "target \<notin> set (bd_columns state)" using assms(1) by (simp add: board_ok_def domIff)
  then have st: "open_column target state = state\<lparr>bd_column_data := dict_set target \<lparr>co_title = target, co_task_ids = []\<rparr> (bd_column_data state),
      bd_columns := list_insert 2 target (bd_columns state)\<rparr>" "target \<notin> set (bd_columns state)"
    using True by (simp_all add: open_column_def)
  have d: "distinct (bd_columns state)" using assms(1) by (simp add: board_ok_def)
  have "board_ok (open_column target state)"
    unfolding st(1) using assms st(2) d by (intro board_ok_column) simp_all
  then show ?thesis using True by (simp add: st(1) tickets_def placed_dict_set(2))
next
  case False
  then show ?thesis using assms by (auto simp: open_column_def)
qed

lemma put_ticket_ok:
  assumes "board_ok state" and "map_of (bd_tasks state) tid \<noteq> None" and "put_ticket target tid state = Inr state'"
  shows "board_ok state' \<and> tickets state' = add_mset tid (tickets state) \<and> bd_tasks state' = bd_tasks state \<and>
    (\<exists>col. map_of (bd_column_data state') target = Some col \<and> co_task_ids col \<noteq> [] \<and> last (co_task_ids col) = tid)"
proof -
  obtain col where c: "map_of (bd_column_data state) target = Some col"
    "state' = state\<lparr>bd_column_data := dict_set target (col\<lparr>co_task_ids := co_task_ids col @ [tid]\<rparr>) (bd_column_data state), bd_columns := bd_columns state\<rparr>"
    using assms(3) by (auto simp: put_ticket_def split: option.splits)
  note okD = board_okD [OF assms(1) c(1)]
  have "board_ok state'"
    unfolding c(2) using assms(1,2) c(1) okD(1) by (intro board_ok_column) auto
  moreover have "tickets state' = add_mset tid (tickets state)"
    using placed_dict_set(1) [OF okD(3) c(1), of "col\<lparr>co_task_ids := co_task_ids col @ [tid]\<rparr>"]
    by (simp add: tickets_def c(2))
  ultimately show ?thesis using c by simp
qed

lemma found_in_columns:
  "find_in_columns data i cs = Inr (Some (c, n)) \<Longrightarrow>
   c \<in> set cs \<and> (\<exists>col. map_of data c = Some col \<and> n < length (co_task_ids col) \<and> co_task_ids col ! n = i)"
  by (induction data i cs rule: find_in_columns.induct) (auto split: option.splits dest: index_of_SomeD)

lemma not_in_columns:
  "find_in_columns data i cs = Inr None \<Longrightarrow> c \<in> set cs \<Longrightarrow> map_of data c = Some col \<Longrightarrow> i \<notin> set (co_task_ids col)"
  by (induction data i cs rule: find_in_columns.induct) (auto split: option.splits simp: index_of_None)

text \<open>What a successful move does to a board.\<close>

definition moved :: "board \<Rightarrow> string \<Rightarrow> string \<Rightarrow> string \<Rightarrow> board \<Rightarrow> bool" where
  "moved state item_id target task_id state' \<longleftrightarrow> board_ok state' \<and> tickets state' = tickets state \<and>
     task_id \<in> {item_id, task_id_of item_id} \<and>
     (\<exists>col. map_of (bd_column_data state') target = Some col \<and> co_task_ids col \<noteq> [] \<and> last (co_task_ids col) = task_id)"

lemma move_to_column_ok:
  assumes ok: "board_ok state" and "target \<noteq> ''backlog''" and run: "move_to_column state item_id target = Inr (state', tid)"
  shows "moved state item_id target tid state'"
proof -
  obtain l idx st1 where loc: "find_task_location state item_id = Inr (Some (l, idx))"
    and taken: "take_ticket state l idx = Inr (st1, tid)" and put: "put_ticket target tid (open_column target st1) = Inr state'"
    using run by (auto simp: move_to_column_def res_bind_Inr_iff split: option.splits)
  have st1: "board_ok st1 \<and> add_mset tid (tickets st1) = tickets state \<and> tid \<in> {item_id, task_id_of item_id} \<and>
      map_of (bd_tasks st1) tid \<noteq> None"
  proof (cases "index_of (\<lambda>item. ca_id item = item_id) (bd_backlog state)")
    case (Some i)
    then have "l = ''backlog''" "idx = i" "i < length (bd_backlog state)" "ca_id (bd_backlog state ! i) = item_id"
      using loc index_of_SomeD [OF Some] by (auto simp: find_task_location_def)
    with take_backlog [OF ok, of idx st1 tid] taken show ?thesis by auto
  next
    case None
    then obtain i where i: "find_in_columns (bd_column_data state) i (bd_columns state) = Inr (Some (l, idx))"
      "i \<in> {item_id, task_id_of item_id}"
      using loc by (auto simp: find_task_location_def res_bind_Inr_iff split: option.splits)
    from found_in_columns [OF i(1)] obtain col where
      "map_of (bd_column_data state) l = Some col" "idx < length (co_task_ids col)" "co_task_ids col ! idx = i" by blast
    with take_column [OF ok _ _ taken] i(2) show ?thesis by blast
  qed
  from open_column_ok [OF _ assms(2)] st1 have opened: "board_ok (open_column target st1)"
    "tickets (open_column target st1) = tickets st1" "map_of (bd_tasks (open_column target st1)) tid \<noteq> None" by simp_all
  from put_ticket_ok [OF opened(1,3) put] opened(2) st1 show ?thesis by (simp add: moved_def)
qed

subsection \<open>The page keeps everything but the board\<close>

lemma split_first_Some:
  "split_first w s = Some (a, r) \<Longrightarrow> s = a @ w @ r \<and> split_first w (a @ w @ r') = Some (a, r')"
proof (induction w s arbitrary: a rule: split_first.induct)
  case (1 w)
  then show ?case by (cases r') (auto split: if_splits)
next
  case (2 w c s)
  show ?case
  proof (cases "prefix w (c # s)")
    case True
    then obtain t where "c # s = w @ t" by (auto simp: prefix_def)
    then show ?thesis using 2(2) True by (cases w; cases r') auto
  next
    case False
    then obtain a' where a: "a = c # a'" "split_first w s = Some (a', r)" using 2(2) by auto
    from 2(1) [OF False a(2)] have s: "s = a' @ w @ r" "split_first w (a' @ w @ r') = Some (a', r')" by auto
    have cut: "take (length w) (c # a' @ w @ x) = take (length w) (c # a' @ w)" for x
      using take_append [of "length w" "c # a' @ w" x] by simp
    have "prefix w t \<longleftrightarrow> take (length w) t = w" for t
      by (auto simp: prefix_def) (metis append_take_drop_id)
    then have "\<not> prefix w (c # a' @ w @ r')"
      using False unfolding s(1) by (metis cut)
    then show ?thesis using s a by simp
  qed
qed

lemma split_first_close:
  "CHR 10 \<notin> set d \<Longrightarrow> split_first SEED_CLOSE (d @ SEED_CLOSE @ r) = Some (d, r)"
proof (induction d)
  case Nil
  then show ?case by (cases r) (simp_all add: SEED_CLOSE_def)
next
  case (Cons c d)
  then show ?case by (auto simp: SEED_CLOSE_def prefix_def)
qed

lemma ensure_column_ok:
  assumes "board_ok state" and "c \<noteq> ''backlog''"
  shows "board_ok (ensure_column c title state) \<and> tickets (ensure_column c title state) = tickets state"
proof (cases "map_of (bd_column_data state) c = None")
  case True
  then have new: "c \<notin> set (bd_columns state)" using assms(1) by (simp add: board_ok_def domIff)
  have st: "ensure_column c title state = state\<lparr>bd_column_data := dict_set c \<lparr>co_title = title, co_task_ids = []\<rparr> (bd_column_data state),
      bd_columns := bd_columns state @ [c]\<rparr>"
    using True new by (simp add: ensure_column_def)
  have "distinct (bd_columns state)" using assms(1) by (simp add: board_ok_def)
  then have "board_ok (ensure_column c title state)"
    unfolding st using assms new by (intro board_ok_column) simp_all
  then show ?thesis using True by (simp add: st tickets_def placed_dict_set(2))
next
  case False
  then have "c \<in> set (bd_columns state)" using assms(1) by (simp add: board_ok_def domIff)
  then show ?thesis using assms False by (auto simp: ensure_column_def)
qed

lemma mark_blocked_ok:
  assumes "board_ok state"
  shows "board_ok (mark_blocked t reason state) \<and> tickets (mark_blocked t reason state) = tickets state \<and>
    bd_column_data (mark_blocked t reason state) = bd_column_data state"
proof (cases "get_task_record state t")
  case (Some r)
  show ?thesis
  proof (cases r)
    case (Inl i)
    then have i: "i < length (bd_backlog state)"
      using Some by (auto simp: get_task_record_def split: option.splits if_splits dest: index_of_SomeD)
    let ?items = "(bd_backlog state)[i := note_blocked reason (bd_backlog state ! i)]"
    have same: "map ca_title ?items = map ca_title (bd_backlog state)" "map ca_id ?items = map ca_id (bd_backlog state)"
      using i by (simp_all add: map_update note_blocked_def list_update_same_conv)
    have "ca_title ` set ?items = ca_title ` set (bd_backlog state)" using arg_cong [OF same(1), of set] by simp
    then have "\<forall>item \<in> set ?items. ca_title item \<noteq> None"
      using assms unfolding board_ok_def by (metis imageE image_eqI)
    moreover have "map (\<lambda>item. task_id_of (ca_id item)) ?items = map (\<lambda>item. task_id_of (ca_id item)) (bd_backlog state)"
      using arg_cong [OF same(2), of "map task_id_of"] by (simp add: comp_def)
    then have "image_mset (\<lambda>item. task_id_of (ca_id item)) (mset ?items) = image_mset (\<lambda>item. task_id_of (ca_id item)) (mset (bd_backlog state))"
      by (metis mset_map)
    ultimately show ?thesis
      using assms Some Inl unfolding mark_blocked_def board_ok_def tickets_def
      by (simp del: map_of_eq_Some_iff mset_map list_update.simps mset_update)
  next
    case (Inr k)
    then have "map_of (bd_tasks state) k \<noteq> None"
      using Some by (auto simp: get_task_record_def split: option.splits if_splits)
    then have "dom (map_of (dict_set k x (bd_tasks state))) = dom (map_of (bd_tasks state))" for x by auto
    then show ?thesis
      using assms Some Inr by (simp add: mark_blocked_def board_ok_def tickets_def del: map_of_eq_Some_iff map_of_dict_set)
  qed
qed (use assms in \<open>simp add: mark_blocked_def\<close>)

lemma block_ticket_ok:
  assumes "board_ok state" and "block_ticket state item_id reason = Inr (state', tid)"
  shows "moved state item_id ''col-blocked'' tid state'"
proof -
  let ?open = "ensure_column ''col-blocked'' ''Blocked'' state"
  obtain st1 where run: "move_to_column ?open item_id ''col-blocked'' = Inr (st1, tid)" "state' = mark_blocked tid reason st1"
    using assms(2) by (auto simp: block_ticket_def res_bind_Inr_iff)
  have o': "board_ok ?open" "tickets ?open = tickets state" using ensure_column_ok [OF assms(1)] by simp_all
  have "moved ?open item_id ''col-blocked'' tid st1"
    using move_to_column_ok [OF o'(1) _ run(1)] by simp
  then show ?thesis
    using mark_blocked_ok [of st1 tid reason] o'(2) run(2) by (auto simp: moved_def)
qed

lemma save_then_load:
  assumes "seed_search html = Some (before, seed, after)" and "CHR 10 \<notin> set (dumps (bump_rev state))"
  shows "seed_search (save_state dumps state html) = Some (before, dumps (bump_rev state), after)"
proof -
  obtain rest where o': "split_first SEED_OPEN html = Some (before, rest)" using assms(1) by (auto simp: seed_search_def split: option.splits)
  then show ?thesis
    using split_first_Some [OF o'] split_first_close [OF assms(2)] assms(1) by (simp add: seed_search_def save_state_def)
qed

subsection \<open>Properties\<close>

text \<open>
  C40. No command of the board but \<open>seed\<close> loses or duplicates a ticket: on a well-formed board, a move
  that succeeds puts the ticket at the end of the column of the command, leaves every other ticket
  where it is counted, and keeps the board well-formed; the page outside the board's block stays byte
  for byte the same, and reading it back gives the new board with the next revision number, provided
  that \<open>json.loads\<close> inverts \<open>json.dumps\<close> on it and its text, as documented, is a single line.
\<close>

theorem board_commands_keep_tickets:
  assumes "load_state loads html = Inr state" and "board_ok state"
    and "(command, target) \<in> {(''to-todo'', ''col-todo''), (''start'', ''col-doing''), (''done'', ''col-done''), (''block'', ''col-blocked'')}"
    and "board_main read loads dumps (command # item_id # argv) html = Inr (html', out)"
  shows "\<exists>state' task_id before seed after.
    board_ok state' \<and> tickets state' = tickets state \<and> task_id \<in> {item_id, task_id_of item_id} \<and>
    (\<exists>col. map_of (bd_column_data state') target = Some col \<and> co_task_ids col \<noteq> [] \<and> last (co_task_ids col) = task_id) \<and>
    html = before @ SEED_OPEN @ seed @ SEED_CLOSE @ after \<and>
    html' = before @ SEED_OPEN @ dumps (bump_rev state') @ SEED_CLOSE @ after \<and>
    (CHR 10 \<notin> set (dumps (bump_rev state')) \<and> loads (dumps (bump_rev state')) = Inr (bump_rev state') \<longrightarrow>
      load_state loads html' = Inr (bump_rev state'))"
proof -
  have arg: "argument 0 (item_id # argv) = Inr item_id" by (simp add: argument_def)
  obtain state' task_id where m: "moved state item_id target task_id state'" and html': "html' = save_state dumps state' html"
  proof (cases "command = ''block''")
    case True
    then obtain st t reason where "block_ticket state item_id reason = Inr (st, t)" "html' = save_state dumps st html"
      "target = ''col-blocked''"
      using assms by (auto simp: board_main_def cmd_block_def arg res_bind_Inr_iff)
    then show ?thesis using that block_ticket_ok [OF assms(2)] by blast
  next
    case False
    then obtain label where "cmd_move target label loads dumps (item_id # argv) html = Inr (html', out)" "target \<noteq> ''backlog''"
      using assms(3,4) by (auto simp: board_main_def cmd_to_todo_def cmd_start_def cmd_done_def)
    then obtain st t where "move_to_column state item_id target = Inr (st, t)" "html' = save_state dumps st html"
      "target \<noteq> ''backlog''"
      using assms(1) by (auto simp: cmd_move_def arg res_bind_Inr_iff)
    then show ?thesis using that move_to_column_ok [OF assms(2)] by blast
  qed
  obtain before seed after where s: "seed_search html = Some (before, seed, after)"
    using assms(1) by (auto simp: load_state_def split: option.splits)
  then have "html = before @ SEED_OPEN @ seed @ SEED_CLOSE @ after"
    using split_first_Some by (fastforce simp: seed_search_def split: option.splits)
  moreover have "html' = before @ SEED_OPEN @ dumps (bump_rev state') @ SEED_CLOSE @ after"
    by (simp add: html' save_state_def s)
  moreover have "load_state loads html' = Inr (bump_rev state')"
    if "CHR 10 \<notin> set (dumps (bump_rev state'))" "loads (dumps (bump_rev state')) = Inr (bump_rev state')"
    using save_then_load [where dumps = dumps and state = state', OF s that(1)] that(2) by (simp add: load_state_def html')
  ultimately show ?thesis using m unfolding moved_def by blast
qed

lemma split_first_here: "split_first w (w @ r) = Some ([], r)"
proof (cases "w @ r")
  case (Cons c s)
  then have "prefix w (c # s)" "drop (length w) (c # s) = r" by (metis prefixI, metis append_eq_conv_conj)
  with Cons show ?thesis by simp
qed simp

definition demo_board :: board where
  "demo_board = \<lparr>bd_rev = Some 4,
     bd_backlog = [\<lparr>ca_id = ''backlog-7'', ca_title = Some ''Ship it'', ca_description = None, ca_priority = None, ca_created_at = None\<rparr>],
     bd_columns = [''col-todo'', ''col-doing'', ''col-done''],
     bd_column_data = [(''col-todo'', \<lparr>co_title = ''To Do'', co_task_ids = [''task-3'']\<rparr>),
        (''col-doing'', \<lparr>co_title = ''In Progress'', co_task_ids = []\<rparr>), (''col-done'', \<lparr>co_title = ''Done'', co_task_ids = []\<rparr>)],
     bd_tasks = [(''task-3'', \<lparr>ca_id = ''task-3'', ca_title = Some ''Plan it'', ca_description = None, ca_priority = None, ca_created_at = None\<rparr>)]\<rparr>"

definition demo_page :: string where
  "demo_page = SEED_OPEN @ ''old'' @ SEED_CLOSE"

lemma board_commands_keep_tickets_witness:
  "\<exists>html' out state'. board_main (\<lambda>_. Inr []) (\<lambda>_. Inr demo_board) (\<lambda>_. ''new'') [''start'', ''backlog-7''] demo_page = Inr (html', out) \<and>
     tickets state' = {#''task-3'', ''task-7''#} \<and> html' = SEED_OPEN @ ''new'' @ SEED_CLOSE"
proof -
  have "seed_search demo_page = Some ([], ''old'', [])"
    using split_first_close [of "''old''" "[]"] by (simp add: seed_search_def demo_page_def split_first_here)
  then have load: "load_state (\<lambda>_. Inr demo_board) demo_page = Inr demo_board" and
    page: "save_state (\<lambda>_. ''new'') st demo_page = SEED_OPEN @ ''new'' @ SEED_CLOSE" for st
    by (simp_all add: load_state_def save_state_def)
  have ok: "board_ok demo_board"
    by (auto simp: board_ok_def demo_board_def split: if_splits)
  obtain st t where "move_to_column demo_board ''backlog-7'' ''col-doing'' = Inr (st, t)"
    by (simp add: move_to_column_def find_task_location_def demo_board_def take_ticket_def task_of_item_def open_column_def
        put_ticket_def Let_def)
  then obtain html' out where run: "board_main (\<lambda>_. Inr []) (\<lambda>_. Inr demo_board) (\<lambda>_. ''new'') [''start'', ''backlog-7''] demo_page = Inr (html', out)"
    and html': "html' = SEED_OPEN @ ''new'' @ SEED_CLOSE"
    by (simp add: board_main_def cmd_start_def cmd_move_def load argument_def page)
  have "tickets demo_board = {#''task-3'', ''task-7''#}"
    by (simp add: tickets_def placed_def demo_board_def task_id_of_def removeprefix_def)
  moreover obtain state' where "tickets state' = tickets demo_board"
    using board_commands_keep_tickets [OF load ok _ run] by blast
  ultimately show ?thesis using run html' by auto
qed

end
