(* ===== verification/Egress.thy ===== *)
theory Egress
  imports Url Wire "HOL-Library.List_Lexorder" "HOL-Library.Char_ord"
begin

section \<open>The egress firewall check\<close>

text \<open>
  \<open>scripts/verify_egress_firewall.py\<close>: which addresses are probed from the worker container, what the
  probe reports of each, and the exit status that is drawn from it. What Docker, the firewall tools
  and the network answer are arguments: the output of a command, and the outcome of a connection.
  The run returns its exit status, or the exception that ends it, and the lines it prints.
\<close>

definition CONNECT_TIMEOUT_SECONDS :: nat where "CONNECT_TIMEOUT_SECONDS = 3"
definition COMPOSE_PROJECT :: string where "COMPOSE_PROJECT = ''relay''"
definition MUST_BE_BLOCKED :: string where "MUST_BE_BLOCKED = ''must-be-blocked''"
definition INFORMATIONAL :: string where "INFORMATIONAL = ''informational''"
definition MUST_CONNECT :: string where "MUST_CONNECT = ''must-connect''"

record probe_target =
  pt_name :: string
  pt_host :: string
  pt_port :: nat
  pt_expectation :: string
  pt_why :: string

record probe_result =
  pr_target :: probe_target
  pr_outcome :: string
  pr_detail :: string

definition connected :: "probe_result \<Rightarrow> bool" where
  "connected p \<longleftrightarrow> pr_outcome p = ''CONNECTED''"

definition probe_ok :: "probe_result \<Rightarrow> bool" where
  "probe_ok p \<longleftrightarrow>
     (if pt_expectation (pr_target p) = MUST_BE_BLOCKED then \<not> connected p
      else if pt_expectation (pr_target p) = MUST_CONNECT then connected p
      else True)"

definition container_name :: "string \<Rightarrow> string" where
  "container_name service = COMPOSE_PROJECT @ ''-'' @ service @ ''-1''"

subsection \<open>The targets\<close>

text \<open>\<open>gateways[network] = config["Gateway"]\<close>: in place, or at the end.\<close>

fun set_gateway :: "string \<Rightarrow> string \<Rightarrow> (string \<times> string) list \<Rightarrow> (string \<times> string) list" where
  "set_gateway k v [] = [(k, v)]"
| "set_gateway k v ((j, w) # d) = (if j = k then (k, v) # d else (j, w) # set_gateway k v d)"

text \<open>A configuration is an object; its gateway counts when it is a text that is not empty.\<close>

fun gateways_of :: "string \<Rightarrow> json list \<Rightarrow> (string \<times> string) list \<Rightarrow> error + (string \<times> string) list" where
  "gateways_of network [] d = Inr d"
| "gateways_of network (JObj config # configs) d =
     (case map_of config ''Gateway'' of
        Some (JStr g) \<Rightarrow> gateways_of network configs (if g = [] then d else set_gateway network g d)
      | _ \<Rightarrow> gateways_of network configs d)"
| "gateways_of network (x # configs) d = Inl (TypeError ''config.get'')"

text \<open>
  \<open>inspect network\<close> is the output of \<open>docker network inspect\<close>, and \<open>loads\<close> the JSON of a text, \<open>None\<close> for a
  \<open>JSONDecodeError\<close>, after which the network is passed over.
\<close>

fun bridge_gateways ::
  "(string \<Rightarrow> string) \<Rightarrow> (string \<Rightarrow> json option) \<Rightarrow> string list \<Rightarrow> (string \<times> string) list \<Rightarrow> error + (string \<times> string) list" where
  "bridge_gateways inspect loads [] d = Inr d"
| "bridge_gateways inspect loads (network # networks) d =
     (let raw = inspect network in
      case loads (if raw = [] then ''[]'' else raw) of
        None \<Rightarrow> bridge_gateways inspect loads networks d
      | Some (JArr configs) \<Rightarrow>
          res_bind (gateways_of network configs d) (bridge_gateways inspect loads networks)
      | Some (JObj []) \<Rightarrow> bridge_gateways inspect loads networks d
      | Some (JStr []) \<Rightarrow> bridge_gateways inspect loads networks d
      | Some _ \<Rightarrow> Inl (TypeError ''not a list of configurations''))"

definition default_network :: string where
  "default_network = COMPOSE_PROJECT @ ''_default''"

definition bridge_target :: "string \<Rightarrow> string \<Rightarrow> probe_target" where
  "bridge_target network address =
     \<lparr>pt_name = ''host over '' @ network @ [CHR 39] @ ''s bridge (sshd)'', pt_host = address, pt_port = 22,
      pt_expectation = MUST_BE_BLOCKED,
      pt_why = ''another service'' @ [CHR 39] @ ''s bridge gateway -- same host, different private address''\<rparr>"

definition fixed_targets :: "probe_target list" where
  "fixed_targets =
     [\<lparr>pt_name = ''cloud metadata service'', pt_host = ''169.254.169.254'', pt_port = 80, pt_expectation = INFORMATIONAL,
       pt_why = ''nothing listens here on this VPS, so a timeout proves nothing on its own -- '' @
         ''recorded because it is the address the guard exists for''\<rparr>,
      \<lparr>pt_name = ''RFC1918 10/8'', pt_host = ''10.0.0.1'', pt_port = 80, pt_expectation = INFORMATIONAL,
       pt_why = ''no listener; ambiguous by nature''\<rparr>,
      \<lparr>pt_name = ''RFC1918 192.168/16'', pt_host = ''192.168.0.1'', pt_port = 80, pt_expectation = INFORMATIONAL,
       pt_why = ''no listener; ambiguous by nature''\<rparr>,
      \<lparr>pt_name = ''public internet (control)'', pt_host = ''1.1.1.1'', pt_port = 443, pt_expectation = MUST_CONNECT,
       pt_why = ''proves the probe works at all and that outbound delivery still functions''\<rparr>,
      \<lparr>pt_name = ''own database over the container network (control)'', pt_host = ''postgres'', pt_port = 5432,
       pt_expectation = MUST_CONNECT,
       pt_why = ''intra-network traffic the stack needs -- any rule set that breaks this is wrong''\<rparr>]"

definition build_targets :: "(string \<times> string) list \<Rightarrow> probe_target list" where
  "build_targets gateways =
     (case map_of gateways default_network of
        None \<Rightarrow> []
      | Some own_gateway \<Rightarrow>
          [\<lparr>pt_name = ''host over the container bridge (sshd)'', pt_host = own_gateway, pt_port = 22,
            pt_expectation = MUST_BE_BLOCKED,
            pt_why = ''the host'' @ [CHR 39] @ ''s own private interface -- the one private address a container '' @
              ''on this bridge can definitely reach, so the decisive probe''\<rparr>]) @
     map (\<lambda>(network, address). bridge_target network address)
       (take 2 (sort_key fst (filter (\<lambda>(network, address). network \<noteq> default_network) gateways))) @
     fixed_targets"

subsection \<open>The probe\<close>

text \<open>
  \<open>PROBE_SOURCE\<close>, which runs inside the container: \<open>connect\<close> is the outcome of a connection to a host and a
  port, the name and the text of the exception when there is one.
\<close>

type_synonym connector = "string \<Rightarrow> nat \<Rightarrow> (string \<times> string) option"

definition probe_source :: "connector \<Rightarrow> (string \<times> nat) list \<Rightarrow> (string \<times> nat \<times> string \<times> string) list" where
  "probe_source connect targets =
     map (\<lambda>(host, port). case connect host port of
            None \<Rightarrow> (host, port, ''CONNECTED'', [])
          | Some (name, message) \<Rightarrow> (host, port, name, message)) targets"

text \<open>
  \<open>probe\<close>: \<open>exec\<close> is what the container prints, read back from its JSON, and \<open>None\<close> when it prints
  nothing; then the run ends with status 2. \<open>zip(..., strict=True)\<close> wants one outcome per target.
\<close>

definition probe_targets ::
  "((string \<times> nat) list \<Rightarrow> (string \<times> nat \<times> string \<times> string) list option) \<Rightarrow> probe_target list \<Rightarrow>
   error + probe_result list option" where
  "probe_targets exec targets =
     (case exec (map (\<lambda>t. (pt_host t, pt_port t)) targets) of
        None \<Rightarrow> Inr None
      | Some outcomes \<Rightarrow>
          if length outcomes \<noteq> length targets then Inl (ValueError ''zip() arguments have different lengths'')
          else Inr (Some (map (\<lambda>(t, (_, _, outcome, message)).
            \<lparr>pr_target = t, pr_outcome = outcome, pr_detail = message\<rparr>) (zip targets outcomes))))"

subsection \<open>The report\<close>

text \<open>\<open>which\<close> says whether a tool is installed, and \<open>tool\<close> is the output of a command line.\<close>

definition rule_sets :: "(string \<Rightarrow> bool) \<Rightarrow> (string \<Rightarrow> string) \<Rightarrow> (string \<times> string) list" where
  "rule_sets which tool =
     (let entry = (\<lambda>c. (c, if tool c = [] then ''(empty)'' else tool c)) in
      (if which ''nft'' then [entry ''nft list ruleset''] else []) @
      (if which ''iptables'' then [entry ''iptables -S DOCKER-USER'', entry ''iptables -S INPUT''] else []) @
      (if which ''ufw'' then [entry ''ufw status''] else []))"

definition ljust :: "nat \<Rightarrow> string \<Rightarrow> string" where
  "ljust n s = s @ replicate (n - length s) CHR '' ''"

definition rjust :: "nat \<Rightarrow> string \<Rightarrow> string" where
  "rjust n s = replicate (n - length s) CHR '' '' @ s"

definition report_lines :: "probe_result list \<Rightarrow> bool \<Rightarrow> string list" where
  "report_lines probes markdown =
     (if markdown then
        [''| Target | Address | Expectation | Result |'', ''| --- | --- | --- | --- |''] @
        map (\<lambda>p. let t = pr_target p in
          ''| '' @ pt_name t @ '' | '' @ [CHR 96] @ pt_host t @ '':'' @ decimal (int (pt_port t)) @ [CHR 96] @ '' | '' @
          pt_expectation t @ '' | '' @ [CHR 96] @ pr_outcome p @ [CHR 96] @ '' |'') probes
      else
        let width = foldl max 0 (map (\<lambda>p. length (pt_name (pr_target p))) probes) in
        map (\<lambda>p. let t = pr_target p in
          ''  ['' @ rjust 7 (if probe_ok p then ''ok'' else ''PROBLEM'') @ ''] '' @ ljust width (pt_name t) @ ''  '' @
          pt_host t @ '':'' @ ljust 5 (decimal (int (pt_port t))) @ '' -> '' @ pr_outcome p @ '' '' @ pr_detail p) probes)"

definition egress_reachable :: "probe_result list \<Rightarrow> probe_result list" where
  "egress_reachable probes = filter (\<lambda>p. pt_expectation (pr_target p) = MUST_BE_BLOCKED \<and> connected p) probes"

definition controls_failed :: "probe_result list \<Rightarrow> probe_result list" where
  "controls_failed probes = filter (\<lambda>p. pt_expectation (pr_target p) = MUST_CONNECT \<and> \<not> probe_ok p) probes"

fun join_comma :: "string list \<Rightarrow> string" where
  "join_comma [] = []"
| "join_comma [w] = w"
| "join_comma (w # ws) = w @ '', '' @ join_comma ws"

definition egress_verdict :: "probe_result list \<Rightarrow> nat \<times> string" where
  "egress_verdict probes =
     (if controls_failed probes \<noteq> [] then
        (2, ''INCONCLUSIVE: a control target failed, so nothing here can be trusted: ['' @
            join_comma (map (\<lambda>p. py_repr (pt_name (pr_target p))) (controls_failed probes)) @ '']'')
      else if egress_reachable probes \<noteq> [] then
        (1, ''NOT BLOCKED at the network layer: '' @
            join_comma (map (\<lambda>p. pt_host (pr_target p) @ '':'' @ decimal (int (pt_port (pr_target p)))) (egress_reachable probes)) @
            '' answered a connection from inside the container. The application'' @ [CHR 39] @ ''s SSRF guard is currently '' @
            ''the only thing preventing Relay from reaching these addresses -- see '' @
            ''docs/runbook.md '' @ [CHR 39] @ ''Defense in depth: VPS egress firewall'' @ [CHR 39] @ ''.'')
      else (0, ''BLOCKED at the network layer: every decisive private target refused the connection.''))"

text \<open>The host: its bridge networks, and what its tools and its container answer.\<close>

record egress_host =
  eh_networks :: "string list"
  eh_inspect :: "string \<Rightarrow> string"
  eh_loads :: "string \<Rightarrow> json option"
  eh_exec :: "string \<Rightarrow> (string \<times> nat) list \<Rightarrow> (string \<times> nat \<times> string \<times> string) list option"
  eh_which :: "string \<Rightarrow> bool"
  eh_tool :: "string \<Rightarrow> string"

definition egress_main :: "egress_host \<Rightarrow> bool \<Rightarrow> string \<Rightarrow> error + nat \<times> string list" where
  "egress_main host markdown service =
     (let container = container_name service in
      res_bind (bridge_gateways (eh_inspect host) (eh_loads host) (eh_networks host) []) (\<lambda>gateways.
      res_bind (probe_targets (eh_exec host container) (build_targets gateways)) (\<lambda>found.
        case found of
          None \<Rightarrow> Inr (2, [''could not run the probe inside '' @ container])
        | Some probes \<Rightarrow>
            let (status, message) = egress_verdict probes in
            Inr (status,
              (if markdown then [] else [''egress probe from '' @ container @ '':'']) @
              report_lines probes markdown @ [[]] @
              concat (map (\<lambda>(name, rules). [''--- '' @ name @ '' ---'', rules, []]) (rule_sets (eh_which host) (eh_tool host))) @
              [message]))))"

subsection \<open>Properties\<close>

text \<open>The first places of a sorted list are the elements with few smaller ones.\<close>

lemma take_sorted_iff:
  "sorted_wrt (<) (map f ys) \<Longrightarrow>
     x \<in> set (take k ys) \<longleftrightarrow> x \<in> set ys \<and> length (filter (\<lambda>y. f y < (f x :: 'a :: linorder)) ys) < k"
proof (induction ys arbitrary: k)
  case Nil
  then show ?case by simp
next
  case (Cons y ys)
  have none: "length (filter (\<lambda>z. f z < f y) ys) = 0"
    using Cons.prems by (auto simp: filter_empty_conv dest: less_not_sym)
  show ?case
  proof (cases k)
    case 0
    then show ?thesis by simp
  next
    case (Suc j)
    have "x = y \<or> x \<noteq> y \<and> (x \<in> set ys \<longrightarrow> f y < f x)"
      using Cons.prems by auto
    then show ?thesis
      using Suc Cons.IH [of j] Cons.prems none by auto
  qed
qed

lemma take_sort_key_iff:
  assumes "distinct (map f xs)"
  shows "x \<in> set (take k (sort_key f xs)) \<longleftrightarrow>
    x \<in> set xs \<and> length (filter (\<lambda>y. f y < (f x :: 'a :: linorder)) xs) < k"
proof -
  have "distinct (map f (sort_key f xs))"
    using assms by (metis distinct_map distinct_sort set_sort)
  then have "sorted_wrt (<) (map f (sort_key f xs))"
    by (simp add: strict_sorted_iff)
  moreover have "length (filter P (sort_key f xs)) = length (filter P xs)" for P
    by (simp add: filter_sort)
  ultimately show ?thesis
    by (simp add: take_sorted_iff)
qed

lemma set_gateway_keys: "set (map fst (set_gateway k v d)) = insert k (set (map fst d))"
  by (induction k v d rule: set_gateway.induct) (simp_all add: insert_commute)

lemma set_gateway_distinct: "distinct (map fst d) \<Longrightarrow> distinct (map fst (set_gateway k v d))"
proof (induction k v d rule: set_gateway.induct)
  case (2 k v j w d)
  then show ?case
    using set_gateway_keys [of k v d] by auto
qed simp

lemma gateways_of_distinct:
  "gateways_of n cs d = Inr d' \<Longrightarrow> distinct (map fst d) \<Longrightarrow> distinct (map fst d')"
  by (induction n cs d rule: gateways_of.induct)
    (auto simp: set_gateway_distinct split: option.splits json.splits if_splits)

lemma bridge_gateways_distinct:
  "bridge_gateways inspect loads ns d = Inr d' \<Longrightarrow> distinct (map fst d) \<Longrightarrow> distinct (map fst d')"
proof (induction ns arbitrary: d)
  case Nil
  then show ?case by simp
next
  case (Cons n ns)
  then show ?case
    by (auto simp: Let_def res_bind_def dest: gateways_of_distinct
        split: option.splits json.splits sum.splits list.splits)
qed

definition probe_of :: "connector \<Rightarrow> probe_target \<Rightarrow> probe_result" where
  "probe_of connect t =
     (case connect (pt_host t) (pt_port t) of
        None \<Rightarrow> \<lparr>pr_target = t, pr_outcome = ''CONNECTED'', pr_detail = []\<rparr>
      | Some (name, message) \<Rightarrow> \<lparr>pr_target = t, pr_outcome = name, pr_detail = message\<rparr>)"

lemma zip_map_self: "map f (zip xs (map g xs)) = map (\<lambda>x. f (x, g x)) xs"
  by (induction xs) simp_all

lemma probes_of:
  "probe_targets (\<lambda>ts. Some (probe_source connect ts)) targets = Inr (Some (map (probe_of connect) targets))"
  by (auto simp: probe_targets_def probe_source_def probe_of_def zip_map_self comp_def
      split: option.split intro!: map_cong)

lemma probe_of_target [simp]: "pr_target (probe_of connect t) = t"
  by (simp add: probe_of_def split: option.split)

lemma connected_probe_of:
  assumes "\<And>h p m. connect h p \<noteq> Some (''CONNECTED'', m)"
  shows "connected (probe_of connect t) \<longleftrightarrow> connect (pt_host t) (pt_port t) = None"
  using assms by (auto simp: connected_def probe_of_def split: option.split)

lemmas expectations = MUST_BE_BLOCKED_def INFORMATIONAL_def MUST_CONNECT_def

lemma controls_failed_iff:
  assumes "\<And>h p m. connect h p \<noteq> Some (''CONNECTED'', m)"
  shows "controls_failed (map (probe_of connect) (build_targets gs)) \<noteq> [] \<longleftrightarrow>
    connect ''1.1.1.1'' 443 \<noteq> None \<or> connect ''postgres'' 5432 \<noteq> None"
  by (auto simp: controls_failed_def filter_empty_conv build_targets_def fixed_targets_def bridge_target_def
      probe_ok_def connected_probe_of [OF assms] expectations split: option.splits)

lemma bridge_target_simps [simp]:
  "pt_expectation (bridge_target n a) = MUST_BE_BLOCKED"
  "pt_host (bridge_target n a) = a" "pt_port (bridge_target n a) = 22"
  by (simp_all add: bridge_target_def)

lemma fixed_targets_not_decisive: "t \<in> set fixed_targets \<Longrightarrow> pt_expectation t \<noteq> MUST_BE_BLOCKED"
  by (auto simp: fixed_targets_def expectations)

lemma decisive_iff:
  "(\<exists>t \<in> set (build_targets gs). pt_expectation t = MUST_BE_BLOCKED \<and> P (pt_host t) (pt_port t)) \<longleftrightarrow>
     (\<exists>g. map_of gs default_network = Some g \<and> P g 22) \<or>
     (\<exists>(network, address) \<in> set (take 2 (sort_key fst
         (filter (\<lambda>(network, address). network \<noteq> default_network) gs))). P address 22)"
  unfolding build_targets_def set_append bex_Un
  by (cases "map_of gs default_network") (auto simp: case_prod_beta' dest: fixed_targets_not_decisive)

lemma reachable_iff:
  assumes "\<And>h p m. connect h p \<noteq> Some (''CONNECTED'', m)" and "distinct (map fst gs)"
  shows "egress_reachable (map (probe_of connect) (build_targets gs)) \<noteq> [] \<longleftrightarrow>
    (\<exists>(network, address) \<in> set gs. connect address 22 = None \<and>
       (network = default_network \<or>
        length (filter (\<lambda>(other, _). other \<noteq> default_network \<and> other < network) gs) < 2))"
proof -
  let ?others = "filter (\<lambda>(network, address). network \<noteq> default_network) gs"
  let ?few = "\<lambda>network. length (filter (\<lambda>(other, _). other \<noteq> default_network \<and> other < network) gs) < 2"
  have "distinct (map fst ?others)"
    using assms(2) by (simp add: distinct_map_filter)
  then have two: "(network, address) \<in> set (take 2 (sort_key fst ?others)) \<longleftrightarrow>
      (network, address) \<in> set gs \<and> network \<noteq> default_network \<and> ?few network" for network address
    by (auto simp: take_sort_key_iff case_prod_beta' conj_commute)
  have own: "map_of gs default_network = Some g \<longleftrightarrow> (default_network, g) \<in> set gs" for g
    using assms(2) by simp
  have "egress_reachable (map (probe_of connect) (build_targets gs)) \<noteq> [] \<longleftrightarrow>
      (\<exists>t \<in> set (build_targets gs). pt_expectation t = MUST_BE_BLOCKED \<and> connect (pt_host t) (pt_port t) = None)"
    by (simp add: egress_reachable_def filter_empty_conv connected_probe_of [OF assms(1)] Bex_def del: not_None_eq)
  also have "\<dots> \<longleftrightarrow>
      (\<exists>g. map_of gs default_network = Some g \<and> connect g 22 = None) \<or>
      (\<exists>(network, address) \<in> set (take 2 (sort_key fst ?others)). connect address 22 = None)"
    by (rule decisive_iff)
  also have "\<dots> \<longleftrightarrow> (\<exists>(network, address) \<in> set gs. connect address 22 = None \<and>
      (network = default_network \<or> ?few network))"
    unfolding own by (auto simp: two Bex_def)
  finally show ?thesis .
qed

text \<open>
  C39. The exit status says what the network does. When the container answers, the status is 2 exactly
  when the public address or the database of the stack cannot be reached, and otherwise 1 exactly when
  some decisive address accepts a connection to port 22: the gateway of the stack's own bridge, or that
  of one of the two networks which come first by name among the others. It is 0 in every other case.
\<close>

theorem egress_status_reports_the_network:
  assumes "bridge_gateways (eh_inspect host) (eh_loads host) (eh_networks host) [] = Inr gateways"
    and "eh_exec host (container_name service) = (\<lambda>targets. Some (probe_source connect targets))"
    and "\<And>h p m. connect h p \<noteq> Some (''CONNECTED'', m)"
  shows "map_sum id fst (egress_main host markdown service) = Inr
    (if connect ''1.1.1.1'' 443 \<noteq> None \<or> connect ''postgres'' 5432 \<noteq> None then 2
     else if \<exists>(network, address) \<in> set gateways. connect address 22 = None \<and>
         (network = default_network \<or>
          length (filter (\<lambda>(other, _). other \<noteq> default_network \<and> other < network) gateways) < 2) then 1
     else 0)"
proof -
  have "distinct (map fst gateways)"
    using assms(1) by (rule bridge_gateways_distinct) simp
  note facts = controls_failed_iff [where gs = gateways, OF assms(3)] reachable_iff [OF assms(3) this]
  have "map_sum id fst (egress_main host markdown service) =
      Inr (fst (egress_verdict (map (probe_of connect) (build_targets gateways))))"
    by (simp add: egress_main_def assms(1,2) probes_of res_bind_def Let_def split_beta)
  then show ?thesis
    unfolding egress_verdict_def facts by simp
qed

definition sample_host :: "connector \<Rightarrow> egress_host" where
  "sample_host connect = \<lparr>
     eh_networks = [''proxy'', ''relay_default''],
     eh_inspect = (\<lambda>n. n),
     eh_loads = (\<lambda>n. Some (JArr [JObj [(''Gateway'', JStr (if n = ''proxy'' then ''172.19.0.1'' else ''172.18.0.1''))]])),
     eh_exec = (\<lambda>_ targets. Some (probe_source connect targets)),
     eh_which = (\<lambda>_. False), eh_tool = (\<lambda>_. [])\<rparr>"

definition open_proxy :: connector where
  "open_proxy host port =
     (if host \<in> {''1.1.1.1'', ''postgres'', ''172.19.0.1''} then None else Some (''TimeoutError'', ''timed out''))"

lemma egress_status_reports_the_network_witness:
  "map_sum id fst (egress_main (sample_host open_proxy) True ''dispatcher'') = Inr 1"
proof -
  have gateways: "bridge_gateways (eh_inspect (sample_host open_proxy)) (eh_loads (sample_host open_proxy))
      (eh_networks (sample_host open_proxy)) [] = Inr [(''proxy'', ''172.19.0.1''), (''relay_default'', ''172.18.0.1'')]"
    by (simp add: sample_host_def Let_def res_bind_def)
  have exec: "eh_exec (sample_host open_proxy) (container_name ''dispatcher'') =
      (\<lambda>targets. Some (probe_source open_proxy targets))"
    by (simp add: sample_host_def)
  have named: "open_proxy h p \<noteq> Some (''CONNECTED'', m)" for h p m
    by (simp add: open_proxy_def)
  show ?thesis
    unfolding egress_status_reports_the_network [OF gateways exec named]
    by (simp add: open_proxy_def default_network_def COMPOSE_PROJECT_def)
qed

end
