(* ===== verification/Migrations.thy ===== *)
theory Migrations
  imports Prelude
begin

section \<open>The migrations and the declared tables\<close>

text \<open>
  \<open>migrations/versions\<close>: the statements of every revision, up and down, and \<open>repositories/*/models.py\<close>,
  the tables the application declares. A schema is the list of its tables in the order they were
  created, a table the list of its columns, its constraints and its indexes. The statements mean what
  SQL says of them: one that names what is not there, or what is there already, fails, and so does
  dropping what another table refers to and adding a column that a row already there cannot fill.
\<close>

subsection \<open>Schemas\<close>

datatype sql_type = SqlUuid | SqlString | SqlText | SqlInteger | SqlBoolean | SqlTimestampTz | SqlJsonb
  | SqlArray sql_type

text \<open>A default is an expression of the server, as \<open>now()\<close>, or a quoted literal.\<close>

datatype sql_default = SqlExpr string | SqlLiteral string

record sql_column =
  sc_name :: string
  sc_type :: sql_type
  sc_default :: "sql_default option"
  sc_nullable :: bool

datatype sql_constraint =
    PrimaryKeyConstraint "string list"
  | ForeignKeyConstraint (fk_columns: "string list") (fk_table: string) (fk_target: "string list") (fk_ondelete: string)
  | UniqueConstraint "string list"

record sql_table =
  st_columns :: "sql_column list"
  st_constraints :: "sql_constraint list"
  st_indexes :: "(string \<times> string list) list"

type_synonym schema = "(string \<times> sql_table) list"

datatype sql_error =
    DuplicateRelation string | UndefinedRelation string | DuplicateColumn string | UndefinedColumn string
  | InvalidConstraint string | DependentObjects string | NotNullViolation string

datatype ddl =
    CreateTable string "sql_column list" "sql_constraint list"
  | DropTable string
  | CreateIndex string string "string list"
  | DropIndex string string
  | AddColumn string sql_column
  | DropColumn string string

definition column_names :: "sql_table \<Rightarrow> string list" where
  "column_names d = map sc_name (st_columns d)"

definition relation_names :: "schema \<Rightarrow> string list" where
  "relation_names s = map fst s @ concat (map (\<lambda>(_, d). map fst (st_indexes d)) s)"

text \<open>A foreign key wants a table that is there and, in it, a key of exactly its columns.\<close>

fun constraint_ok :: "schema \<Rightarrow> sql_table \<Rightarrow> sql_constraint \<Rightarrow> bool" where
  "constraint_ok s d (PrimaryKeyConstraint cs) = (set cs \<subseteq> set (column_names d))"
| "constraint_ok s d (UniqueConstraint cs) = (set cs \<subseteq> set (column_names d))"
| "constraint_ok s d (ForeignKeyConstraint cs t rs _) =
     (set cs \<subseteq> set (column_names d) \<and>
      (case map_of s t of
         None \<Rightarrow> False
       | Some e \<Rightarrow> PrimaryKeyConstraint rs \<in> set (st_constraints e) \<or> UniqueConstraint rs \<in> set (st_constraints e)))"

fun constraint_columns :: "sql_constraint \<Rightarrow> string list" where
  "constraint_columns (PrimaryKeyConstraint cs) = cs"
| "constraint_columns (UniqueConstraint cs) = cs"
| "constraint_columns (ForeignKeyConstraint cs _ _ _) = cs"

fun refers_to :: "string \<Rightarrow> sql_constraint \<Rightarrow> bool" where
  "refers_to t (ForeignKeyConstraint _ t' _ _) = (t' = t)"
| "refers_to t _ = False"

definition update_table :: "string \<Rightarrow> (sql_table \<Rightarrow> sql_table) \<Rightarrow> schema \<Rightarrow> schema" where
  "update_table t f s = map (\<lambda>(k, d). if k = t then (k, f d) else (k, d)) s"

definition drop_from :: "string \<Rightarrow> sql_table \<Rightarrow> sql_table" where
  "drop_from n d = d
     \<lparr>st_columns := filter (\<lambda>c. sc_name c \<noteq> n) (st_columns d),
      st_constraints := filter (\<lambda>c. n \<notin> set (constraint_columns c)) (st_constraints d),
      st_indexes := filter (\<lambda>(_, cs). n \<notin> set cs) (st_indexes d)\<rparr>"

text \<open>\<open>populated\<close> says which tables hold rows.\<close>

fun apply_ddl :: "(string \<Rightarrow> bool) \<Rightarrow> ddl \<Rightarrow> schema \<Rightarrow> sql_error + schema" where
  "apply_ddl populated (CreateTable t cols cons) s =
     (let d = \<lparr>st_columns = cols, st_constraints = cons, st_indexes = []\<rparr> in
      if t \<in> set (relation_names s) then Inl (DuplicateRelation t)
      else if \<not> distinct (map sc_name cols) then Inl (DuplicateColumn t)
      else if \<not> list_all (constraint_ok (s @ [(t, d)]) d) cons then Inl (InvalidConstraint t)
      else Inr (s @ [(t, d)]))"
| "apply_ddl populated (DropTable t) s =
     (if t \<notin> set (map fst s) then Inl (UndefinedRelation t)
      else if list_ex (\<lambda>(k, d). k \<noteq> t \<and> list_ex (refers_to t) (st_constraints d)) s then Inl (DependentObjects t)
      else Inr (filter (\<lambda>(k, _). k \<noteq> t) s))"
| "apply_ddl populated (CreateIndex n t cs) s =
     (case map_of s t of
        None \<Rightarrow> Inl (UndefinedRelation t)
      | Some d \<Rightarrow>
          if n \<in> set (relation_names s) then Inl (DuplicateRelation n)
          else if \<not> set cs \<subseteq> set (column_names d) then Inl (UndefinedColumn t)
          else Inr (update_table t (\<lambda>d. d\<lparr>st_indexes := st_indexes d @ [(n, cs)]\<rparr>) s))"
| "apply_ddl populated (DropIndex n t) s =
     (if list_ex (\<lambda>(_, d). n \<in> set (map fst (st_indexes d))) s
      then Inr (map (\<lambda>(k, d). (k, d\<lparr>st_indexes := filter (\<lambda>(m, _). m \<noteq> n) (st_indexes d)\<rparr>)) s)
      else Inl (UndefinedRelation n))"
| "apply_ddl populated (AddColumn t c) s =
     (case map_of s t of
        None \<Rightarrow> Inl (UndefinedRelation t)
      | Some d \<Rightarrow>
          if sc_name c \<in> set (column_names d) then Inl (DuplicateColumn (sc_name c))
          else if populated t \<and> \<not> sc_nullable c \<and> sc_default c = None then Inl (NotNullViolation (sc_name c))
          else Inr (update_table t (\<lambda>d. d\<lparr>st_columns := st_columns d @ [c]\<rparr>) s))"
| "apply_ddl populated (DropColumn t n) s =
     (case map_of s t of
        None \<Rightarrow> Inl (UndefinedRelation t)
      | Some d \<Rightarrow>
          if n \<notin> set (column_names d) then Inl (UndefinedColumn n)
          else if list_ex (\<lambda>(_, d). list_ex (\<lambda>c. refers_to t c \<and> n \<in> set (fk_target c)) (st_constraints d)) s
          then Inl (DependentObjects n)
          else Inr (update_table t (drop_from n) s))"

fun run_ddl :: "(string \<Rightarrow> bool) \<Rightarrow> ddl list \<Rightarrow> schema \<Rightarrow> sql_error + schema" where
  "run_ddl populated [] s = Inr s"
| "run_ddl populated (x # xs) s = res_bind (apply_ddl populated x s) (run_ddl populated xs)"

subsection \<open>The revisions\<close>

record revision =
  rv_id :: string
  rv_down :: "string option"
  rv_upgrade :: "ddl list"
  rv_downgrade :: "ddl list"

abbreviation sa_Column :: "string \<Rightarrow> sql_type \<Rightarrow> sql_default option \<Rightarrow> bool \<Rightarrow> sql_column" where
  "sa_Column name type server_default nullable \<equiv>
     \<lparr>sc_name = name, sc_type = type, sc_default = server_default, sc_nullable = nullable\<rparr>"

abbreviation "gen_random_uuid \<equiv> Some (SqlExpr ''gen_random_uuid()'')"
abbreviation "sql_now \<equiv> Some (SqlExpr ''now()'')"

definition initial_empty :: revision where
  "initial_empty =
     \<lparr>rv_id = ''4cc0b62f941b'', rv_down = None,
      rv_upgrade =
        [],
      rv_downgrade =
        []\<rparr>"

definition create_tenants :: revision where
  "create_tenants =
     \<lparr>rv_id = ''425b0e516985'', rv_down = Some ''4cc0b62f941b'',
      rv_upgrade =
        [CreateTable ''tenants''
          [sa_Column ''id'' SqlUuid gen_random_uuid False,
           sa_Column ''name'' SqlString None False,
           sa_Column ''created_at'' SqlTimestampTz sql_now False,
           sa_Column ''deleted_at'' SqlTimestampTz None True]
          [PrimaryKeyConstraint [''id'']]],
      rv_downgrade =
        [DropTable ''tenants'']\<rparr>"

definition create_api_keys :: revision where
  "create_api_keys =
     \<lparr>rv_id = ''ddb3df9e0c3b'', rv_down = Some ''425b0e516985'',
      rv_upgrade =
        [CreateTable ''api_keys''
          [sa_Column ''id'' SqlUuid gen_random_uuid False,
           sa_Column ''tenant_id'' SqlUuid None False,
           sa_Column ''key_hash'' SqlString None False,
           sa_Column ''key_prefix'' SqlString None False,
           sa_Column ''scopes'' (SqlArray SqlString) None False,
           sa_Column ''revoked_at'' SqlTimestampTz None True,
           sa_Column ''created_at'' SqlTimestampTz sql_now False]
          [ForeignKeyConstraint [''tenant_id''] ''tenants'' [''id''] ''CASCADE'',
           PrimaryKeyConstraint [''id'']],
         CreateIndex ''ix_api_keys_key_prefix'' ''api_keys'' [''key_prefix'']],
      rv_downgrade =
        [DropIndex ''ix_api_keys_key_prefix'' ''api_keys'',
         DropTable ''api_keys'']\<rparr>"

definition create_endpoints :: revision where
  "create_endpoints =
     \<lparr>rv_id = ''f67041ee0044'', rv_down = Some ''ddb3df9e0c3b'',
      rv_upgrade =
        [CreateTable ''endpoints''
          [sa_Column ''id'' SqlUuid gen_random_uuid False,
           sa_Column ''tenant_id'' SqlUuid None False,
           sa_Column ''url'' SqlString None False,
           sa_Column ''secret'' SqlString None False,
           sa_Column ''subscribed_event_types'' (SqlArray SqlString) None False,
           sa_Column ''status'' SqlString (Some (SqlLiteral ''active'')) False,
           sa_Column ''breaker_state'' SqlString (Some (SqlLiteral ''closed'')) False,
           sa_Column ''opened_at'' SqlTimestampTz None True,
           sa_Column ''created_at'' SqlTimestampTz sql_now False]
          [ForeignKeyConstraint [''tenant_id''] ''tenants'' [''id''] ''CASCADE'',
           PrimaryKeyConstraint [''id'']]],
      rv_downgrade =
        [DropTable ''endpoints'']\<rparr>"

definition create_events :: revision where
  "create_events =
     \<lparr>rv_id = ''5ca0b0386358'', rv_down = Some ''f67041ee0044'',
      rv_upgrade =
        [CreateTable ''events''
          [sa_Column ''id'' SqlUuid gen_random_uuid False,
           sa_Column ''tenant_id'' SqlUuid None False,
           sa_Column ''type'' SqlString None False,
           sa_Column ''payload'' SqlJsonb None False,
           sa_Column ''idempotency_key'' SqlString None False,
           sa_Column ''created_at'' SqlTimestampTz sql_now False]
          [ForeignKeyConstraint [''tenant_id''] ''tenants'' [''id''] ''CASCADE'',
           PrimaryKeyConstraint [''id''],
           UniqueConstraint [''tenant_id'', ''idempotency_key'']]],
      rv_downgrade =
        [DropTable ''events'']\<rparr>"

definition create_outbox :: revision where
  "create_outbox =
     \<lparr>rv_id = ''7697ce837752'', rv_down = Some ''5ca0b0386358'',
      rv_upgrade =
        [CreateTable ''outbox''
          [sa_Column ''id'' SqlUuid gen_random_uuid False,
           sa_Column ''event_id'' SqlUuid None False,
           sa_Column ''status'' SqlString (Some (SqlLiteral ''pending'')) False,
           sa_Column ''attempts'' SqlInteger (Some (SqlLiteral ''0'')) False,
           sa_Column ''locked_at'' SqlTimestampTz None True,
           sa_Column ''created_at'' SqlTimestampTz sql_now False]
          [ForeignKeyConstraint [''event_id''] ''events'' [''id''] ''CASCADE'',
           PrimaryKeyConstraint [''id''],
           UniqueConstraint [''event_id'']]],
      rv_downgrade =
        [DropTable ''outbox'']\<rparr>"

definition create_deliveries :: revision where
  "create_deliveries =
     \<lparr>rv_id = ''de700e1055fe'', rv_down = Some ''7697ce837752'',
      rv_upgrade =
        [CreateTable ''deliveries''
          [sa_Column ''id'' SqlUuid gen_random_uuid False,
           sa_Column ''event_id'' SqlUuid None False,
           sa_Column ''endpoint_id'' SqlUuid None False,
           sa_Column ''state'' SqlString (Some (SqlLiteral ''pending'')) False,
           sa_Column ''attempt_count'' SqlInteger (Some (SqlLiteral ''0'')) False,
           sa_Column ''next_retry_at'' SqlTimestampTz None True,
           sa_Column ''created_at'' SqlTimestampTz sql_now False]
          [ForeignKeyConstraint [''event_id''] ''events'' [''id''] ''CASCADE'',
           ForeignKeyConstraint [''endpoint_id''] ''endpoints'' [''id''] ''CASCADE'',
           PrimaryKeyConstraint [''id'']]],
      rv_downgrade =
        [DropTable ''deliveries'']\<rparr>"

definition create_delivery_attempts :: revision where
  "create_delivery_attempts =
     \<lparr>rv_id = ''157cc1f4495a'', rv_down = Some ''de700e1055fe'',
      rv_upgrade =
        [CreateTable ''delivery_attempts''
          [sa_Column ''id'' SqlUuid gen_random_uuid False,
           sa_Column ''delivery_id'' SqlUuid None False,
           sa_Column ''attempt_no'' SqlInteger None False,
           sa_Column ''latency_ms'' SqlInteger None False,
           sa_Column ''response_status'' SqlInteger None True,
           sa_Column ''error_class'' SqlString None True,
           sa_Column ''request_snippet'' SqlText None True,
           sa_Column ''response_snippet'' SqlText None True,
           sa_Column ''created_at'' SqlTimestampTz sql_now False]
          [ForeignKeyConstraint [''delivery_id''] ''deliveries'' [''id''] ''CASCADE'',
           PrimaryKeyConstraint [''id'']]],
      rv_downgrade =
        [DropTable ''delivery_attempts'']\<rparr>"

definition add_consecutive_failures :: revision where
  "add_consecutive_failures =
     \<lparr>rv_id = ''cac78d3eba17'', rv_down = Some ''157cc1f4495a'',
      rv_upgrade =
        [AddColumn ''endpoints'' (sa_Column ''consecutive_failures'' SqlInteger (Some (SqlLiteral ''0'')) False)],
      rv_downgrade =
        [DropColumn ''endpoints'' ''consecutive_failures'']\<rparr>"

definition add_sandbox_support :: revision where
  "add_sandbox_support =
     \<lparr>rv_id = ''a1b2c3d4e5f6'', rv_down = Some ''cac78d3eba17'',
      rv_upgrade =
        [AddColumn ''tenants'' (sa_Column ''is_sandbox'' SqlBoolean (Some (SqlExpr ''false'')) False),
         AddColumn ''api_keys'' (sa_Column ''expires_at'' SqlTimestampTz None True),
         AddColumn ''delivery_attempts'' (sa_Column ''request_headers'' SqlJsonb None True)],
      rv_downgrade =
        [DropColumn ''delivery_attempts'' ''request_headers'',
         DropColumn ''api_keys'' ''expires_at'',
         DropColumn ''tenants'' ''is_sandbox'']\<rparr>"

definition add_correlation_id :: revision where
  "add_correlation_id =
     \<lparr>rv_id = ''fe109e3c393b'', rv_down = Some ''a1b2c3d4e5f6'',
      rv_upgrade =
        [AddColumn ''events'' (sa_Column ''correlation_id'' SqlString None True)],
      rv_downgrade =
        [DropColumn ''events'' ''correlation_id'']\<rparr>"

definition revisions :: "revision list" where
  "revisions =
     [initial_empty, create_tenants, create_api_keys,
       create_endpoints, create_events, create_outbox,
       create_deliveries, create_delivery_attempts, add_consecutive_failures, add_sandbox_support, add_correlation_id]"

text \<open>
  \<open>migrations/env.py\<close>: the revisions that Alembic selects are run in one transaction, each recording its
  identifier as the version of the database; what an error leaves is the database as it was.
\<close>

record migrated =
  mg_version :: "string option"
  mg_schema :: schema

fun run_revisions :: "(string \<Rightarrow> bool) \<Rightarrow> revision list \<Rightarrow> migrated \<Rightarrow> sql_error + migrated" where
  "run_revisions populated [] db = Inr db"
| "run_revisions populated (r # rs) db =
     res_bind (run_ddl populated (rv_upgrade r) (mg_schema db)) (\<lambda>s.
       run_revisions populated rs \<lparr>mg_version = Some (rv_id r), mg_schema = s\<rparr>)"

definition do_run_migrations :: "(string \<Rightarrow> bool) \<Rightarrow> revision list \<Rightarrow> migrated \<Rightarrow> (sql_error + unit) \<times> migrated" where
  "do_run_migrations populated steps db =
     (case run_revisions populated steps db of
        Inl e \<Rightarrow> (Inl e, db)
      | Inr db' \<Rightarrow> (Inr (), db'))"

subsection \<open>The declared tables\<close>

record mapped_column =
  mc_name :: string
  mc_type :: sql_type
  mc_primary_key :: bool
  mc_foreign_key :: "(string \<times> string) option"
  mc_nullable :: bool
  mc_server_default :: "sql_default option"
  mc_unique :: bool
  mc_index :: bool

text \<open>The table of a class: its columns, and the constraints and indexes that they and the class ask for.\<close>

definition table_of_model :: "string \<Rightarrow> sql_constraint list \<Rightarrow> mapped_column list \<Rightarrow> sql_table" where
  "table_of_model tablename table_args cols =
     \<lparr>st_columns = map (\<lambda>c. sa_Column (mc_name c) (mc_type c) (mc_server_default c) (mc_nullable c)) cols,
      st_constraints =
        [PrimaryKeyConstraint (map mc_name (filter mc_primary_key cols))] @
        concat (map (\<lambda>c. case mc_foreign_key c of
          None \<Rightarrow> [] | Some (t, r) \<Rightarrow> [ForeignKeyConstraint [mc_name c] t [r] ''CASCADE'']) cols) @
        map (\<lambda>c. UniqueConstraint [mc_name c]) (filter mc_unique cols) @ table_args,
      st_indexes = map (\<lambda>c. (''ix_'' @ tablename @ ''_'' @ mc_name c, [mc_name c])) (filter mc_index cols)\<rparr>"

abbreviation plain_column :: "string \<Rightarrow> sql_type \<Rightarrow> bool \<Rightarrow> sql_default option \<Rightarrow> mapped_column" where
  "plain_column name type nullable server_default \<equiv>
     \<lparr>mc_name = name, mc_type = type, mc_primary_key = False, mc_foreign_key = None, mc_nullable = nullable,
      mc_server_default = server_default, mc_unique = False, mc_index = False\<rparr>"

abbreviation id_column :: mapped_column where
  "id_column \<equiv> (plain_column ''id'' SqlUuid False gen_random_uuid)\<lparr>mc_primary_key := True\<rparr>"

abbreviation cascade_column :: "string \<Rightarrow> string \<Rightarrow> mapped_column" where
  "cascade_column name table \<equiv> (plain_column name SqlUuid False None)\<lparr>mc_foreign_key := Some (table, ''id'')\<rparr>"

definition TenantModel :: "string \<times> sql_table" where
  "TenantModel = (''tenants'', table_of_model ''tenants'' []
     [id_column,
      plain_column ''name'' SqlString False None,
      plain_column ''created_at'' SqlTimestampTz False sql_now,
      plain_column ''deleted_at'' SqlTimestampTz True None,
      plain_column ''is_sandbox'' SqlBoolean False (Some (SqlExpr ''false''))])"

definition ApiKeyModel :: "string \<times> sql_table" where
  "ApiKeyModel = (''api_keys'', table_of_model ''api_keys'' []
     [id_column,
      cascade_column ''tenant_id'' ''tenants'',
      plain_column ''key_hash'' SqlString False None,
      (plain_column ''key_prefix'' SqlString False None)\<lparr>mc_index := True\<rparr>,
      plain_column ''scopes'' (SqlArray SqlString) False None,
      plain_column ''revoked_at'' SqlTimestampTz True None,
      plain_column ''expires_at'' SqlTimestampTz True None,
      plain_column ''created_at'' SqlTimestampTz False sql_now])"

definition EndpointModel :: "string \<times> sql_table" where
  "EndpointModel = (''endpoints'', table_of_model ''endpoints'' []
     [id_column,
      cascade_column ''tenant_id'' ''tenants'',
      plain_column ''url'' SqlString False None,
      plain_column ''secret'' SqlString False None,
      plain_column ''subscribed_event_types'' (SqlArray SqlString) False None,
      plain_column ''status'' SqlString False (Some (SqlLiteral ''active'')),
      plain_column ''breaker_state'' SqlString False (Some (SqlLiteral ''closed'')),
      plain_column ''opened_at'' SqlTimestampTz True None,
      plain_column ''consecutive_failures'' SqlInteger False (Some (SqlLiteral ''0'')),
      plain_column ''created_at'' SqlTimestampTz False sql_now])"

definition EventModel :: "string \<times> sql_table" where
  "EventModel = (''events'', table_of_model ''events'' [UniqueConstraint [''tenant_id'', ''idempotency_key'']]
     [id_column,
      cascade_column ''tenant_id'' ''tenants'',
      plain_column ''type'' SqlString False None,
      plain_column ''payload'' SqlJsonb False None,
      plain_column ''idempotency_key'' SqlString False None,
      plain_column ''created_at'' SqlTimestampTz False sql_now,
      plain_column ''correlation_id'' SqlString True None])"

definition OutboxModel :: "string \<times> sql_table" where
  "OutboxModel = (''outbox'', table_of_model ''outbox'' []
     [id_column,
      (cascade_column ''event_id'' ''events'')\<lparr>mc_unique := True\<rparr>,
      plain_column ''status'' SqlString False (Some (SqlLiteral ''pending'')),
      plain_column ''attempts'' SqlInteger False (Some (SqlLiteral ''0'')),
      plain_column ''locked_at'' SqlTimestampTz True None,
      plain_column ''created_at'' SqlTimestampTz False sql_now])"

definition DeliveryModel :: "string \<times> sql_table" where
  "DeliveryModel = (''deliveries'', table_of_model ''deliveries'' []
     [id_column,
      cascade_column ''event_id'' ''events'',
      cascade_column ''endpoint_id'' ''endpoints'',
      plain_column ''state'' SqlString False (Some (SqlLiteral ''pending'')),
      plain_column ''attempt_count'' SqlInteger False (Some (SqlLiteral ''0'')),
      plain_column ''next_retry_at'' SqlTimestampTz True None,
      plain_column ''created_at'' SqlTimestampTz False sql_now])"

definition DeliveryAttemptModel :: "string \<times> sql_table" where
  "DeliveryAttemptModel = (''delivery_attempts'', table_of_model ''delivery_attempts'' []
     [id_column,
      cascade_column ''delivery_id'' ''deliveries'',
      plain_column ''attempt_no'' SqlInteger False None,
      plain_column ''latency_ms'' SqlInteger False None,
      plain_column ''response_status'' SqlInteger True None,
      plain_column ''error_class'' SqlString True None,
      plain_column ''request_snippet'' SqlText True None,
      plain_column ''response_snippet'' SqlText True None,
      plain_column ''request_headers'' SqlJsonb True None,
      plain_column ''created_at'' SqlTimestampTz False sql_now])"

definition Base_metadata :: schema where
  "Base_metadata =
     [ApiKeyModel, DeliveryModel, DeliveryAttemptModel, EndpointModel, EventModel, OutboxModel, TenantModel]"

text \<open>Two schemas say the same when their tables do, whatever the order of the columns and the constraints.\<close>

definition same_table :: "sql_table \<Rightarrow> sql_table \<Rightarrow> bool" where
  "same_table d e \<longleftrightarrow>
     length (st_columns d) = length (st_columns e) \<and> set (st_columns d) = set (st_columns e) \<and>
     set (st_constraints d) = set (st_constraints e) \<and> set (st_indexes d) = set (st_indexes e)"

definition same_schema :: "schema \<Rightarrow> schema \<Rightarrow> bool" where
  "same_schema s s' \<longleftrightarrow>
     length s = length s' \<and>
     list_all (\<lambda>(t, d). case map_of s' t of None \<Rightarrow> False | Some e \<Rightarrow> same_table d e) s"

subsection \<open>Undoing a statement\<close>

definition table_ok :: "schema \<Rightarrow> sql_table \<Rightarrow> bool" where
  "table_ok s d \<longleftrightarrow> distinct (column_names d) \<and> list_all (constraint_ok s d) (st_constraints d) \<and>
     list_all (\<lambda>(_, cs). set cs \<subseteq> set (column_names d)) (st_indexes d)"

definition schema_ok :: "schema \<Rightarrow> bool" where
  "schema_ok s \<longleftrightarrow> distinct (map fst s) \<and> list_all (\<lambda>(_, d). table_ok s d) s"

text \<open>The first statement takes back the second.\<close>

fun undoes :: "ddl \<Rightarrow> ddl \<Rightarrow> bool" where
  "undoes (DropTable t) (CreateTable t' _ _) = (t = t')"
| "undoes (DropIndex n t) (CreateIndex n' t' _) = (n = n' \<and> t = t')"
| "undoes (DropColumn t n) (AddColumn t' c) = (t = t' \<and> n = sc_name c)"
| "undoes _ _ = False"

lemma constraint_ok_columns: "constraint_ok s d c \<Longrightarrow> set (constraint_columns c) \<subseteq> set (column_names d)"
  by (cases c) auto

lemma constraint_ok_refers: "constraint_ok s d c \<Longrightarrow> refers_to t c \<Longrightarrow> t \<in> fst ` set s"
  by (cases c) (auto split: option.splits dest!: map_of_SomeD intro: rev_image_eqI)

text \<open>What a table refers to is still there when tables, columns or indexes are added.\<close>

lemma constraint_ok_mono:
  assumes "constraint_ok s d c"
    and "set (column_names d) \<subseteq> set (column_names d')"
    and "\<And>t e. map_of s t = Some e \<Longrightarrow> \<exists>e'. map_of s' t = Some e' \<and> st_constraints e' = st_constraints e"
  shows "constraint_ok s' d' c"
proof (cases c)
  case (ForeignKeyConstraint cs t rs x)
  then obtain e where "map_of s t = Some e"
    using assms(1) by (auto split: option.splits)
  then show ?thesis
    using assms ForeignKeyConstraint by (fastforce split: option.splits)
qed (use assms(1,2) in auto)

lemma map_of_update_table:
  "map_of (update_table t f s) k = map_option (\<lambda>d. if k = t then f d else d) (map_of s k)"
  by (induction s) (auto simp: update_table_def)

lemma fst_update_table [simp]: "map fst (update_table t f s) = map fst s"
  by (simp add: update_table_def case_prod_beta' comp_def if_distrib cong: if_cong)

lemma mem_update_table:
  "(k, e) \<in> set (update_table t f s) \<longleftrightarrow> (\<exists>d. (k, d) \<in> set s \<and> e = (if k = t then f d else d))"
  by (cases "k = t") (force simp: update_table_def image_iff split: if_splits)+

lemma update_table_update_table:
  "update_table t f (update_table t g s) = update_table t (f \<circ> g) s"
  by (simp add: update_table_def split_beta)

lemma update_table_same:
  assumes "\<And>d. (t, d) \<in> set s \<Longrightarrow> f d = d"
  shows "update_table t f s = s"
  using assms by (induction s) (auto simp: update_table_def)

lemma schema_okD:
  assumes "schema_ok s" and "(t, d) \<in> set s"
  shows "table_ok s d" and "map_of s t = Some d"
  using assms by (auto simp: schema_ok_def list_all_iff)

lemma table_ok_mono:
  assumes "table_ok s e"
    and "\<And>t e. map_of s t = Some e \<Longrightarrow> \<exists>e'. map_of s' t = Some e' \<and> st_constraints e' = st_constraints e"
  shows "table_ok s' e"
  using assms(1) constraint_ok_mono [OF _ subset_refl assms(2)]
  by (auto simp: table_ok_def list_all_iff)

lemma schema_ok_update_table:
  assumes ok: "schema_ok s" and d: "map_of s t = Some d"
    and kept: "\<And>d. st_constraints (f d) = st_constraints d" "set (column_names d) \<subseteq> set (column_names (f d))"
    and good: "distinct (column_names (f d))" "list_all (\<lambda>(_, cs). set cs \<subseteq> set (column_names (f d))) (st_indexes (f d))"
  shows "schema_ok (update_table t f s)"
proof -
  have later: "\<exists>e'. map_of (update_table t f s) k = Some e' \<and> st_constraints e' = st_constraints e"
    if "map_of s k = Some e" for k e
    using that kept(1) by (simp add: map_of_update_table)
  have "table_ok (update_table t f s) (f d)"
  proof -
    have "constraint_ok (update_table t f s) (f d) x" if "x \<in> set (st_constraints d)" for x
    proof (rule constraint_ok_mono [OF _ kept(2) later])
      show "constraint_ok s d x"
        using schema_okD(1) [OF ok map_of_SomeD [OF d]] that by (simp add: table_ok_def list_all_iff)
    qed
    then show ?thesis
      using good kept(1) by (simp add: table_ok_def list_all_iff)
  qed
  moreover have "table_ok (update_table t f s) e" if "(k, e) \<in> set s" for k e
    using schema_okD(1) [OF ok that] later by (rule table_ok_mono)
  moreover have "e = d" if "(t, e) \<in> set s" for e
    using schema_okD(2) [OF ok that] d by simp
  ultimately have "list_all (\<lambda>(_, d). table_ok (update_table t f s) d) (update_table t f s)"
    by (auto simp: list_all_iff mem_update_table)
  then show ?thesis
    using ok by (simp add: schema_ok_def)
qed

lemma update_table_back:
  assumes "schema_ok s" and "map_of s t = Some d" and "g (f d) = d"
  shows "update_table t g (update_table t f s) = s"
  using assms schema_okD(2) [OF assms(1)]
  by (auto simp: update_table_update_table intro!: update_table_same)

lemma undo_create_table:
  assumes ok: "schema_ok s" and up: "apply_ddl populated (CreateTable t cols cons) s = Inr s'"
  shows "schema_ok s' \<and> apply_ddl populated' (DropTable t) s' = Inr s"
proof -
  let ?d = "\<lparr>st_columns = cols, st_constraints = cons, st_indexes = []\<rparr>"
  have new: "t \<notin> fst ` set s" and s': "s' = s @ [(t, ?d)]"
    and d: "distinct (map sc_name cols)" "list_all (constraint_ok s' ?d) cons"
    using up by (auto simp: Let_def relation_names_def split: if_splits)
  have later: "table_ok s' e" if "(k, e) \<in> set s" for k e
    using schema_okD(1) [OF ok that] by (rule table_ok_mono) (simp add: s' map_add_Some_iff)
  have "table_ok s' ?d"
    using d by (simp add: table_ok_def column_names_def)
  then have "schema_ok s'"
    using ok new later by (auto simp: schema_ok_def list_all_iff s')
  moreover have "\<not> refers_to t c" if "(k, e) \<in> set s" "c \<in> set (st_constraints e)" for k e c
    using schema_okD(1) [OF ok that(1)] that(2) new
    by (auto simp: table_ok_def list_all_iff dest: constraint_ok_refers)
  moreover have "filter (\<lambda>(k, _). k \<noteq> t) s = s"
    using new by (force simp: filter_id_conv)
  ultimately show ?thesis
    by (auto simp: s' list_ex_iff)
qed

lemma undo_create_index:
  assumes ok: "schema_ok s" and up: "apply_ddl populated (CreateIndex n t cs) s = Inr s'"
  shows "schema_ok s' \<and> apply_ddl populated' (DropIndex n t) s' = Inr s"
proof -
  let ?f = "\<lambda>d. d\<lparr>st_indexes := st_indexes d @ [(n, cs)]\<rparr>"
  let ?g = "\<lambda>d. d\<lparr>st_indexes := filter (\<lambda>(m, _). m \<noteq> n) (st_indexes d)\<rparr>"
  obtain d where d: "map_of s t = Some d" and new: "n \<notin> set (relation_names s)"
    and cs: "set cs \<subseteq> set (column_names d)" and s': "s' = update_table t ?f s"
    using up by (auto split: option.splits if_splits)
  have "schema_ok s'"
    unfolding s' using ok d
    by (rule schema_ok_update_table)
      (use schema_okD(1) [OF ok map_of_SomeD [OF d]] cs in \<open>auto simp: table_ok_def column_names_def\<close>)
  moreover have fresh: "filter (\<lambda>(m, _). m \<noteq> n) (st_indexes e) = st_indexes e" if "(k, e) \<in> set s" for k e
  proof -
    have "m \<noteq> n" if "(m, cs') \<in> set (st_indexes e)" for m cs'
      using new that \<open>(k, e) \<in> set s\<close> by (force simp: relation_names_def)
    then show ?thesis
      by (auto simp: filter_id_conv)
  qed
  then have "map (\<lambda>(k, e). (k, ?g e)) s' = s"
    unfolding s' update_table_def map_map by (intro map_idI) (auto simp: fresh)
  moreover have "(t, ?f d) \<in> set s'"
    using map_of_SomeD [OF d] by (auto simp: s' mem_update_table)
  then have "list_ex (\<lambda>(_, d). n \<in> set (map fst (st_indexes d))) s'"
    by (force simp: list_ex_iff)
  ultimately show ?thesis
    by simp
qed

lemma undo_add_column:
  assumes ok: "schema_ok s" and up: "apply_ddl populated (AddColumn t c) s = Inr s'"
  shows "schema_ok s' \<and> apply_ddl populated' (DropColumn t (sc_name c)) s' = Inr s"
proof -
  let ?f = "\<lambda>d. d\<lparr>st_columns := st_columns d @ [c]\<rparr>"
  obtain d where d: "map_of s t = Some d" and new: "sc_name c \<notin> set (column_names d)"
    and s': "s' = update_table t ?f s"
    using up by (auto split: option.splits if_splits)
  have d_ok: "table_ok s d"
    using schema_okD(1) [OF ok map_of_SomeD [OF d]] .
  have "schema_ok s'"
    unfolding s' using ok d
    by (rule schema_ok_update_table) (use d_ok new in \<open>auto simp: table_ok_def column_names_def list_all_iff\<close>)
  moreover have "drop_from (sc_name c) (?f d) = d"
  proof -
    have "sc_name c \<notin> set (constraint_columns x)" if "x \<in> set (st_constraints d)" for x
      using d_ok that new constraint_ok_columns [of s d x] by (auto simp: table_ok_def list_all_iff)
    moreover have "sc_name c \<notin> set cs" if "(m, cs) \<in> set (st_indexes d)" for m cs
      using d_ok that new by (auto simp: table_ok_def list_all_iff)
    moreover have "sc_name x \<noteq> sc_name c" if "x \<in> set (st_columns d)" for x
      using that new unfolding column_names_def set_map by (metis imageI)
    ultimately show ?thesis
      by (auto simp: drop_from_def filter_id_conv intro!: sql_table.equality)
  qed
  then have "update_table t (drop_from (sc_name c)) s' = s"
    unfolding s' by (rule update_table_back [OF ok d])
  moreover have "\<not> (refers_to t x \<and> sc_name c \<in> set (fk_target x))"
    if member: "(k, e) \<in> set s'" "x \<in> set (st_constraints e)" for k e x
  proof
    assume refers: "refers_to t x \<and> sc_name c \<in> set (fk_target x)"
    obtain e0 where e0: "(k, e0) \<in> set s" "st_constraints e0 = st_constraints e"
      using member(1) unfolding s' mem_update_table by (cases "k = t") auto
    have "constraint_ok s e0 x"
      using schema_okD(1) [OF ok e0(1)] member(2) e0(2) by (simp add: table_ok_def list_all_iff)
    then have "PrimaryKeyConstraint (fk_target x) \<in> set (st_constraints d) \<or>
        UniqueConstraint (fk_target x) \<in> set (st_constraints d)"
      using refers d by (cases x) auto
    then have "constraint_ok s d (PrimaryKeyConstraint (fk_target x)) \<or>
        constraint_ok s d (UniqueConstraint (fk_target x))"
      using d_ok unfolding table_ok_def list_all_iff by blast
    then have "set (fk_target x) \<subseteq> set (column_names d)"
      by simp
    then show False
      using refers new by auto
  qed
  ultimately show ?thesis
    using d new by (auto simp: s' map_of_update_table list_ex_iff column_names_def)
qed

lemma undo_statement:
  assumes "undoes y x" and "schema_ok s" and "apply_ddl populated x s = Inr s'"
  shows "schema_ok s' \<and> apply_ddl populated' y s' = Inr s"
proof (cases x)
  case (CreateTable t cols cons)
  then show ?thesis
    using assms(1,3) undo_create_table [OF assms(2)] by (cases y) auto
next
  case (CreateIndex n t cs)
  then show ?thesis
    using assms(1,3) undo_create_index [OF assms(2)] by (cases y) auto
next
  case (AddColumn t c)
  then show ?thesis
    using assms(1,3) undo_add_column [OF assms(2)] by (cases y) auto
qed (use assms(1) in \<open>simp_all\<close>)

lemma run_ddl_append: "run_ddl populated (xs @ ys) s = res_bind (run_ddl populated xs s) (run_ddl populated ys)"
  by (induction xs arbitrary: s) (auto simp: res_bind_def split: sum.splits)

lemma undo_statements:
  assumes "list_all2 undoes (rev ys) xs" and "schema_ok s" and "run_ddl populated xs s = Inr s'"
  shows "schema_ok s' \<and> run_ddl populated' ys s' = Inr s"
  using assms
proof (induction xs arbitrary: ys s rule: list.induct)
  case Nil
  have "ys = []"
    using Nil.prems(1) by (simp only: list_all2_Nil2 rev_is_Nil_conv)
  with Nil show ?case by simp
next
  case (Cons x xs)
  then obtain y zs where ys: "ys = zs @ [y]" and y: "undoes y x" and zs: "list_all2 undoes (rev zs) xs"
    by (cases ys rule: rev_cases) auto
  obtain s1 where s1: "apply_ddl populated x s = Inr s1" "run_ddl populated xs s1 = Inr s'"
    using Cons.prems(3) by (auto simp: res_bind_Inr_iff)
  show ?case
    using undo_statement [where populated' = populated', OF y Cons.prems(2) s1(1)] Cons.IH [OF zs _ s1(2)]
    by (simp add: ys run_ddl_append)
qed

subsection \<open>Properties\<close>

lemmas revision_defs = initial_empty_def create_tenants_def create_api_keys_def create_endpoints_def
  create_events_def create_outbox_def create_deliveries_def create_delivery_attempts_def
  add_consecutive_failures_def add_sandbox_support_def add_correlation_id_def

lemmas model_defs = TenantModel_def ApiKeyModel_def EndpointModel_def EventModel_def OutboxModel_def
  DeliveryModel_def DeliveryAttemptModel_def

lemma downgrades_undo: "r \<in> set revisions \<Longrightarrow> list_all2 undoes (rev (rv_downgrade r)) (rv_upgrade r)"
  by (auto simp: revisions_def revision_defs)

text \<open>
  C38. Downgrading undoes upgrading. Whatever well-formed schema a revision is applied to, the schema it
  leaves is well-formed, and its downgrade succeeds on that and gives back the same schema, tables,
  columns, constraints and indexes in the same order. Nothing a revision adds is forgotten by its
  downgrade, and its statements are taken back in an order that other tables do not forbid.
\<close>

theorem downgrade_undoes_upgrade:
  assumes "r \<in> set revisions" and "schema_ok s" and "run_ddl populated (rv_upgrade r) s = Inr s'"
  shows "schema_ok s' \<and> run_ddl populated' (rv_downgrade r) s' = Inr s"
  by (rule undo_statements [OF downgrades_undo [OF assms(1)] assms(2,3)])

definition tenants_schema :: schema where
  "tenants_schema = [TenantModel]"

theorem downgrade_undoes_upgrade_witness:
  "\<exists>s'. run_ddl (\<lambda>_. True) (rv_upgrade create_api_keys) tenants_schema = Inr s' \<and>
     run_ddl (\<lambda>_. True) (rv_downgrade create_api_keys) s' = Inr tenants_schema"
proof -
  have known: "create_api_keys \<in> set revisions"
    by (simp add: revisions_def)
  have ok: "schema_ok tenants_schema"
    by (simp add: schema_ok_def tenants_schema_def TenantModel_def table_of_model_def table_ok_def column_names_def)
  obtain s' where "run_ddl (\<lambda>_. True) (rv_upgrade create_api_keys) tenants_schema = Inr s'"
    by (simp add: create_api_keys_def tenants_schema_def TenantModel_def table_of_model_def Let_def
        relation_names_def column_names_def update_table_def)
  then show ?thesis
    using downgrade_undoes_upgrade [OF known ok] by blast
qed

lemma upgraded_schema:
  "\<exists>s. run_revisions populated revisions \<lparr>mg_version = None, mg_schema = []\<rparr> =
     Inr \<lparr>mg_version = Some ''fe109e3c393b'', mg_schema = s\<rparr> \<and> same_schema s Base_metadata"
  by (simp add: revisions_def revision_defs Let_def relation_names_def column_names_def update_table_def
      same_schema_def same_table_def Base_metadata_def model_defs table_of_model_def insert_commute)

text \<open>
  C37. The migrations build the tables the application declares. Run on an empty database, in the order
  their \<open>down_revision\<close>s chain them, they all succeed, even when the tables already hold rows by the time
  a column is added; the database ends at the last revision, and its schema says the same as
  \<open>Base.metadata\<close>: the same tables, and in each the same columns with their types, defaults and
  nullability, the same keys and foreign keys, and the same indexes.
\<close>

theorem migrations_build_the_declared_tables:
  "map rv_down revisions = None # map (Some \<circ> rv_id) (butlast revisions) \<and> distinct (map rv_id revisions) \<and>
   (\<exists>s. do_run_migrations populated revisions \<lparr>mg_version = None, mg_schema = []\<rparr> =
      (Inr (), \<lparr>mg_version = Some (rv_id (last revisions)), mg_schema = s\<rparr>) \<and> same_schema s Base_metadata)"
proof (intro conjI)
  show "map rv_down revisions = None # map (Some \<circ> rv_id) (butlast revisions)" "distinct (map rv_id revisions)"
    by (simp_all add: revisions_def revision_defs)
  have "rv_id (last revisions) = ''fe109e3c393b''"
    by (simp add: revisions_def revision_defs)
  then show "\<exists>s. do_run_migrations populated revisions \<lparr>mg_version = None, mg_schema = []\<rparr> =
      (Inr (), \<lparr>mg_version = Some (rv_id (last revisions)), mg_schema = s\<rparr>) \<and> same_schema s Base_metadata"
    using upgraded_schema [of populated] by (auto simp: do_run_migrations_def)
qed

end
