(* ===== verification/ApiDocs.thy ===== *)
theory ApiDocs
  imports Problems
begin

section \<open>The documented problems, the probes, and the checks of the repository\<close>

text \<open>
  \<open>relay/api/openapi.py\<close>, the documented answers of each route; \<open>relay/api/health.py\<close>, the probes; and two
  checks that run over the repository, \<open>scripts/generate_openapi_spec.py\<close> and
  \<open>scripts/check_commit_msg.py\<close>. The specification that FastAPI generates is an argument.
\<close>

subsection \<open>Documented problems\<close>

definition EXAMPLE_TRACE_ID :: string where
  "EXAMPLE_TRACE_ID = ''b3f1c2a4-5e6d-4f7a-8b9c-0d1e2f3a4b5c''"

definition problem_example :: "string \<Rightarrow> string \<Rightarrow> int \<Rightarrow> json \<Rightarrow> string \<Rightarrow> json" where
  "problem_example t title code detail_text place =
     JObj [(''type'', JStr t), (''title'', JStr title), (''status'', JInt code), (''detail'', detail_text),
           (''instance'', JStr place), (''trace_id'', JStr EXAMPLE_TRACE_ID)]"

definition EXAMPLES :: "(nat \<times> json) list" where
  "EXAMPLES =
     [(401, problem_example ''/problems/unauthorized'' ''Unauthorized'' 401
         (JStr ''missing or invalid API key'')
         ''/v1/endpoints''),
      (403, problem_example ''/problems/forbidden'' ''Forbidden'' 403
         (JStr ''insufficient scope'')
         ''/v1/endpoints''),
      (404, problem_example ''/problems/not-found'' ''Not Found'' 404
         (JStr ''endpoint not found for tenant ...'')
         ''/v1/endpoints/2b1b1b1b-1b1b-1b1b-1b1b-1b1b1b1b1b1b''),
      (409, problem_example ''/problems/conflict'' ''Conflict'' 409
         (JStr ''idempotency key reused with a differing body for tenant ...'')
         ''/v1/events''),
      (413, problem_example ''/problems/payload-too-large'' ''Payload Too Large'' 413
         (JStr ''payload too large: 131072 bytes, max 65536'')
         ''/v1/events''),
      (422, problem_example ''/problems/validation-error'' ''Validation Error'' 422
         (JArr [JObj [(''type'', JStr ''missing''), (''loc'', JArr [JStr ''body'', JStr ''subscribed_event_types'']),
            (''msg'', JStr ''Field required'')]])
         ''/v1/endpoints''),
      (429, problem_example ''/problems/rate-limited'' ''Too Many Requests'' 429
         (JStr ''rate limit exceeded, retry after 1.00s'')
         ''/v1/events'')]"

definition DESCRIPTIONS :: "(nat \<times> string) list" where
  "DESCRIPTIONS =
     [(401, ''Missing, malformed, unknown, or revoked API key.''),
      (403, ''A valid key that lacks the scope this endpoint requires, or a sandbox tenant that has '' @
         ''exceeded one of its hard-capped quotas.''),
      (404, ''No resource with this id belongs to the authenticated tenant.''),
      (409, ''The Idempotency-Key was already used with a different request body, or the target '' @
         ''resource isn'' @ [CHR 39] @ ''t in a state that allows this action.''),
      (413, ''The raw request body exceeded the configured max event payload size.''),
      (422, ''Request body/query failed validation, or a cursor was malformed.''),
      (429, ''The tenant'' @ [CHR 39] @ ''s rate-limit budget is exhausted; retry after the value (seconds) in the '' @
         ''Retry-After response header.'')]"

text \<open>A status that is not documented raises a \<open>KeyError\<close>, here \<open>Inl\<close> of the status.\<close>

fun problem_responses :: "nat list \<Rightarrow> nat + (nat \<times> json) list" where
  "problem_responses [] = Inr []"
| "problem_responses (code # codes) =
     (case (map_of DESCRIPTIONS code, map_of EXAMPLES code) of
        (Some description, Some example) \<Rightarrow>
          res_bind (problem_responses codes) (\<lambda>rest.
            Inr ((code, JObj [(''description'', JStr description),
                   (''content'', JObj [(PROBLEM_MEDIA_TYPE, JObj [(''example'', example)])])])
                 # filter (\<lambda>(c, _). c \<noteq> code) rest))
      | _ \<Rightarrow> Inl code)"

subsection \<open>The probes\<close>

definition healthz :: json where
  "healthz = JObj [(''status'', JStr ''ok'')]"

text \<open>
  What \<open>SELECT 1\<close> and \<open>PING\<close> raise is an argument each, the text of the exception, \<open>None\<close> when the call
  succeeds. \<open>gather(..., return_exceptions=True)\<close> waits for both, whatever either of them does.
\<close>

definition check_result :: "string option \<Rightarrow> string" where
  "check_result raised = (case raised of None \<Rightarrow> ''ok'' | Some text \<Rightarrow> text)"

definition readyz :: "string option \<Rightarrow> string option \<Rightarrow> nat \<times> json" where
  "readyz postgres redis =
     (let checks = JObj [(''postgres'', JStr (check_result postgres)), (''redis'', JStr (check_result redis))];
          healthy = (postgres = None \<and> redis = None)
      in (if healthy then 200 else 503,
          JObj [(''status'', JStr (if healthy then ''ok'' else ''error'')), (''checks'', checks)]))"

subsection \<open>The committed specification\<close>

text \<open>\<open>main\<close> with the rendered specification and the committed file: the exit status and the file it leaves.\<close>

definition openapi_spec_main :: "bool \<Rightarrow> string \<Rightarrow> string option \<Rightarrow> nat \<times> string option" where
  "openapi_spec_main check rendered committed =
     (if check then
        let current = (case committed of None \<Rightarrow> [] | Some text \<Rightarrow> text)
        in (if current \<noteq> rendered then 1 else 0, committed)
      else (0, Some rendered))"

subsection \<open>Commit messages\<close>

definition COMMIT_TYPES :: "string list" where
  "COMMIT_TYPES = [''feat'', ''fix'', ''docs'', ''style'', ''refactor'', ''perf'', ''test'', ''build'', ''ci'', ''chore'', ''revert'']"

definition starts_with :: "string \<Rightarrow> string \<Rightarrow> bool" where
  "starts_with p s \<longleftrightarrow> take (length p) s = p"

text \<open>The class \<open>[\w./-]\<close>, over ASCII.\<close>

definition scope_char :: "char \<Rightarrow> bool" where
  "scope_char c \<longleftrightarrow>
     c \<in> set ''ABCDEFGHIJKLMNOPQRSTUVWXYZabcdefghijklmnopqrstuvwxyz0123456789_./-''"

text \<open>\<open>!?: .{1,88}$\<close>: what may follow the type and the scope. A line holds no line feed.\<close>

definition match_summary :: "string \<Rightarrow> bool" where
  "match_summary s =
     (let rest = (if starts_with ''!'' s then drop 1 s else s) in
      starts_with '': '' rest \<and> 1 \<le> length (drop 2 rest) \<and> length (drop 2 rest) \<le> 88)"

text \<open>The scope: \<open>(\([\w./-]+\))?\<close>, first tried, then left out.\<close>

definition match_scope :: "string \<Rightarrow> bool" where
  "match_scope s =
     ((case s of
         c # after \<Rightarrow> c = CHR ''('' \<and>
           (let scope = takeWhile scope_char after; rest = dropWhile scope_char after in
            scope \<noteq> [] \<and> starts_with '')'' rest \<and> match_summary (drop 1 rest))
       | [] \<Rightarrow> False) \<or> match_summary s)"

definition PATTERN_match :: "string \<Rightarrow> bool" where
  "PATTERN_match line =
     list_ex (\<lambda>t. starts_with t line \<and> match_scope (drop (length t) line)) COMMIT_TYPES"

definition commit_msg_main :: "string \<Rightarrow> nat" where
  "commit_msg_main first_line =
     (if starts_with ''Merge '' first_line \<or> starts_with ''fixup!'' first_line then 0
      else if \<not> PATTERN_match first_line then 1 else 0)"

subsection \<open>Lemmas\<close>

lemma starts_with_iff: "starts_with p s \<longleftrightarrow> (\<exists>t. s = p @ t)"
  by (auto simp: starts_with_def) (metis append_take_drop_id)

definition summary_ok :: "string \<Rightarrow> bool" where
  "summary_ok text \<longleftrightarrow> 1 \<le> length text \<and> length text \<le> 88"

definition scope_ok :: "string \<Rightarrow> bool" where
  "scope_ok scope \<longleftrightarrow>
     scope = [] \<or> (\<exists>w. scope = ''('' @ w @ '')'' \<and> w \<noteq> [] \<and> list_all scope_char w)"

lemma match_summary_iff:
  "match_summary s \<longleftrightarrow>
     (\<exists>text. summary_ok text \<and> (s = '': '' @ text \<or> s = ''!: '' @ text))"
  by (auto simp: match_summary_def starts_with_iff Let_def summary_ok_def)

lemma span_scope:
  assumes "list_all scope_char w"
  shows "takeWhile scope_char (w @ CHR '')'' # r) = w" "dropWhile scope_char (w @ CHR '')'' # r) = CHR '')'' # r"
proof -
  have "\<not> scope_char CHR '')''"
    by (simp add: scope_char_def)
  then show "takeWhile scope_char (w @ CHR '')'' # r) = w" "dropWhile scope_char (w @ CHR '')'' # r) = CHR '')'' # r"
    using assms by (induction w) auto
qed

lemma match_scope_iff:
  "match_scope s \<longleftrightarrow> (\<exists>scope rest. s = scope @ rest \<and> match_summary rest \<and> scope_ok scope)"
proof
  assume "match_scope s"
  then consider "match_summary s"
    | after where "s = CHR ''('' # after" "takeWhile scope_char after \<noteq> []"
        "starts_with '')'' (dropWhile scope_char after)" "match_summary (drop 1 (dropWhile scope_char after))"
    by (auto simp: match_scope_def Let_def split: list.splits)
  then show "\<exists>scope rest. s = scope @ rest \<and> match_summary rest \<and> scope_ok scope"
  proof cases
    case 1
    then show ?thesis
      by (intro exI [where x = "[]"] exI [where x = s]) (simp add: scope_ok_def)
  next
    case 2
    obtain r where r: "dropWhile scope_char after = CHR '')'' # r"
      using 2(3) by (auto simp: starts_with_iff)
    let ?scope = "''('' @ takeWhile scope_char after @ '')''"
    have "s = ?scope @ r"
      using 2(1) r takeWhile_dropWhile_id [of scope_char after] by simp
    moreover have "scope_ok ?scope"
      using 2(2) by (auto simp: scope_ok_def list_all_iff dest: set_takeWhileD)
    ultimately show ?thesis
      using 2(4) r by (intro exI [where x = ?scope] exI [where x = r]) simp
  qed
next
  assume "\<exists>scope rest. s = scope @ rest \<and> match_summary rest \<and> scope_ok scope"
  then obtain scope rest where s: "s = scope @ rest" "match_summary rest" "scope_ok scope"
    by blast
  show "match_scope s"
  proof (cases "scope = []")
    case True
    with s show ?thesis by (simp add: match_scope_def)
  next
    case False
    then obtain w where "scope = ''('' @ w @ '')''" "w \<noteq> []" "list_all scope_char w"
      using s(3) by (auto simp: scope_ok_def)
    then show ?thesis
      using s by (simp add: match_scope_def span_scope starts_with_def)
  qed
qed

text \<open>
  The line of an ordinary commit is accepted exactly when it is one of the types, an optional scope in
  parentheses, an optional exclamation mark, a colon and a space, and a summary of 1 to 88 characters.
\<close>

lemma commit_messages_are_conventional:
  "PATTERN_match line \<longleftrightarrow>
     (\<exists>t \<in> set COMMIT_TYPES. \<exists>scope text. scope_ok scope \<and> summary_ok text \<and>
        (line = t @ scope @ '': '' @ text \<or> line = t @ scope @ ''!: '' @ text))"
proof -
  have "starts_with t line \<and> match_scope (drop (length t) line) \<longleftrightarrow>
      (\<exists>scope text. scope_ok scope \<and> summary_ok text \<and>
        (line = t @ scope @ '': '' @ text \<or> line = t @ scope @ ''!: '' @ text))" for t
  proof -
    have "starts_with t line \<and> match_scope (drop (length t) line) \<longleftrightarrow> (\<exists>s. line = t @ s \<and> match_scope s)"
      by (auto simp: starts_with_iff)
    then show ?thesis
      unfolding match_scope_iff match_summary_iff by blast
  qed
  then show ?thesis
    by (simp add: PATTERN_match_def list_ex_iff)
qed

text \<open>The probe reports ready exactly when both stores answer, and otherwise quotes what failed.\<close>

lemma readyz_reports_the_stores:
  "fst (readyz postgres redis) = 200 \<longleftrightarrow> postgres = None \<and> redis = None"
  by (simp add: readyz_def Let_def)

lemma map_of_documented: "map_of EXAMPLES code = None \<longleftrightarrow> map_of DESCRIPTIONS code = None"
  by (simp add: EXAMPLES_def DESCRIPTIONS_def)

text \<open>
  The problems are documented as they are sent: the example of a status is the content of the problem
  response with that status, for the request it quotes, and whatever the detail.
\<close>

lemma documented_problems_are_sent:
  assumes "map_of EXAMPLES code = Some example"
  shows "\<exists>detail path. rs_content (problem_response fresh
      (rq\<lparr>aq_path := path, aq_trace_id := Some EXAMPLE_TRACE_ID\<rparr>) code detail headers) = Some example"
  using assms
  by (auto simp: EXAMPLES_def problem_example_def problem_response_def lookup_or_def TYPE_BY_STATUS_def
      TITLE_BY_STATUS_def trace_id_def EXAMPLE_TRACE_ID_def split: if_splits)

end
