(* ===== verification/Spec2Isabelle.thy ===== *)
theory Spec2Isabelle
  imports Domain Breaker Backoff RateLimit Signing ApiKeyHash EventIngest DeliveryAttempts RelayWorker
    RetrySchedule Pool Workers Ssrf HttpSender Services
    System Pagination Auth Problems Schemas Uuid5 Api Tenancy SandboxAccess Sse Rows Receiver Loops
    Mock Backup Provision Overlap Kanban Egress Migrations ApiDocs
begin

text \<open>
  \<^bold>\<open>The program.\<close> Relay accepts events from tenants over HTTP and delivers each, signed, to every
  endpoint the tenant has subscribed to its type. An API process writes event and outbox row in one
  transaction; the \<^emph>\<open>relay\<close> worker turns due outbox rows into deliveries and publishes them on a
  Redis stream; the \<^emph>\<open>dispatcher\<close> reads the stream through a consumer group, attempts each delivery
  and acknowledges it; the \<^emph>\<open>scheduler\<close> moves due retries from a sorted set back to the stream; the
  \<^emph>\<open>reaper\<close> reclaims what a crashed dispatcher left pending. Attempts go through a circuit breaker
  per endpoint, an SSRF guard in front of every connection, and a retry budget, after which a
  delivery is dead until somebody replays it. A public sandbox gives anybody a tenant for an hour and
  a live feed of its attempts.

  \<^bold>\<open>The theories\<close>, with the code under \<open>src/src/relay\<close> they translate:

  \<^item> \<open>Prelude\<close>: lookup and update in lists of rows by key, the result type \<open>error + 'a\<close>, rounding.
  \<^item> \<open>Domain\<close>: \<open>domain/*/entities.py\<close>, \<open>domain/errors.py\<close>, \<open>infra/settings.py\<close>. Identifiers are 128-bit
    words, timestamps microseconds since 1970 as \<open>int\<close>, floats exact rationals, JSON a datatype with
    Python's \<open>==\<close> on it. Every exception is a constructor of \<open>error\<close>.
  \<^item> \<open>Crypto\<close>, \<open>Base64\<close>, \<open>Uuid5\<close>, \<open>Wire\<close>, \<open>Url\<close>: what the code uses of the standard library (UTF-8, hex,
    SHA-256, HMAC, base64, SHA-1, \<open>str\<close> and parsing of UUIDs, \<open>json.dumps\<close>, \<open>urlsplit\<close>, \<open>urljoin\<close>,
    \<open>ipaddress\<close>), on machine words where the library computes on them.
  \<^item> \<open>Signing\<close> (\<open>infra/signing.py\<close>), \<open>ApiKeyHash\<close> (\<open>domain/api_keys/hashing.py\<close>), \<open>Breaker\<close>
    (\<open>domain/endpoints/breaker.py\<close>), \<open>Backoff\<close> (\<open>domain/deliveries/backoff.py\<close>), \<open>RateLimit\<close>
    (\<open>infra/rate_limit.py\<close>, the Lua script included): the pure parts.
  \<^item> \<open>Store\<close>, \<open>UnitOfWork\<close>, \<open>Rows\<close>, \<open>Pagination\<close> (\<open>repositories/\<close>): the tables as one record of lists, each
    repository operation a function that fails as the database's constraints make it fail; the
    session over the committed tables; the columns as stored and their parsing; keyset pages.
  \<^item> \<open>EventIngest\<close>, \<open>DeliveryAttempts\<close>, \<open>Services\<close> (\<open>services/\<close>): the use cases.
  \<^item> \<open>Streams\<close>, \<open>RetrySchedule\<close>, \<open>AttemptEvents\<close> (\<open>infra/\<close>): the Redis stream with its consumer group, the
    sorted set of retries, the publication of attempts.
  \<^item> \<open>Ssrf\<close>, \<open>HttpSender\<close> (\<open>infra/ssrf_guard.py\<close>, \<open>infra/http_sender.py\<close>, \<open>infra/pinned_transport.py\<close>).
  \<^item> \<open>RelayWorker\<close>, \<open>Pool\<close>, \<open>Workers\<close>, \<open>Loops\<close> (\<open>workers/\<close>): the runs of the workers, the dispatcher's pool of
    tasks as a step relation, and the loops around the runs.
  \<^item> \<open>Auth\<close>, \<open>Problems\<close>, \<open>Schemas\<close>, \<open>Api\<close>, \<open>Sse\<close> (\<open>api/\<close>): authentication, error handlers and middleware,
    the shapes on the wire, every route of the v1 API, the sandbox's event stream.
  \<^item> \<open>System\<close>, \<open>Tenancy\<close>, \<open>SandboxAccess\<close>: components composed. \<open>System\<close> is a step relation in which API,
    workers and clients act on one world in any order, a crash between two effects being a step too.
  \<^item> \<open>Overlap\<close>: attempts that run at the same time (\<open>services/deliveries/service.py\<close> under the dispatcher's
    pool), cut at every statement they send to the database, with the columns each flush writes and
    the row locks it takes.
  \<^item> \<open>Mock\<close> (\<open>api/mock/router.py\<close>): the built-in destinations, and what a delivery to each records.
  \<^item> \<open>Receiver\<close>, \<open>Backup\<close>, \<open>Provision\<close> (\<open>src/scripts\<close>): \<open>verify_signature_independently.py\<close>, the other end of
    a signature; \<open>backup_postgres.py\<close> and \<open>restore_drill.py\<close>; \<open>load_test_setup.py\<close>.
  \<^item> \<open>Egress\<close> (\<open>src/scripts/verify_egress_firewall.py\<close>): the check of the host's firewall. \<open>Kanban\<close>
    (\<open>src/kanban-board/board_cli.py\<close>): the project's board, edited inside a page.
  \<^item> \<open>Migrations\<close> (\<open>src/migrations\<close>, \<open>repositories/*/models.py\<close>): the statements of every revision, up and
    down, and the tables the ORM declares. \<open>ApiDocs\<close> (\<open>api/openapi.py\<close>, \<open>api/health.py\<close>,
    \<open>scripts/generate_openapi_spec.py\<close>, \<open>scripts/check_commit_msg.py\<close>): the documented problems, the
    probes and two checks of the repository.

  \<^bold>\<open>Interfaces.\<close> A locale states what a client of a component relies on, and is interpreted on the
  component's own definitions: a table that is read back (\<open>stored_table\<close>, four interpretations), and
  those of the queue, the schedule and the paged listings in their theories. Clients' lemmas are
  proved in the locale and reached through the interpretation.

  \<^bold>\<open>What is shown.\<close> No live delivery is ever lost, whatever the order of steps and crashes, and each
  can still be finished (\<open>System\<close>); a request never reaches another tenant's rows (\<open>Tenancy\<close>); ingest is
  idempotent and refines a map from keys to events; an attempt settles its delivery in one commit,
  an error in it changes nothing, a failing delivery dies after exactly its budget; the breaker
  agrees with a specification over the history of outcomes; a run of the relay fans out exactly
  once per subscription; the queue owes a message until it is acknowledged; pops of the schedule
  are exact; the rate limiter keeps its budget and its \<open>Retry-After\<close> is honest; signatures, cursors,
  keys, rows and the live feed survive their round trips; every connection goes to an address that
  was checked for that hop, and no address of a private block is let through; the pool keeps its
  bounds and drains. Attempts that overlap without sharing an endpoint or a delivery can be put one
  after another, in the order of their commits, with the same outcome, which is what makes one step of
  an attempt in the other theories; attempts that do share an endpoint still never deadlock, but their
  failures can be counted as one (\<open>Overlap\<close>). The migrations build the declared tables and can be taken
  back; the scripts do what their reports say. Theorems about defects of the code stand beside the property they limit.

  \<^bold>\<open>Bounds and fuel.\<close> No definition needs fuel for the code's own loops: redirects are bounded by
  \<open>MAX_REDIRECT_HOPS\<close> as in the code, \<open>XAUTOCLAIM\<close> by its ten attempts per requested entry, the SSE loop
  by a measure (the time still to wait). Walks over pages recurse on the rows that are left. The
  workers' loops, which run until a signal, are given the signal as the number of iterations after
  which it is seen.

  \<^bold>\<open>Assumptions of the model.\<close> One transaction is one step: what other transactions commit meanwhile is
  visible where a function takes it as an argument (\<open>others\<close> in ingest), and otherwise not.
  The interleavings of READ COMMITTED inside an attempt are the subject of \<open>Overlap\<close>, for attempts among
  themselves; those of an attempt with a request of the API, or with a relay transaction that outlasts
  the reaper's idle time, are left out. A statement of a migration does to the schema what SQL says. FastAPI runs the dependencies of a route in the order of its
  parameters, before the body's fields are validated and after its JSON is parsed; the innermost
  middleware is the first added. The clock, random draws, DNS, the HTTP transport below the
  redirect loop, the parsing of request bodies by pydantic, and \<open>repr\<close> of a float are arguments.

  \<^bold>\<open>Not modelled.\<close> Failures of Redis and of the database connection; sequence numbers and identifiers
  of the stream beyond 64 bits; characters above code point 255 (strings are Isabelle's); rounding
  of floats; cursors and ISO timestamps in a form this API does not issue (an argument decides
  those); logging, metrics and their export; the console's pages; the OpenAPI text
  that FastAPI generates; connection pools; the drawing of the architecture diagram.
\<close>

end
